(* ===== verification/Prelude.thy ===== *)
theory Prelude
  imports
    Main
    "HOL-Library.Word"
    "HOL-Library.Char_ord"
    "HOL-Library.List_Lexorder"
    "HOL-Library.Finite_Map"
    "HOL-Library.Signed_Division"
    "HOL-Library.Multiset"
begin

text \<open>
  Shared ground of the development: the types that stand for Go's own types, the parts of the
  language and of its standard library that several components use (two's complement
  \<open>int\<close> arithmetic, \<open>time\<close>, \<open>strings\<close>, \<open>unicode/utf8\<close>), the theorem collections, and
  the generic lemmas on words, finite maps and lists that the component theories share.

  A Go \<open>[]byte\<close> and a Go \<open>string\<close> are both sequences of 8-bit values, and the program
  converts freely between them; both are \<^typ>\<open>char list\<close> here, since an Isabelle
  \<^typ>\<open>char\<close> is exactly an 8-bit value. A Go map is a finite map \<open>('k, 'v) fmap\<close>.
\<close>

section \<open>Theorem collections\<close>

named_theorems go_simps \<open>evaluation of the Go primitives on their operands\<close>
named_theorems inv_intros \<open>preservation of the components' invariants\<close>
named_theorems frame_simps \<open>which parts of a state an operation leaves alone\<close>

section \<open>Go's types\<close>

type_synonym bytes = "char list"
type_synonym uint32 = "32 word"
type_synonym uint64 = "64 word"

text \<open>
  \<open>time.Time\<close> is a number of nanoseconds since January 1 of year 1 (UTC), which is Go's zero
  time, so \<open>IsZero\<close> is equality with 0; \<open>time.Duration\<close> is a number of nanoseconds.
\<close>

type_synonym time = int
type_synonym duration = int

abbreviation millisecond :: duration where "millisecond \<equiv> 1000000"
abbreviation second :: duration where "second \<equiv> 1000000000"

section \<open>Two's complement arithmetic on Go's int\<close>

text \<open>Go's \<open>int\<close> has 64 bits on the supported platforms; sums and products wrap around.\<close>

definition wrap_int :: "int \<Rightarrow> int" where
  "wrap_int x = signed_take_bit 63 x"

lemma wrap_int_id [go_simps]: "- (2 ^ 63) \<le> x \<Longrightarrow> x < 2 ^ 63 \<Longrightarrow> wrap_int x = x"
  unfolding wrap_int_def by (rule signed_take_bit_int_eq_self) auto

lemma wrap_int_over: "2 ^ 63 \<le> x \<Longrightarrow> x < 2 ^ 64 \<Longrightarrow> wrap_int x = x - 2 ^ 64"
proof -
  assume a: "2 ^ 63 \<le> x" "x < 2 ^ 64"
  have "wrap_int x = wrap_int (x - 2 ^ 64)"
    unfolding wrap_int_def
    by (rule signed_take_bit_eq_iff_take_bit_eq [THEN iffD2])
      (simp add: take_bit_eq_mod minus_mod_self2)
  also have "\<dots> = x - 2 ^ 64"
    using a by (intro wrap_int_id) auto
  finally show ?thesis .
qed

text \<open>Go's integer division truncates towards zero.\<close>

abbreviation go_div :: "int \<Rightarrow> int \<Rightarrow> int" where
  "go_div a b \<equiv> a sdiv b"

lemma go_div_nonneg [go_simps]: "0 \<le> a \<Longrightarrow> 0 < b \<Longrightarrow> go_div a b = a div (b::int)"
  by (simp add: signed_divide_int_def sgn_if)

text \<open>\<open>t.Sub(u)\<close> saturates at the bounds of \<open>Duration\<close>.\<close>

definition time_sub :: "time \<Rightarrow> time \<Rightarrow> duration" where
  "time_sub t u = max (- (2 ^ 63)) (min (2 ^ 63 - 1) (t - u))"

text \<open>\<open>t.UnixMilli()\<close>: the Unix epoch is 62135596800 seconds after the zero time.\<close>

definition unix_milli :: "time \<Rightarrow> uint64" where
  "unix_milli t = word_of_int (t div millisecond - 62135596800000)"

section \<open>strings: HasPrefix, HasSuffix, TrimSuffix, Cut\<close>

definition has_prefix :: "string \<Rightarrow> string \<Rightarrow> bool" where
  "has_prefix p s \<longleftrightarrow> take (length p) s = p"

definition has_suffix :: "string \<Rightarrow> string \<Rightarrow> bool" where
  "has_suffix p s \<longleftrightarrow> has_prefix (rev p) (rev s)"

definition trim_suffix :: "string \<Rightarrow> string \<Rightarrow> string" where
  "trim_suffix s p = (if has_suffix p s then take (length s - length p) s else s)"

text \<open>\<open>strings.Cut\<close> with a one-byte separator: \<open>None\<close> when the separator is absent.\<close>

definition strings_cut :: "char \<Rightarrow> string \<Rightarrow> (string \<times> string) option" where
  "strings_cut c s =
     (if c \<in> set s then Some (takeWhile (\<lambda>x. x \<noteq> c) s, tl (dropWhile (\<lambda>x. x \<noteq> c) s))
      else None)"

lemma has_prefix_append [go_simps]: "has_prefix p (p @ s)"
  by (simp add: has_prefix_def)

lemma has_prefixE: "has_prefix p s \<Longrightarrow> \<exists>r. s = p @ r"
  unfolding has_prefix_def by (metis append_take_drop_id)

lemma has_prefix_iff: "has_prefix p s \<longleftrightarrow> (\<exists>r. s = p @ r)"
  using has_prefixE has_prefix_append by blast

lemma has_suffix_iff: "has_suffix p s \<longleftrightarrow> (\<exists>r. s = r @ p)"
proof
  assume "has_suffix p s"
  then obtain r where "rev s = rev p @ r"
    unfolding has_suffix_def by (blast dest: has_prefixE)
  then have "rev (rev s) = rev (rev p @ r)" by (rule arg_cong)
  then have "s = rev r @ p" by (simp only: rev_append rev_rev_ident)
  then show "\<exists>r. s = r @ p" ..
next
  assume "\<exists>r. s = r @ p"
  then obtain r where "s = r @ p" ..
  then show "has_suffix p s" by (simp add: has_suffix_def has_prefix_append)
qed

lemma strings_cut_append [go_simps]:
  "c \<notin> set k \<Longrightarrow> strings_cut c (k @ c # v) = Some (k, v)"
  by (induction k) (auto simp: strings_cut_def)

lemma strings_cut_SomeD: "strings_cut c s = Some (k, v) \<Longrightarrow> s = k @ c # v \<and> c \<notin> set k"
proof -
  assume cut: "strings_cut c s = Some (k, v)"
  then have "c \<in> set s" by (simp add: strings_cut_def split: if_splits)
  then obtain ys zs where s: "s = ys @ c # zs" "c \<notin> set ys"
    by (auto dest: split_list_first)
  with cut have "k = ys \<and> v = zs" by (simp add: strings_cut_append)
  with s show ?thesis by simp
qed

section \<open>strings.TrimSpace\<close>

text \<open>
  The UTF-8 encodings of the code points that \<open>unicode.IsSpace\<close> accepts. A string starts
  with a space rune exactly when one of them is a prefix, and (because the lead byte of each
  is the nearest rune start when reading backwards) ends with one exactly when one of them
  is a suffix.
\<close>

definition space_runes :: "string list" where
  "space_runes =
     [[CHR 0x09], [CHR 0x0A], [CHR 0x0B], [CHR 0x0C], [CHR 0x0D], [CHR 0x20],
      [CHR 0xC2, CHR 0x85], [CHR 0xC2, CHR 0xA0], [CHR 0xE1, CHR 0x9A, CHR 0x80],
      [CHR 0xE2, CHR 0x80, CHR 0x80], [CHR 0xE2, CHR 0x80, CHR 0x81],
      [CHR 0xE2, CHR 0x80, CHR 0x82], [CHR 0xE2, CHR 0x80, CHR 0x83],
      [CHR 0xE2, CHR 0x80, CHR 0x84], [CHR 0xE2, CHR 0x80, CHR 0x85],
      [CHR 0xE2, CHR 0x80, CHR 0x86], [CHR 0xE2, CHR 0x80, CHR 0x87],
      [CHR 0xE2, CHR 0x80, CHR 0x88], [CHR 0xE2, CHR 0x80, CHR 0x89],
      [CHR 0xE2, CHR 0x80, CHR 0x8A], [CHR 0xE2, CHR 0x80, CHR 0xA8],
      [CHR 0xE2, CHR 0x80, CHR 0xA9], [CHR 0xE2, CHR 0x80, CHR 0xAF],
      [CHR 0xE2, CHR 0x81, CHR 0x9F], [CHR 0xE3, CHR 0x80, CHR 0x80]]"

function strip_prefixes :: "string list \<Rightarrow> string \<Rightarrow> string" where
  "strip_prefixes rs s =
     (case find (\<lambda>r. r \<noteq> [] \<and> has_prefix r s) rs of
        None \<Rightarrow> s
      | Some r \<Rightarrow> strip_prefixes rs (drop (length r) s))"
  by pat_completeness auto
termination
proof (relation "measure (\<lambda>(rs, s). length s)")
  fix rs s r
  assume "find (\<lambda>r. r \<noteq> [] \<and> has_prefix r s) rs = Some r"
  then have "r \<noteq> []" and "has_prefix r s" by (auto simp: find_Some_iff)
  then have "length (drop (length r) s) < length s"
    by (cases s) (auto simp: has_prefix_def)
  then show "((rs, drop (length r) s), rs, s) \<in> measure (\<lambda>(rs, s). length s)" by simp
qed simp

declare strip_prefixes.simps [simp del]

definition trim_left :: "string \<Rightarrow> string" where
  "trim_left s = strip_prefixes space_runes s"

definition trim_right :: "string \<Rightarrow> string" where
  "trim_right s = rev (strip_prefixes (map rev space_runes) (rev s))"

definition trim_space :: "string \<Rightarrow> string" where
  "trim_space s = trim_right (trim_left s)"

lemma strip_prefixes_suffix: "\<exists>p. s = p @ strip_prefixes rs s"
proof (induction rs s rule: strip_prefixes.induct)
  case (1 rs s)
  show ?case
  proof (cases "find (\<lambda>r. r \<noteq> [] \<and> has_prefix r s) rs")
    case None
    then show ?thesis by (simp add: strip_prefixes.simps [of rs s])
  next
    case (Some r)
    obtain p where p: "drop (length r) s = p @ strip_prefixes rs (drop (length r) s)"
      using "1.IH" [OF Some] by blast
    have "s = (take (length r) s @ p) @ strip_prefixes rs (drop (length r) s)"
      using p by (metis append.assoc append_take_drop_id)
    moreover have "strip_prefixes rs s = strip_prefixes rs (drop (length r) s)"
      using Some by (simp add: strip_prefixes.simps [of rs s])
    ultimately show ?thesis by metis
  qed
qed

lemma strip_prefixes_done: "find (\<lambda>r. r \<noteq> [] \<and> has_prefix r (strip_prefixes rs s)) rs = None"
proof (induction rs s rule: strip_prefixes.induct)
  case (1 rs s)
  then show ?case
    by (cases "find (\<lambda>r. r \<noteq> [] \<and> has_prefix r s) rs")
      (simp_all add: strip_prefixes.simps [of rs s])
qed

lemma strip_prefixes_fixed:
  "find (\<lambda>r. r \<noteq> [] \<and> has_prefix r s) rs = None \<Longrightarrow> strip_prefixes rs s = s"
  by (simp add: strip_prefixes.simps [of rs s])

lemma trim_left_idem [simp]: "trim_left (trim_left s) = trim_left s"
  unfolding trim_left_def by (rule strip_prefixes_fixed [OF strip_prefixes_done])

lemma trim_right_idem [simp]: "trim_right (trim_right s) = trim_right s"
  unfolding trim_right_def by (simp add: strip_prefixes_fixed [OF strip_prefixes_done])

lemma trim_right_prefix: "\<exists>q. s = trim_right s @ q"
proof -
  obtain p where "rev s = p @ strip_prefixes (map rev space_runes) (rev s)"
    using strip_prefixes_suffix by blast
  then have "rev (rev s) = rev (strip_prefixes (map rev space_runes) (rev s)) @ rev p"
    by (metis rev_append)
  then show ?thesis by (auto simp: trim_right_def)
qed

lemma trim_left_fixed_prefix:
  assumes "trim_left (p @ q) = p @ q"
  shows "trim_left p = p"
proof -
  have "find (\<lambda>r. r \<noteq> [] \<and> has_prefix r (p @ q)) space_runes = None"
    using strip_prefixes_done [of space_runes "p @ q"] assms by (simp add: trim_left_def)
  then have "find (\<lambda>r. r \<noteq> [] \<and> has_prefix r p) space_runes = None"
    unfolding find_None_iff has_prefix_iff by (metis append.assoc)
  then show ?thesis unfolding trim_left_def by (rule strip_prefixes_fixed)
qed

lemma trim_space_idem [simp]: "trim_space (trim_space s) = trim_space s"
proof -
  obtain q where q: "trim_left s = trim_right (trim_left s) @ q"
    using trim_right_prefix by blast
  then have "trim_left (trim_right (trim_left s)) = trim_right (trim_left s)"
    using trim_left_idem [of s] by (metis trim_left_fixed_prefix)
  then show ?thesis by (simp add: trim_space_def)
qed

section \<open>unicode/utf8.Valid\<close>

abbreviation byte_val :: "char \<Rightarrow> nat" where
  "byte_val c \<equiv> of_char c"

definition byte_in :: "nat \<Rightarrow> nat \<Rightarrow> char \<Rightarrow> bool" where
  "byte_in lo hi c \<longleftrightarrow> lo \<le> byte_val c \<and> byte_val c \<le> hi"

abbreviation cont_byte :: "char \<Rightarrow> bool" where
  "cont_byte \<equiv> byte_in 128 191"

text \<open>
  The table of the Unicode standard that the library implements: one row per lead byte range,
  with the range of the second byte; overlong forms, surrogates and values beyond U+10FFFF
  are excluded by the second byte's range.
\<close>

fun utf8_valid :: "bytes \<Rightarrow> bool" where
  "utf8_valid [] = True"
| "utf8_valid (b # bs) =
     (if byte_in 0 127 b then utf8_valid bs
      else if byte_in 194 223 b then
        (case bs of c1 # r \<Rightarrow> cont_byte c1 \<and> utf8_valid r | _ \<Rightarrow> False)
      else if byte_in 224 239 b then
        (case bs of
           c1 # c2 # r \<Rightarrow>
             (if byte_val b = 224 then byte_in 160 191 c1
              else if byte_val b = 237 then byte_in 128 159 c1
              else cont_byte c1) \<and> cont_byte c2 \<and> utf8_valid r
         | _ \<Rightarrow> False)
      else if byte_in 240 244 b then
        (case bs of
           c1 # c2 # c3 # r \<Rightarrow>
             (if byte_val b = 240 then byte_in 144 191 c1
              else if byte_val b = 244 then byte_in 128 143 c1
              else cont_byte c1) \<and> cont_byte c2 \<and> cont_byte c3 \<and> utf8_valid r
         | _ \<Rightarrow> False)
      else False)"

lemma utf8_valid_ascii: "\<forall>c \<in> set s. byte_val c < 128 \<Longrightarrow> utf8_valid s"
  by (induction s) (auto simp: byte_in_def)

section \<open>Words\<close>

lemma unat_of_nat_below:
  "n \<le> unat (t :: 'a::len word) \<Longrightarrow> unat (of_nat n :: 'a word) = n"
proof -
  assume "n \<le> unat t"
  also have "unat t < 2 ^ LENGTH('a)" by (rule unsigned_less)
  finally show ?thesis by (simp add: unat_of_nat)
qed

lemma of_nat_eq_below [go_simps]:
  "n \<le> unat (t :: 'a::len word) \<Longrightarrow> of_nat n = t \<longleftrightarrow> n = unat t"
  using unat_of_nat_below [of n t] by auto

lemma of_nat_less_below [go_simps]:
  "n < unat (t :: 'a::len word) \<Longrightarrow> (of_nat n :: 'a word) < t"
  using unat_of_nat_below [of n t] by (simp add: word_less_nat_alt)

lemma unat_of_nat_less [go_simps]:
  "n < unat (t :: 'a::len word) \<Longrightarrow> unat (of_nat n :: 'a word) = n"
  by (rule unat_of_nat_below [of n t]) simp

lemma card_words_below: "card {s :: 'a::len word. s < t} = unat t"
proof -
  have "bij_betw unat {s :: 'a word. s < t} {..<unat t}"
    by (rule bij_betw_byWitness [where f' = of_nat])
      (auto simp: word_less_nat_alt go_simps)
  then show ?thesis using bij_betw_same_card by fastforce
qed

section \<open>Finite maps\<close>

lemma fcard_fmdom_fmupd:
  "fcard (fmdom (fmupd k v m)) =
     (if fmlookup m k = None then Suc (fcard (fmdom m)) else fcard (fmdom m))"
  by (auto simp: fcard_finsert_if fmlookup_dom_iff fmdom_notI split: option.splits)

lemma fcard_fempty [simp]: "fcard {||} = 0"
  by (simp add: fcard.rep_eq)

lemma fmdrop_fmupd_same' [simp]: "fmdrop k (fmupd k v m) = fmdrop k m"
  by (rule fmap_ext) simp

lemma fmupd_lookup_same [simp]: "fmlookup m k = Some v \<Longrightarrow> fmupd k v m = m"
  by (rule fmap_ext) auto

lemma fmupd_fmupd_same [simp]: "fmupd k v (fmupd k w m) = fmupd k v m"
  by (rule fmap_ext) auto

end
