(* ===== verification/Sha256.thy ===== *)
theory Sha256
  imports Prelude
begin

text \<open>
  The standard library's \<open>crypto/sha256\<close> as the program uses it: \<open>Sum256\<close> of a byte
  slice (FIPS 180-4), an executable function on bytes. The properties of the program rely on
  two facts only: it is a function of the content, and its result has \<open>sha256.Size\<close> = 32
  bytes (\<open>sha256_length\<close>). Nothing is assumed about collisions.
\<close>

unbundle bit_operations_syntax

definition sha256_Size :: nat where
  "sha256_Size = 32"

text \<open>The sixty-four round constants, four to a number.\<close>

definition four_words :: "int \<Rightarrow> uint32 list" where
  "four_words n = [word_of_int (n div 2 ^ 96), word_of_int (n div 2 ^ 64), word_of_int (n div 2 ^ 32), word_of_int n]"

definition sha_k :: "uint32 list" where
  "sha_k = concat (map four_words
    [0x428a2f9871374491b5c0fbcfe9b5dba5, 0x3956c25b59f111f1923f82a4ab1c5ed5,
     0xd807aa9812835b01243185be550c7dc3, 0x72be5d7480deb1fe9bdc06a7c19bf174,
     0xe49b69c1efbe47860fc19dc6240ca1cc, 0x2de92c6f4a7484aa5cb0a9dc76f988da,
     0x983e5152a831c66db00327c8bf597fc7, 0xc6e00bf3d5a7914706ca635114292967,
     0x27b70a852e1b21384d2c6dfc53380d13, 0x650a7354766a0abb81c2c92e92722c85,
     0xa2bfe8a1a81a664bc24b8b70c76c51a3, 0xd192e819d6990624f40e3585106aa070,
     0x19a4c1161e376c082748774c34b0bcb5, 0x391c0cb34ed8aa4a5b9cca4f682e6ff3,
     0x748f82ee78a5636f84c878148cc70208, 0x90befffaa4506cebbef9a3f7c67178f2])"

record sha_state =
  sha_a :: uint32  sha_b :: uint32  sha_c :: uint32  sha_d :: uint32
  sha_e :: uint32  sha_f :: uint32  sha_g :: uint32  sha_h :: uint32

definition sha_init :: sha_state where
  "sha_init =
    \<lparr>sha_a = 0x6a09e667, sha_b = 0xbb67ae85, sha_c = 0x3c6ef372, sha_d = 0xa54ff53a,
     sha_e = 0x510e527f, sha_f = 0x9b05688c, sha_g = 0x1f83d9ab, sha_h = 0x5be0cd19\<rparr>"

text \<open>The message is followed by a 1 bit, zeros up to 56 modulo 64 bytes, and its bit length.\<close>

definition be_bytes :: "nat \<Rightarrow> int \<Rightarrow> bytes" where
  "be_bytes n x = map (\<lambda>i. char_of (x div 256 ^ i)) (rev [0..<n])"

definition sha_pad :: "bytes \<Rightarrow> bytes" where
  "sha_pad m = m @ [CHR 0x80] @ replicate ((119 - length m mod 64) mod 64) (CHR 0x00)
                 @ be_bytes 8 (8 * int (length m))"

fun be_words :: "bytes \<Rightarrow> uint32 list" where
  "be_words (a # b # c # d # r) =
     (of_char a * 0x1000000 + of_char b * 0x10000 + of_char c * 0x100 + of_char d) # be_words r"
| "be_words _ = []"

text \<open>The message schedule, kept as the last sixteen words, newest first.\<close>

definition sha_schedule_next :: "uint32 list \<Rightarrow> uint32" where
  "sha_schedule_next w =
     (let w2 = w ! 1; w7 = w ! 6; w15 = w ! 14; w16 = w ! 15;
          s0 = word_rotr 7 w15 XOR word_rotr 18 w15 XOR drop_bit 3 w15;
          s1 = word_rotr 17 w2 XOR word_rotr 19 w2 XOR drop_bit 10 w2
      in w16 + s0 + w7 + s1)"

fun sha_extend :: "nat \<Rightarrow> uint32 list \<Rightarrow> uint32 list" where
  "sha_extend 0 w = w"
| "sha_extend (Suc n) w = sha_extend n (sha_schedule_next w # w)"

definition sha_round :: "uint32 \<times> uint32 \<Rightarrow> sha_state \<Rightarrow> sha_state" where
  "sha_round kw s =
     (let s1 = word_rotr 6 (sha_e s) XOR word_rotr 11 (sha_e s) XOR word_rotr 25 (sha_e s);
          ch = (sha_e s AND sha_f s) XOR (NOT (sha_e s) AND sha_g s);
          t1 = sha_h s + s1 + ch + fst kw + snd kw;
          s0 = word_rotr 2 (sha_a s) XOR word_rotr 13 (sha_a s) XOR word_rotr 22 (sha_a s);
          maj = (sha_a s AND sha_b s) XOR (sha_a s AND sha_c s) XOR (sha_b s AND sha_c s);
          t2 = s0 + maj
      in \<lparr>sha_a = t1 + t2, sha_b = sha_a s, sha_c = sha_b s, sha_d = sha_c s,
          sha_e = sha_d s + t1, sha_f = sha_e s, sha_g = sha_f s, sha_h = sha_g s\<rparr>)"

definition sha_block :: "sha_state \<Rightarrow> bytes \<Rightarrow> sha_state" where
  "sha_block s blk =
     (let w = rev (sha_extend 48 (rev (be_words blk)));
          t = fold sha_round (zip sha_k w) s
      in \<lparr>sha_a = sha_a s + sha_a t, sha_b = sha_b s + sha_b t,
          sha_c = sha_c s + sha_c t, sha_d = sha_d s + sha_d t,
          sha_e = sha_e s + sha_e t, sha_f = sha_f s + sha_f t,
          sha_g = sha_g s + sha_g t, sha_h = sha_h s + sha_h t\<rparr>)"

function sha_blocks :: "sha_state \<Rightarrow> bytes \<Rightarrow> sha_state" where
  "sha_blocks s m =
     (if length m < 64 then s else sha_blocks (sha_block s (take 64 m)) (drop 64 m))"
  by pat_completeness auto
termination
  by (relation "measure (\<lambda>(s, m). length m)") auto

declare sha_blocks.simps [simp del]

definition sha_digest :: "sha_state \<Rightarrow> bytes" where
  "sha_digest s =
     concat (map (\<lambda>w. be_bytes 4 (uint w))
       [sha_a s, sha_b s, sha_c s, sha_d s, sha_e s, sha_f s, sha_g s, sha_h s])"

definition sha256_Sum256 :: "bytes \<Rightarrow> bytes" where
  "sha256_Sum256 m = sha_digest (sha_blocks sha_init (sha_pad m))"

lemma length_be_bytes [simp]: "length (be_bytes n x) = n"
  by (simp add: be_bytes_def)

lemma sha256_length [simp]: "length (sha256_Sum256 m) = 32"
  by (simp add: sha256_Sum256_def sha_digest_def)

text \<open>The test vector of FIPS 180-4, evaluated by the kernel.\<close>

lemma sha256_abc:
  "map (of_char :: char \<Rightarrow> int) (sha256_Sum256 ''abc'') =
     [186, 120, 22, 191, 143, 1, 207, 234, 65, 65, 64, 222, 93, 174, 34, 35,
      176, 3, 97, 163, 150, 23, 122, 156, 180, 16, 255, 97, 242, 0, 21, 173]"
  by code_simp

end
