(* ===== verification/Payload.thy ===== *)
theory Payload
  imports Sha256
begin

text \<open>
  The clipboard payload: the messages of \<open>clipwire.proto\<close> as generated in
  \<open>internal/clipwire/clipwire.pb.go\<close>, and \<open>internal/clipwire/payload.go\<close> with
  \<open>hash.go\<close>: construction (\<open>NewPayload\<close>) and validation (\<open>ValidatePayload\<close>).
  A Go pointer to a message is an option, \<^const>\<open>None\<close> being nil. The runtime bookkeeping
  fields of a message (\<open>state\<close>, \<open>unknownFields\<close>, \<open>sizeCache\<close>) are left out: no
  operation of the program reads them.
\<close>

section \<open>Messages\<close>

text \<open>
  \<open>PayloadType\<close> is an open enumeration, an \<open>int32\<close>: a decoded message can carry any
  value. The generated constants name four of them.
\<close>

type_synonym PayloadType = "32 word"

definition PAYLOAD_TYPE_UNSPECIFIED :: PayloadType where "PAYLOAD_TYPE_UNSPECIFIED = 0"
definition PAYLOAD_TYPE_TEXT :: PayloadType where "PAYLOAD_TYPE_TEXT = 1"
definition PAYLOAD_TYPE_URL :: PayloadType where "PAYLOAD_TYPE_URL = 2"
definition PAYLOAD_TYPE_IMAGE :: PayloadType where "PAYLOAD_TYPE_IMAGE = 3"

lemmas payload_types =
  PAYLOAD_TYPE_UNSPECIFIED_def PAYLOAD_TYPE_TEXT_def PAYLOAD_TYPE_URL_def PAYLOAD_TYPE_IMAGE_def

record ClipboardPayload =
  cp_TimestampUnixMs :: uint64
  cp_Type :: PayloadType
  cp_Sha256 :: bytes
  cp_Data :: bytes
  cp_MimeType :: string
  cp_SizeBytes :: uint64

record PayloadChunk =
  pc_TransferId :: bytes
  pc_Sequence :: uint32
  pc_TotalChunks :: uint32
  pc_TotalSize :: uint64
  pc_Data :: bytes

text \<open>The zero message, which decoding the empty byte string yields.\<close>

definition zero_ClipboardPayload :: ClipboardPayload where
  "zero_ClipboardPayload =
     \<lparr>cp_TimestampUnixMs = 0, cp_Type = 0, cp_Sha256 = [], cp_Data = [],
      cp_MimeType = '''', cp_SizeBytes = 0\<rparr>"

text \<open>The generated getters accept a nil message and then return the field's zero value.\<close>

definition GetTimestampUnixMs :: "ClipboardPayload option \<Rightarrow> uint64" where
  "GetTimestampUnixMs x = (case x of Some x \<Rightarrow> cp_TimestampUnixMs x | None \<Rightarrow> 0)"

definition GetType :: "ClipboardPayload option \<Rightarrow> PayloadType" where
  "GetType x = (case x of Some x \<Rightarrow> cp_Type x | None \<Rightarrow> PAYLOAD_TYPE_UNSPECIFIED)"

definition GetSha256 :: "ClipboardPayload option \<Rightarrow> bytes" where
  "GetSha256 x = (case x of Some x \<Rightarrow> cp_Sha256 x | None \<Rightarrow> [])"

definition GetData :: "ClipboardPayload option \<Rightarrow> bytes" where
  "GetData x = (case x of Some x \<Rightarrow> cp_Data x | None \<Rightarrow> [])"

definition GetMimeType :: "ClipboardPayload option \<Rightarrow> string" where
  "GetMimeType x = (case x of Some x \<Rightarrow> cp_MimeType x | None \<Rightarrow> '''')"

definition GetSizeBytes :: "ClipboardPayload option \<Rightarrow> uint64" where
  "GetSizeBytes x = (case x of Some x \<Rightarrow> cp_SizeBytes x | None \<Rightarrow> 0)"

definition GetTransferId :: "PayloadChunk option \<Rightarrow> bytes" where
  "GetTransferId x = (case x of Some x \<Rightarrow> pc_TransferId x | None \<Rightarrow> [])"

definition GetSequence :: "PayloadChunk option \<Rightarrow> uint32" where
  "GetSequence x = (case x of Some x \<Rightarrow> pc_Sequence x | None \<Rightarrow> 0)"

definition GetTotalChunks :: "PayloadChunk option \<Rightarrow> uint32" where
  "GetTotalChunks x = (case x of Some x \<Rightarrow> pc_TotalChunks x | None \<Rightarrow> 0)"

definition GetTotalSize :: "PayloadChunk option \<Rightarrow> uint64" where
  "GetTotalSize x = (case x of Some x \<Rightarrow> pc_TotalSize x | None \<Rightarrow> 0)"

definition GetChunkData :: "PayloadChunk option \<Rightarrow> bytes" where
  "GetChunkData x = (case x of Some x \<Rightarrow> pc_Data x | None \<Rightarrow> [])"

lemmas payload_getters [simp] =
  GetTimestampUnixMs_def GetType_def GetSha256_def GetData_def GetMimeType_def GetSizeBytes_def
  GetTransferId_def GetSequence_def GetTotalChunks_def GetTotalSize_def GetChunkData_def

section \<open>Errors\<close>

text \<open>
  The sentinel errors of \<open>payload.go\<close> and \<open>chunking.go\<close>, the two wrapped codec errors
  with the message they wrap, the unnamed chunk-size error, and two run-time panics:
  \<open>make\<close> with a negative capacity and a slice expression out of range.
\<close>

datatype wire_error =
    ErrNilPayload | ErrPayloadTooLarge | ErrInvalidPayloadType | ErrInvalidSHA256Length
  | ErrInvalidSize | ErrHashMismatch | ErrInvalidUTF8 | ErrInvalidImageMIME
  | ErrUnexpectedMIMEType
  | ErrNilChunk | ErrInvalidTransferID | ErrInvalidChunkSequence | ErrInvalidChunkCount
  | ErrInvalidChunkTotalSize | ErrEmptyChunkData | ErrChunkMetadataMismatch
  | ErrConflictingChunk | ErrChunkSetSizeMismatch | ErrTransferHashMismatch
  | ErrChunkSizeNotPositive | ErrMarshalPayload string | ErrUnmarshalPayload string
  | PanicMakeSlice | PanicSliceBounds

section \<open>hash.go and payload.go\<close>

definition DefaultChunkSize :: int where
  "DefaultChunkSize = 1048576"

definition MaxPayloadBytes :: nat where
  "MaxPayloadBytes = 20000000"

definition allowedImageMIMETypes :: "string set" where
  "allowedImageMIMETypes = {''image/png'', ''image/jpeg''}"

definition ComputeContentSHA256 :: "bytes \<Rightarrow> bytes" where
  "ComputeContentSHA256 data = sha256_Sum256 data"

lemma length_ComputeContentSHA256 [simp]: "length (ComputeContentSHA256 d) = sha256_Size"
  by (simp add: ComputeContentSHA256_def sha256_Size_def)

text \<open>
  \<open>validate_payload p\<close> is the error \<open>ValidatePayload\<close> returns, \<^const>\<open>None\<close> for nil.
  Lengths are compared as \<open>uint64\<close>, as in the code.
\<close>

definition ValidatePayload :: "ClipboardPayload option \<Rightarrow> wire_error option" where
  "ValidatePayload p =
     (if p = None then Some ErrNilPayload
      else if GetType p = PAYLOAD_TYPE_UNSPECIFIED then Some ErrInvalidPayloadType
      else if length (GetData p) > MaxPayloadBytes then Some ErrPayloadTooLarge
      else if length (GetSha256 p) \<noteq> sha256_Size then Some ErrInvalidSHA256Length
      else if GetSizeBytes p \<noteq> of_nat (length (GetData p)) then Some ErrInvalidSize
      else
        let kind_err =
          (if GetType p = PAYLOAD_TYPE_IMAGE then
             (if GetMimeType p \<notin> allowedImageMIMETypes then Some ErrInvalidImageMIME else None)
           else if GetType p = PAYLOAD_TYPE_TEXT \<or> GetType p = PAYLOAD_TYPE_URL then
             (if GetMimeType p \<noteq> '''' then Some ErrUnexpectedMIMEType
              else if \<not> utf8_valid (GetData p) then Some ErrInvalidUTF8
              else None)
           else Some ErrInvalidPayloadType)
        in case kind_err of
             Some e \<Rightarrow> Some e
           | None \<Rightarrow>
               if ComputeContentSHA256 (GetData p) \<noteq> GetSha256 p then Some ErrHashMismatch
               else None)"

definition NewPayload ::
    "time \<Rightarrow> PayloadType \<Rightarrow> bytes \<Rightarrow> string \<Rightarrow> wire_error + ClipboardPayload" where
  "NewPayload ts kind data mimeType =
     (if kind = PAYLOAD_TYPE_UNSPECIFIED then Inl ErrInvalidPayloadType
      else if length data > MaxPayloadBytes then Inl ErrPayloadTooLarge
      else if kind = PAYLOAD_TYPE_IMAGE \<and> mimeType \<notin> allowedImageMIMETypes
        then Inl ErrInvalidImageMIME
      else if kind \<noteq> PAYLOAD_TYPE_IMAGE \<and> mimeType \<noteq> '''' then Inl ErrUnexpectedMIMEType
      else if kind \<noteq> PAYLOAD_TYPE_IMAGE \<and> \<not> utf8_valid data then Inl ErrInvalidUTF8
      else
        let payload = \<lparr>cp_TimestampUnixMs = unix_milli ts, cp_Type = kind,
                       cp_Sha256 = ComputeContentSHA256 data, cp_Data = data,
                       cp_MimeType = mimeType, cp_SizeBytes = of_nat (length data)\<rparr>
        in case ValidatePayload (Some payload) of
             Some e \<Rightarrow> Inl e
           | None \<Rightarrow> Inr payload)"

definition copyBytes :: "bytes \<Rightarrow> bytes" where
  "copyBytes src = (if length src = 0 then [] else take (length src) src)"

lemma copyBytes_id [simp]: "copyBytes src = src"
  by (simp add: copyBytes_def)

definition validateChunkSize :: "int \<Rightarrow> wire_error option" where
  "validateChunkSize chunkSize = (if chunkSize \<le> 0 then Some ErrChunkSizeNotPositive else None)"

section \<open>What validation promises\<close>

text \<open>
  The contract of a clipboard payload, stated without the order of the checks: a known kind,
  content within the budget, its true digest and length, and a MIME type exactly for images.
\<close>

definition valid_payload :: "ClipboardPayload \<Rightarrow> bool" where
  "valid_payload p \<longleftrightarrow>
     length (cp_Data p) \<le> MaxPayloadBytes
     \<and> cp_Sha256 p = ComputeContentSHA256 (cp_Data p)
     \<and> cp_SizeBytes p = of_nat (length (cp_Data p))
     \<and> (if cp_Type p = PAYLOAD_TYPE_IMAGE then cp_MimeType p \<in> allowedImageMIMETypes
        else cp_Type p \<in> {PAYLOAD_TYPE_TEXT, PAYLOAD_TYPE_URL}
             \<and> cp_MimeType p = '''' \<and> utf8_valid (cp_Data p))"

lemma digest_lengthD: "ComputeContentSHA256 d = h \<Longrightarrow> length h = sha256_Size"
  by auto

lemma ValidatePayload_valid: "ValidatePayload (Some p) = None \<longleftrightarrow> valid_payload p"
  by (auto simp: ValidatePayload_def valid_payload_def payload_types
      dest: digest_lengthD split: option.splits if_splits)

lemma ValidatePayload_nil [simp]: "ValidatePayload None = Some ErrNilPayload"
  by (simp add: ValidatePayload_def)

lemma valid_payloadD:
  assumes "valid_payload p"
  shows "length (cp_Data p) \<le> MaxPayloadBytes"
    and "cp_Sha256 p = ComputeContentSHA256 (cp_Data p)"
    and "length (cp_Sha256 p) = sha256_Size"
    and "cp_Type p \<noteq> PAYLOAD_TYPE_UNSPECIFIED"
  using assms by (auto simp: valid_payload_def payload_types split: if_splits)

lemma zero_ClipboardPayload_invalid: "\<not> valid_payload zero_ClipboardPayload"
  by (simp add: valid_payload_def zero_ClipboardPayload_def payload_types)

lemma valid_payload_size:
  assumes "valid_payload p"
  shows "unat (cp_SizeBytes p) = length (cp_Data p)"
  using assms
  by (simp add: valid_payload_def MaxPayloadBytes_def unat_of_nat)

lemma NewPayload_Inr:
  "NewPayload ts kind data mime = Inr p \<longleftrightarrow>
     p = \<lparr>cp_TimestampUnixMs = unix_milli ts, cp_Type = kind,
          cp_Sha256 = ComputeContentSHA256 data, cp_Data = data,
          cp_MimeType = mime, cp_SizeBytes = of_nat (length data)\<rparr> \<and> valid_payload p"
proof -
  let ?p = "\<lparr>cp_TimestampUnixMs = unix_milli ts, cp_Type = kind,
              cp_Sha256 = ComputeContentSHA256 data, cp_Data = data,
              cp_MimeType = mime, cp_SizeBytes = of_nat (length data)\<rparr>"
  have guards: "valid_payload ?p \<Longrightarrow>
      kind \<noteq> PAYLOAD_TYPE_UNSPECIFIED \<and> length data \<le> MaxPayloadBytes
      \<and> (kind = PAYLOAD_TYPE_IMAGE \<longrightarrow> mime \<in> allowedImageMIMETypes)
      \<and> (kind \<noteq> PAYLOAD_TYPE_IMAGE \<longrightarrow> mime = [] \<and> utf8_valid data)"
    by (auto simp: valid_payload_def payload_types split: if_splits)
  show ?thesis
  proof
    assume "NewPayload ts kind data mime = Inr p"
    then show "p = ?p \<and> valid_payload p"
      by (auto simp: NewPayload_def Let_def simp flip: ValidatePayload_valid
          split: if_splits option.splits)
  next
    assume "p = ?p \<and> valid_payload p"
    then have p: "p = ?p" and v: "valid_payload ?p" by (blast, elim conjE) (simp only:)
    with guards [OF v] show "NewPayload ts kind data mime = Inr p"
      by (auto simp: NewPayload_def Let_def ValidatePayload_valid [THEN iffD2])
  qed
qed

lemma NewPayload_valid: "NewPayload ts kind data mime = Inr p \<Longrightarrow> valid_payload p"
  unfolding NewPayload_Inr by blast

end
