(* ===== verification/Chunking.thy ===== *)
theory Chunking
  imports Payload
begin

text \<open>
  \<open>ChunkPayload\<close> of \<open>internal/clipwire/chunking.go\<close>: a validated payload is serialised and
  cut into transport-sized chunks. The serialiser, \<open>proto.Marshal\<close> of
  \<open>google.golang.org/protobuf\<close>, is the parameter \<open>marshal\<close>. Index arithmetic is Go's
  64-bit \<open>int\<close> arithmetic, with its wrap-around; \<open>make\<close> with a negative capacity and a
  slice expression out of range are run-time panics.
\<close>

section \<open>The code\<close>

definition go_min :: "int \<Rightarrow> int \<Rightarrow> int" where
  "go_min a b = (if a < b then a else b)"

text \<open>The slice expression \<open>s[a:b]\<close>: \<^const>\<open>None\<close> is the out-of-range panic.\<close>

definition go_slice :: "bytes \<Rightarrow> int \<Rightarrow> int \<Rightarrow> bytes option" where
  "go_slice s a b =
     (if 0 \<le> a \<and> a \<le> b \<and> b \<le> int (length s) then Some (take (nat (b - a)) (drop (nat a) s))
      else None)"

definition make_chunk :: "bytes \<Rightarrow> bytes \<Rightarrow> int \<Rightarrow> int \<Rightarrow> int \<Rightarrow> PayloadChunk option" where
  "make_chunk transferId serialized chunkSize totalChunks i =
     (let start = wrap_int (i * chunkSize);
          stop = go_min (wrap_int (start + chunkSize)) (int (length serialized))
      in case go_slice serialized start stop of
           None \<Rightarrow> None
         | Some data \<Rightarrow>
             Some \<lparr>pc_TransferId = copyBytes transferId,
                   pc_Sequence = word_of_int i,
                   pc_TotalChunks = word_of_int totalChunks,
                   pc_TotalSize = of_nat (length serialized),
                   pc_Data = copyBytes data\<rparr>)"

function chunk_loop ::
    "bytes \<Rightarrow> bytes \<Rightarrow> int \<Rightarrow> int \<Rightarrow> int \<Rightarrow> PayloadChunk list \<Rightarrow> wire_error + PayloadChunk list" where
  "chunk_loop transferId serialized chunkSize totalChunks i chunks =
     (if i < totalChunks then
        (case make_chunk transferId serialized chunkSize totalChunks i of
           None \<Rightarrow> Inl PanicSliceBounds
         | Some c \<Rightarrow> chunk_loop transferId serialized chunkSize totalChunks (i + 1) (chunks @ [c]))
      else Inr chunks)"
  by pat_completeness auto
termination
  by (relation "measure (\<lambda>(t, s, c, n, i, a). nat (n - i))") auto

declare chunk_loop.simps [simp del]

definition ChunkPayload ::
    "(ClipboardPayload \<Rightarrow> string + bytes) \<Rightarrow> ClipboardPayload option \<Rightarrow> int
     \<Rightarrow> wire_error + PayloadChunk list" where
  "ChunkPayload marshal p chunkSize =
     (case ValidatePayload p of
        Some e \<Rightarrow> Inl e
      | None \<Rightarrow>
     (case validateChunkSize chunkSize of
        Some e \<Rightarrow> Inl e
      | None \<Rightarrow>
     (case marshal (the p) of
        Inl e \<Rightarrow> Inl (ErrMarshalPayload e)
      | Inr serialized \<Rightarrow>
          let totalChunks =
                go_div (wrap_int (wrap_int (int (length serialized) + chunkSize) - 1)) chunkSize
          in if totalChunks < 0 then Inl PanicMakeSlice
             else chunk_loop (GetSha256 p) serialized chunkSize totalChunks 0 [])))"

section \<open>Reference: cutting a list into pieces\<close>

text \<open>The pieces of length \<open>c\<close> of a list, the last one possibly shorter.\<close>

function pieces :: "nat \<Rightarrow> 'a list \<Rightarrow> 'a list list" where
  "pieces c xs = (if c = 0 \<or> xs = [] then [] else take c xs # pieces c (drop c xs))"
  by pat_completeness auto
termination
  by (relation "measure (\<lambda>(c, xs). length xs)") auto

declare pieces.simps [simp del]

definition piece_count :: "nat \<Rightarrow> nat \<Rightarrow> nat" where
  "piece_count c n = (n + c - 1) div c"

lemma pieces_Nil [simp]: "pieces c [] = []"
  by (simp add: pieces.simps)

lemma pieces_step: "0 < c \<Longrightarrow> xs \<noteq> [] \<Longrightarrow> pieces c xs = take c xs # pieces c (drop c xs)"
  by (simp add: pieces.simps [of c xs])

lemma concat_pieces: "0 < c \<Longrightarrow> concat (pieces c xs) = xs"
proof (induction c xs rule: pieces.induct)
  case (1 c xs)
  then show ?case by (cases "xs = []") (simp_all add: pieces_step)
qed

lemma piece_count_step: "0 < c \<Longrightarrow> 0 < n \<Longrightarrow> piece_count c n = Suc (piece_count c (n - c))"
proof -
  assume c: "0 < c" and n: "0 < n"
  show ?thesis
  proof (cases "n \<le> c")
    case True
    have "(n + c - 1) div c = ((n - 1) + c) div c"
      using n by (intro arg_cong [where f = "\<lambda>x. x div c"]) simp
    also have "\<dots> = (n - 1) div c + 1" using c by (intro div_add_self2) simp
    also have "(n - 1) div c = 0" using True c n by simp
    finally have "piece_count c n = 1" by (simp add: piece_count_def)
    moreover have "piece_count c (n - c) = 0" using True c by (simp add: piece_count_def)
    ultimately show ?thesis by simp
  next
    case False
    have "(n + c - 1) div c = ((n - c + c - 1) + c) div c"
      using False by (intro arg_cong [where f = "\<lambda>x. x div c"]) simp
    also have "\<dots> = (n - c + c - 1) div c + 1" using c by (intro div_add_self2) simp
    finally show ?thesis by (simp only: piece_count_def Suc_eq_plus1)
  qed
qed

lemma length_pieces: "0 < c \<Longrightarrow> length (pieces c xs) = piece_count c (length xs)"
proof (induction c xs rule: pieces.induct)
  case (1 c xs)
  then show ?case
  proof (cases "xs = []")
    case True
    with "1.prems" show ?thesis by (simp add: piece_count_def)
  next
    case False
    with "1" show ?thesis by (simp add: pieces_step piece_count_step [of c "length xs"])
  qed
qed

lemma nth_pieces:
  "0 < c \<Longrightarrow> i < length (pieces c xs) \<Longrightarrow> pieces c xs ! i = take c (drop (i * c) xs)"
proof (induction c xs arbitrary: i rule: pieces.induct)
  case (1 c xs)
  then have xs: "xs \<noteq> []" by auto
  show ?case
  proof (cases i)
    case 0
    with xs "1.prems" show ?thesis by (simp add: pieces_step)
  next
    case (Suc j)
    with xs "1.prems" have "pieces c (drop c xs) ! j = take c (drop (j * c) (drop c xs))"
      by (intro "1.IH") (simp_all add: pieces_step)
    with xs "1.prems" Suc show ?thesis by (simp add: pieces_step add.commute)
  qed
qed

lemma piece_start: "0 < c \<Longrightarrow> i < piece_count c n \<Longrightarrow> i * c < n"
proof -
  assume c: "0 < c" and i: "i < piece_count c n"
  have "Suc i * c \<le> piece_count c n * c" using i by (intro mult_le_mono1) simp
  also have "\<dots> \<le> n + c - 1" by (simp add: piece_count_def div_times_less_eq_dividend)
  finally show ?thesis using c by simp
qed

lemma pieces_nonempty: "0 < c \<Longrightarrow> p \<in> set (pieces c xs) \<Longrightarrow> p \<noteq> [] \<and> length p \<le> c"
proof (induction c xs rule: pieces.induct)
  case (1 c xs)
  then show ?case by (cases "xs = []") (auto simp: pieces_step)
qed

section \<open>The loop computes the pieces\<close>

text \<open>The chunk that carries piece \<open>i\<close> of \<open>serialized\<close>, in natural numbers.\<close>

definition chunk_of :: "bytes \<Rightarrow> bytes \<Rightarrow> nat \<Rightarrow> nat \<Rightarrow> PayloadChunk" where
  "chunk_of transferId serialized c i =
     \<lparr>pc_TransferId = transferId, pc_Sequence = of_nat i,
      pc_TotalChunks = of_nat (piece_count c (length serialized)),
      pc_TotalSize = of_nat (length serialized),
      pc_Data = take c (drop (i * c) serialized)\<rparr>"

definition chunks_of :: "bytes \<Rightarrow> bytes \<Rightarrow> nat \<Rightarrow> PayloadChunk list" where
  "chunks_of transferId serialized c =
     map (chunk_of transferId serialized c) [0..<piece_count c (length serialized)]"

lemma chunks_of_data: "0 < c \<Longrightarrow> map pc_Data (chunks_of t s c) = pieces c s"
  by (rule nth_equalityI)
    (simp_all add: chunks_of_def chunk_of_def length_pieces nth_pieces)

lemma go_slice_piece:
  "a < length s \<Longrightarrow>
     go_slice s (int a) (go_min (int (a + c)) (int (length s))) = Some (take c (drop a s))"
  by (auto simp: go_slice_def go_min_def simp flip: of_nat_diff)

lemma make_chunk_eq:
  assumes c: "0 < c" and i: "i < piece_count c (length s)"
    and small: "int (length s) + int c \<le> 2 ^ 63"
  shows "make_chunk t s (int c) (int (piece_count c (length s))) (int i) = Some (chunk_of t s c i)"
proof -
  have start: "i * c < length s" using c i by (rule piece_start)
  then have wi: "wrap_int (int i * int c) = int (i * c)"
    using small by (intro trans [OF wrap_int_id]) (auto simp flip: of_nat_mult)
  have wo: "wrap_int (int (i * c) + int c) = int (i * c + c)"
    using small start by (intro trans [OF wrap_int_id]) (simp_all del: of_nat_mult)
  let ?stop = "go_min (int (i * c + c)) (int (length s))"
  have "go_slice s (int (i * c)) ?stop = Some (take c (drop (i * c) s))"
    using start by (rule go_slice_piece)
  then show ?thesis
    by (simp only: make_chunk_def Let_def wi wo chunk_of_def option.case copyBytes_id of_int_of_nat_eq)
qed

lemma chunk_loop_eq:
  assumes c: "0 < c" and small: "int (length s) + int c \<le> 2 ^ 63"
    and n: "n = piece_count c (length s)" and i: "i \<le> n"
  shows "chunk_loop t s (int c) (int n) (int i) acc = Inr (acc @ map (chunk_of t s c) [i..<n])"
  using i
proof (induction "n - i" arbitrary: i acc)
  case 0
  then show ?case by (simp add: chunk_loop.simps)
next
  case (Suc k)
  then have "i < n" by simp
  then have step: "chunk_loop t s (int c) (int n) (int i) acc
      = chunk_loop t s (int c) (int n) (int (Suc i)) (acc @ [chunk_of t s c i])"
    using make_chunk_eq [OF c _ small, of i t] n
    by (subst chunk_loop.simps) (simp add: add.commute)
  show ?case
    using Suc.hyps(1) [of "Suc i" "acc @ [chunk_of t s c i]"] Suc.hyps(2) \<open>i < n\<close>
    by (simp add: step upt_conv_Cons [of i n])
qed

lemma total_chunks_eq:
  assumes c: "0 < c" and small: "int (length s) + int c \<le> 2 ^ 63"
  shows "go_div (wrap_int (wrap_int (int (length s) + int c) - 1)) (int c)
         = int (piece_count c (length s))"
proof -
  let ?x = "int (length s) + int c"
  have w: "wrap_int (wrap_int ?x - 1) = ?x - 1"
  proof (cases "?x = 2 ^ 63")
    case True
    then have "wrap_int ?x = - (2 ^ 63)"
      using wrap_int_over [of ?x] by simp
    moreover have "wrap_int (- (2 ^ 63) - 1) = 2 ^ 63 - 1"
      by (simp add: wrap_int_def signed_take_bit_eq_if_negative)
    ultimately show ?thesis using True by simp
  next
    case False
    then show ?thesis using small by (simp add: wrap_int_id)
  qed
  show ?thesis
    using c unfolding w piece_count_def
    by (simp add: go_div_nonneg zdiv_int of_nat_diff)
qed

lemma ChunkPayload_eq:
  assumes v: "ValidatePayload (Some p) = None" and c: "0 < c"
    and m: "marshal p = Inr s" and small: "int (length s) + int c \<le> 2 ^ 63"
  shows "ChunkPayload marshal (Some p) (int c) = Inr (chunks_of (cp_Sha256 p) s c)"
  using chunk_loop_eq [OF c small refl, of 0 "cp_Sha256 p" "[]"] c
  by (simp add: ChunkPayload_def v m validateChunkSize_def chunks_of_def total_chunks_eq [OF c small])

section \<open>Chunk sizes whose arithmetic overflows\<close>

lemma go_div_neg: "a < 0 \<Longrightarrow> 0 < b \<Longrightarrow> go_div a b = - ((- a) div (b::int))"
  by (simp add: signed_divide_int_def sgn_if)

lemma ChunkPayload_overflow_eq:
  assumes v: "ValidatePayload (Some p) = None" and m: "marshal p = Inr s"
    and c: "chunkSize < 2 ^ 63" and over: "2 ^ 63 < int (length s) + chunkSize"
    and len: "int (length s) < 2 ^ 63"
  shows "ChunkPayload marshal (Some p) chunkSize =
    (if 2 * chunkSize + int (length s) \<le> 2 ^ 64 + 1 then Inl PanicMakeSlice else Inr [])"
proof -
  let ?x = "int (length s) + chunkSize"
  have pos: "0 < chunkSize" using over len by simp
  have w1: "wrap_int ?x = ?x - 2 ^ 64"
    using over c len by (intro wrap_int_over) auto
  have w2: "wrap_int (?x - 2 ^ 64 - 1) = ?x - 2 ^ 64 - 1"
    using over c len by (intro wrap_int_id) auto
  have d: "go_div (?x - 2 ^ 64 - 1) chunkSize = - ((2 ^ 64 + 1 - ?x) div chunkSize)"
    using c len pos by (subst go_div_neg) auto
  have sign: "- ((2 ^ 64 + 1 - ?x) div chunkSize) < 0 \<longleftrightarrow>
      2 * chunkSize + int (length s) \<le> 2 ^ 64 + 1"
    using pos c len by (auto simp: pos_imp_zdiv_pos_iff)
  have zero: "(2 ^ 64 + 1 - ?x) div chunkSize = 0"
    if "\<not> 2 * chunkSize + int (length s) \<le> 2 ^ 64 + 1"
    using that pos c len by (intro div_pos_pos_trivial) auto
  let ?n = "go_div (wrap_int (wrap_int ?x - 1)) chunkSize"
  have n: "?n = - ((2 ^ 64 + 1 - ?x) div chunkSize)"
    by (simp only: w1 w2 d)
  have "ChunkPayload marshal (Some p) chunkSize =
      (if ?n < 0 then Inl PanicMakeSlice else chunk_loop (cp_Sha256 p) s chunkSize ?n 0 [])"
    using pos by (simp add: ChunkPayload_def v m validateChunkSize_def Let_def)
  then show ?thesis
    using sign zero unfolding n by (simp add: chunk_loop.simps)
qed

end
