(* ===== verification/Reassembler.thy ===== *)
theory Reassembler
  imports Chunking
begin

text \<open>
  The \<open>Reassembler\<close> of \<open>internal/clipwire/chunking.go\<close>: chunks of several transfers arrive
  in any order, and a payload is emitted when the last missing chunk of its transfer arrives.
  \<open>Add\<close> holds the mutex from the first read of the map to its return, so it is one atomic
  step; validation of the chunk reads the argument only. The decoder, \<open>proto.Unmarshal\<close> of
  \<open>google.golang.org/protobuf\<close>, is the parameter \<open>unmarshal\<close>. The error is an \<^const>\<open>Inl\<close>;
  \<open>Inr None\<close> is \<open>(nil, false, nil)\<close> and \<open>Inr (Some p)\<close> is \<open>(&p, true, nil)\<close>.
\<close>

section \<open>State and operations\<close>

record reassemblyState =
  rs_totalChunks :: uint32
  rs_totalSize :: uint64
  rs_chunks :: "(uint32, bytes) fmap"
  rs_receivedBytes :: uint64

record Reassembler =
  ra_inflight :: "(bytes, reassemblyState) fmap"

definition NewReassembler :: Reassembler where
  "NewReassembler = \<lparr>ra_inflight = fmempty\<rparr>"

definition validateChunk :: "PayloadChunk option \<Rightarrow> wire_error option" where
  "validateChunk chunk =
     (if chunk = None then Some ErrNilChunk
      else if length (GetTransferId chunk) \<noteq> sha256_Size then Some ErrInvalidTransferID
      else if GetTotalChunks chunk = 0 then Some ErrInvalidChunkCount
      else if GetSequence chunk \<ge> GetTotalChunks chunk then Some ErrInvalidChunkSequence
      else if GetTotalSize chunk = 0 then Some ErrInvalidChunkTotalSize
      else if length (GetChunkData chunk) = 0 then Some ErrEmptyChunkData
      else if of_nat (length (GetChunkData chunk)) > GetTotalSize chunk
        then Some ErrChunkSetSizeMismatch
      else None)"

text \<open>
  The loop that concatenates the parts in sequence order, from sequence number \<open>i\<close>; it returns
  \<^const>\<open>None\<close> at the first missing part, where \<open>Add\<close> returns early.
\<close>

function gather :: "reassemblyState \<Rightarrow> nat \<Rightarrow> bytes \<Rightarrow> bytes option" where
  "gather st i serialized =
     (if i < unat (rs_totalChunks st) then
        (case fmlookup (rs_chunks st) (of_nat i) of
           None \<Rightarrow> None
         | Some part \<Rightarrow> gather st (Suc i) (serialized @ part))
      else Some serialized)"
  by pat_completeness auto
termination
  by (relation "measure (\<lambda>(st, i, a). unat (rs_totalChunks st) - i)") auto

declare gather.simps [simp del]

text \<open>Decoding and checking the concatenated bytes, after the transfer has left the map.\<close>

definition finish_transfer ::
    "(bytes \<Rightarrow> string + ClipboardPayload) \<Rightarrow> bytes \<Rightarrow> bytes
     \<Rightarrow> wire_error + ClipboardPayload option" where
  "finish_transfer unmarshal transferId serialized =
     (case unmarshal serialized of
        Inl e \<Rightarrow> Inl (ErrUnmarshalPayload e)
      | Inr payload \<Rightarrow>
          (case ValidatePayload (Some payload) of
             Some e \<Rightarrow> Inl e
           | None \<Rightarrow>
               if cp_Sha256 payload \<noteq> transferId then Inl ErrTransferHashMismatch
               else Inr (Some payload)))"

text \<open>Looking the transfer up, or creating it; \<^const>\<open>None\<close> on mismatching metadata.\<close>

definition find_transfer :: "Reassembler \<Rightarrow> PayloadChunk option \<Rightarrow> reassemblyState option" where
  "find_transfer r chunk =
     (case fmlookup (ra_inflight r) (GetTransferId chunk) of
        None \<Rightarrow>
          Some \<lparr>rs_totalChunks = GetTotalChunks chunk, rs_totalSize = GetTotalSize chunk,
                rs_chunks = fmempty, rs_receivedBytes = 0\<rparr>
      | Some st \<Rightarrow>
          if rs_totalChunks st \<noteq> GetTotalChunks chunk \<or> rs_totalSize st \<noteq> GetTotalSize chunk
          then None else Some st)"

definition store_part :: "PayloadChunk option \<Rightarrow> reassemblyState \<Rightarrow> reassemblyState" where
  "store_part chunk st =
     (let data = copyBytes (GetChunkData chunk)
      in st\<lparr>rs_chunks := fmupd (GetSequence chunk) data (rs_chunks st),
            rs_receivedBytes := rs_receivedBytes st + of_nat (length data)\<rparr>)"

definition put_transfer :: "bytes \<Rightarrow> reassemblyState \<Rightarrow> Reassembler \<Rightarrow> Reassembler" where
  "put_transfer key st r = r\<lparr>ra_inflight := fmupd key st (ra_inflight r)\<rparr>"

definition delete_transfer :: "bytes \<Rightarrow> Reassembler \<Rightarrow> Reassembler" where
  "delete_transfer key r = r\<lparr>ra_inflight := fmdrop key (ra_inflight r)\<rparr>"

definition Add ::
    "(bytes \<Rightarrow> string + ClipboardPayload) \<Rightarrow> Reassembler \<Rightarrow> PayloadChunk option
     \<Rightarrow> Reassembler \<times> (wire_error + ClipboardPayload option)" where
  "Add unmarshal r chunk =
     (case validateChunk chunk of
        Some e \<Rightarrow> (r, Inl e)
      | None \<Rightarrow>
     (let key = GetTransferId chunk in
      case find_transfer r chunk of
        None \<Rightarrow> (r, Inl ErrChunkMetadataMismatch)
      | Some state \<Rightarrow>
     (case fmlookup (rs_chunks state) (GetSequence chunk) of
        Some existing \<Rightarrow>
          (put_transfer key state r,
           if existing = GetChunkData chunk then Inr None else Inl ErrConflictingChunk)
      | None \<Rightarrow>
     (let state = store_part chunk state; r = put_transfer key state r in
      if of_nat (fcard (fmdom (rs_chunks state))) \<noteq> rs_totalChunks state then (r, Inr None)
      else if rs_receivedBytes state \<noteq> rs_totalSize state
        then (delete_transfer key r, Inl ErrChunkSetSizeMismatch)
      else
        (case gather state 0 [] of
           None \<Rightarrow> (r, Inr None)
         | Some serialized \<Rightarrow>
             (delete_transfer key r, finish_transfer unmarshal key serialized))))))"

text \<open>Adding the chunks of a list one after the other, with the results in order.\<close>

fun feed ::
    "(bytes \<Rightarrow> string + ClipboardPayload) \<Rightarrow> Reassembler \<Rightarrow> PayloadChunk option list
     \<Rightarrow> Reassembler \<times> (wire_error + ClipboardPayload option) list" where
  "feed unmarshal r [] = (r, [])"
| "feed unmarshal r (c # cs) =
     (let (r, x) = Add unmarshal r c; (r, xs) = feed unmarshal r cs in (r, x # xs))"

section \<open>The invariant of the in-flight transfers\<close>

definition stored_bytes :: "(uint32, bytes) fmap \<Rightarrow> nat" where
  "stored_bytes m = (\<Sum>s \<in> fset (fmdom m). length (the (fmlookup m s)))"

lemma stored_bytes_empty [simp]: "stored_bytes fmempty = 0"
  by (simp add: stored_bytes_def)

lemma stored_bytes_fmupd [simp]:
  assumes "fmlookup m k = None"
  shows "stored_bytes (fmupd k d m) = length d + stored_bytes m"
proof -
  have k: "k \<notin> fset (fmdom m)" using assms by (simp add: fmdom_notI)
  have "(\<Sum>s \<in> fset (fmdom m). length (the (fmlookup (fmupd k d m) s)))
      = (\<Sum>s \<in> fset (fmdom m). length (the (fmlookup m s)))"
    using k by (intro sum.cong) auto
  then show ?thesis using k by (simp add: stored_bytes_def)
qed

text \<open>
  An in-flight transfer is incomplete: it holds at least one part and fewer parts than it
  announces, each in range and not empty, and it counts the bytes of the parts it holds.
\<close>

definition state_inv :: "bytes \<Rightarrow> reassemblyState \<Rightarrow> bool" where
  "state_inv key st \<longleftrightarrow>
     length key = sha256_Size \<and> rs_totalSize st \<noteq> 0
     \<and> (\<forall>s d. fmlookup (rs_chunks st) s = Some d \<longrightarrow> s < rs_totalChunks st \<and> d \<noteq> [])
     \<and> rs_chunks st \<noteq> fmempty
     \<and> fcard (fmdom (rs_chunks st)) < unat (rs_totalChunks st)
     \<and> rs_receivedBytes st = of_nat (stored_bytes (rs_chunks st))"

definition reassembler_inv :: "Reassembler \<Rightarrow> bool" where
  "reassembler_inv r \<longleftrightarrow>
     (\<forall>key st. fmlookup (ra_inflight r) key = Some st \<longrightarrow> state_inv key st)"

lemma reassembler_inv_New: "reassembler_inv NewReassembler"
  by (simp add: reassembler_inv_def NewReassembler_def)

lemma reassembler_inv_put [inv_intros]:
  "reassembler_inv r \<Longrightarrow> state_inv key st \<Longrightarrow> reassembler_inv (put_transfer key st r)"
  by (simp add: reassembler_inv_def put_transfer_def)

lemma reassembler_inv_delete [inv_intros]:
  "reassembler_inv r \<Longrightarrow> reassembler_inv (delete_transfer key r)"
  by (simp add: reassembler_inv_def delete_transfer_def)

lemma delete_put [simp]: "delete_transfer key (put_transfer key st r) = delete_transfer key r"
  by (simp add: delete_transfer_def put_transfer_def)

lemma put_same [simp]:
  "fmlookup (ra_inflight r) key = Some st \<Longrightarrow> put_transfer key st r = r"
  by (simp add: put_transfer_def)

section \<open>Counting: a full count means every part is there\<close>

lemma fcard_parts_le:
  assumes "\<And>s d. fmlookup m s = Some d \<Longrightarrow> s < (t :: uint32)"
  shows "fcard (fmdom m) \<le> unat t"
proof -
  have "fset (fmdom m) \<subseteq> {s. s < t}"
    using assms by (auto simp: fmlookup_dom_iff)
  then have "card (fset (fmdom m)) \<le> card {s. s < t}"
    by (intro card_mono finite)
  then show ?thesis by (simp add: card_words_below fcard.rep_eq)
qed

lemma full_parts:
  assumes "\<And>s d. fmlookup m s = Some d \<Longrightarrow> s < (t :: uint32)"
    and "fcard (fmdom m) = unat t" and "s < t"
  shows "fmlookup m s \<noteq> None"
proof -
  have "fset (fmdom m) \<subseteq> {s. s < t}"
    using assms(1) by (auto simp: fmlookup_dom_iff)
  then have "fset (fmdom m) = {s. s < t}"
    using assms(2) by (intro card_subset_eq finite) (auto simp: card_words_below fcard.rep_eq)
  then show ?thesis using assms(3) by (auto simp: fmlookup_dom_iff set_eq_iff)
qed

lemma gather_all:
  assumes "\<And>j. i \<le> j \<Longrightarrow> j < unat (rs_totalChunks st) \<Longrightarrow>
      fmlookup (rs_chunks st) (of_nat j) = Some (part j)"
  shows "i \<le> unat (rs_totalChunks st) \<Longrightarrow>
    gather st i acc = Some (acc @ concat (map part [i..<unat (rs_totalChunks st)]))"
  using assms
proof (induction "unat (rs_totalChunks st) - i" arbitrary: i acc)
  case 0
  then show ?case by (simp add: gather.simps)
next
  case (Suc k)
  then have i: "i < unat (rs_totalChunks st)" by simp
  have "gather st i acc = gather st (Suc i) (acc @ part i)"
    using i Suc.prems(2) [of i] by (simp add: gather.simps [of st i acc])
  also have "\<dots> = Some ((acc @ part i) @ concat (map part [Suc i..<unat (rs_totalChunks st)]))"
    using Suc.hyps i Suc.prems(2) by (intro Suc.hyps(1)) auto
  finally show ?case using i by (simp add: upt_conv_Cons [of i])
qed

lemma gather_not_None:
  assumes "\<And>s. s < rs_totalChunks st \<Longrightarrow> fmlookup (rs_chunks st) s \<noteq> None"
  shows "gather st 0 [] \<noteq> None"
proof -
  have "gather st 0 [] = Some ([] @ concat (map (\<lambda>j. the (fmlookup (rs_chunks st) (of_nat j)))
      [0..<unat (rs_totalChunks st)]))"
    using assms
    by (intro gather_all)
      (auto simp: go_simps)
  then show ?thesis by simp
qed

section \<open>Add, one outcome at a time\<close>

text \<open>
  The state a valid chunk finds or creates: an in-flight state with the chunk's metadata, or
  the empty one.
\<close>

definition open_state :: "PayloadChunk \<Rightarrow> reassemblyState" where
  "open_state c =
     \<lparr>rs_totalChunks = pc_TotalChunks c, rs_totalSize = pc_TotalSize c,
      rs_chunks = fmempty, rs_receivedBytes = 0\<rparr>"

lemma validateChunk_None:
  "validateChunk (Some c) = None \<longleftrightarrow>
     length (pc_TransferId c) = sha256_Size \<and> pc_TotalChunks c \<noteq> 0
     \<and> pc_Sequence c < pc_TotalChunks c \<and> pc_TotalSize c \<noteq> 0 \<and> pc_Data c \<noteq> []
     \<and> of_nat (length (pc_Data c)) \<le> pc_TotalSize c"
  by (auto simp: validateChunk_def)

lemma Add_invalid: "validateChunk chunk = Some e \<Longrightarrow> Add unmarshal r chunk = (r, Inl e)"
  by (simp add: Add_def)

lemma find_transfer_Some:
  "find_transfer r (Some c) = Some st \<Longrightarrow>
     (fmlookup (ra_inflight r) (pc_TransferId c) = None \<and> st = open_state c
      \<or> fmlookup (ra_inflight r) (pc_TransferId c) = Some st)
     \<and> rs_totalChunks st = pc_TotalChunks c \<and> rs_totalSize st = pc_TotalSize c"
  by (auto simp: find_transfer_def open_state_def split: option.splits if_splits)

lemma find_transfer_None:
  "find_transfer r (Some c) = None \<longleftrightarrow>
     (\<exists>st. fmlookup (ra_inflight r) (pc_TransferId c) = Some st
        \<and> (rs_totalChunks st \<noteq> pc_TotalChunks c \<or> rs_totalSize st \<noteq> pc_TotalSize c))"
  by (auto simp: find_transfer_def split: option.splits)

text \<open>What holds of the state a chunk meets, whether it was found or created.\<close>

lemma found_state:
  assumes inv: "reassembler_inv r" and v: "validateChunk (Some c) = None"
    and f: "find_transfer r (Some c) = Some st"
  shows "\<And>s d. fmlookup (rs_chunks st) s = Some d \<Longrightarrow> s < pc_TotalChunks c \<and> d \<noteq> []"
    and "fcard (fmdom (rs_chunks st)) < unat (pc_TotalChunks c)"
    and "rs_receivedBytes st = of_nat (stored_bytes (rs_chunks st))"
proof -
  have pos: "0 < unat (pc_TotalChunks c)"
    using v by (simp add: validateChunk_None unat_gt_0)
  consider "st = open_state c" | "state_inv (pc_TransferId c) st"
    using find_transfer_Some [OF f] inv by (auto simp: reassembler_inv_def)
  then have "(\<forall>s d. fmlookup (rs_chunks st) s = Some d \<longrightarrow> s < pc_TotalChunks c \<and> d \<noteq> [])
      \<and> fcard (fmdom (rs_chunks st)) < unat (pc_TotalChunks c)
      \<and> rs_receivedBytes st = of_nat (stored_bytes (rs_chunks st))"
    using pos find_transfer_Some [OF f]
    by cases (auto simp: open_state_def state_inv_def)
  then show "\<And>s d. fmlookup (rs_chunks st) s = Some d \<Longrightarrow> s < pc_TotalChunks c \<and> d \<noteq> []"
    and "fcard (fmdom (rs_chunks st)) < unat (pc_TotalChunks c)"
    and "rs_receivedBytes st = of_nat (stored_bytes (rs_chunks st))"
    by blast+
qed

lemma store_part_sel [simp]:
  "rs_totalChunks (store_part (Some c) st) = rs_totalChunks st"
  "rs_totalSize (store_part (Some c) st) = rs_totalSize st"
  "rs_chunks (store_part (Some c) st) = fmupd (pc_Sequence c) (pc_Data c) (rs_chunks st)"
  "rs_receivedBytes (store_part (Some c) st) = rs_receivedBytes st + of_nat (length (pc_Data c))"
  by (simp_all add: store_part_def Let_def)

text \<open>A part that is new: the count decides between waiting, the size error and the end.\<close>

lemma Add_new_part:
  assumes inv: "reassembler_inv r" and v: "validateChunk (Some c) = None"
    and f: "find_transfer r (Some c) = Some st"
    and seq: "fmlookup (rs_chunks st) (pc_Sequence c) = None"
  shows "Add unmarshal r (Some c) =
    (if Suc (fcard (fmdom (rs_chunks st))) \<noteq> unat (pc_TotalChunks c)
     then (put_transfer (pc_TransferId c) (store_part (Some c) st) r, Inr None)
     else if rs_receivedBytes st + of_nat (length (pc_Data c)) \<noteq> pc_TotalSize c
     then (delete_transfer (pc_TransferId c) r, Inl ErrChunkSetSizeMismatch)
     else case gather (store_part (Some c) st) 0 [] of
            None \<Rightarrow> (put_transfer (pc_TransferId c) (store_part (Some c) st) r, Inr None)
          | Some serialized \<Rightarrow>
              (delete_transfer (pc_TransferId c) r, finish_transfer unmarshal (pc_TransferId c) serialized))"
proof -
  let ?st = "store_part (Some c) st"
  note found = found_state [OF inv v f] and meta = find_transfer_Some [OF f]
  have n: "fcard (fmdom (rs_chunks ?st)) = Suc (fcard (fmdom (rs_chunks st)))"
    using seq by (simp add: fcard_fmdom_fmupd del: fmdom_fmupd)
  have "of_nat (fcard (fmdom (rs_chunks ?st))) = rs_totalChunks ?st \<longleftrightarrow>
      Suc (fcard (fmdom (rs_chunks st))) = unat (pc_TotalChunks c)"
    unfolding n using of_nat_eq_below [OF Suc_leI [OF found(2)]] meta by (simp del: of_nat_Suc)
  then show ?thesis
    using v f seq meta by (simp add: Add_def Let_def split: option.split)
qed

text \<open>A full count means that no part is missing.\<close>

lemma gather_full:
  assumes inv: "reassembler_inv r" and v: "validateChunk (Some c) = None"
    and f: "find_transfer r (Some c) = Some st"
    and seq: "fmlookup (rs_chunks st) (pc_Sequence c) = None"
    and full: "Suc (fcard (fmdom (rs_chunks st))) = unat (pc_TotalChunks c)"
  shows "gather (store_part (Some c) st) 0 [] \<noteq> None"
proof (rule gather_not_None)
  let ?st = "store_part (Some c) st"
  note meta = find_transfer_Some [OF f]
  have n: "fcard (fmdom (rs_chunks ?st)) = Suc (fcard (fmdom (rs_chunks st)))"
    using seq by (simp add: fcard_fmdom_fmupd del: fmdom_fmupd)
  fix s assume s: "s < rs_totalChunks ?st"
  have "\<And>s d. fmlookup (rs_chunks ?st) s = Some d \<Longrightarrow> s < pc_TotalChunks c"
    using found_state(1) [OF inv v f] v by (auto simp: validateChunk_None split: if_splits)
  then show "fmlookup (rs_chunks ?st) s \<noteq> None"
    by (rule full_parts) (use full n s meta in simp_all)
qed

text \<open>
  The seven ways a call to \<open>Add\<close> ends. The early return of the concatenation loop is not
  among them: under the invariant a full count means that no part is missing.
\<close>

lemma Add_cases:
  assumes inv: "reassembler_inv r"
  obtains (invalid) e where "validateChunk chunk = Some e" "Add unmarshal r chunk = (r, Inl e)"
  | (mismatch) c where "chunk = Some c" "validateChunk chunk = None"
      "find_transfer r chunk = None" "Add unmarshal r chunk = (r, Inl ErrChunkMetadataMismatch)"
  | (duplicate) c st where "chunk = Some c" "validateChunk chunk = None"
      "find_transfer r chunk = Some st" "fmlookup (rs_chunks st) (pc_Sequence c) = Some (pc_Data c)"
      "Add unmarshal r chunk = (r, Inr None)"
  | (conflict) c st d where "chunk = Some c" "validateChunk chunk = None"
      "find_transfer r chunk = Some st" "fmlookup (rs_chunks st) (pc_Sequence c) = Some d"
      "d \<noteq> pc_Data c" "Add unmarshal r chunk = (r, Inl ErrConflictingChunk)"
  | (stored) c st where "chunk = Some c" "validateChunk chunk = None"
      "find_transfer r chunk = Some st" "fmlookup (rs_chunks st) (pc_Sequence c) = None"
      "Suc (fcard (fmdom (rs_chunks st))) < unat (pc_TotalChunks c)"
      "Add unmarshal r chunk = (put_transfer (pc_TransferId c) (store_part chunk st) r, Inr None)"
  | (size) c st where "chunk = Some c" "validateChunk chunk = None"
      "find_transfer r chunk = Some st" "fmlookup (rs_chunks st) (pc_Sequence c) = None"
      "Suc (fcard (fmdom (rs_chunks st))) = unat (pc_TotalChunks c)"
      "rs_receivedBytes st + of_nat (length (pc_Data c)) \<noteq> pc_TotalSize c"
      "Add unmarshal r chunk = (delete_transfer (pc_TransferId c) r, Inl ErrChunkSetSizeMismatch)"
  | (complete) c st serialized where "chunk = Some c" "validateChunk chunk = None"
      "find_transfer r chunk = Some st" "fmlookup (rs_chunks st) (pc_Sequence c) = None"
      "Suc (fcard (fmdom (rs_chunks st))) = unat (pc_TotalChunks c)"
      "rs_receivedBytes st + of_nat (length (pc_Data c)) = pc_TotalSize c"
      "gather (store_part chunk st) 0 [] = Some serialized"
      "Add unmarshal r chunk =
         (delete_transfer (pc_TransferId c) r, finish_transfer unmarshal (pc_TransferId c) serialized)"
proof (cases "validateChunk chunk")
  case (Some e)
  then show thesis using invalid Add_invalid by blast
next
  case v: None
  then obtain c where c: "chunk = Some c" by (cases chunk) (auto simp: validateChunk_def)
  show thesis
  proof (cases "find_transfer r chunk")
    case None
    then show thesis using v c by (intro mismatch) (simp_all add: Add_def)
  next
    case f: (Some st)
    note meta = find_transfer_Some [OF f [unfolded c]]
    show thesis
    proof (cases "fmlookup (rs_chunks st) (pc_Sequence c)")
      case (Some d)
      then have "fmlookup (ra_inflight r) (pc_TransferId c) = Some st"
        using meta by (auto simp: open_state_def)
      then have "Add unmarshal r chunk =
          (r, if d = pc_Data c then Inr None else Inl ErrConflictingChunk)"
        using v f Some c by (simp add: Add_def)
      then show thesis using v f Some c duplicate conflict by (cases "d = pc_Data c") auto
    next
      case seq: None
      note add = Add_new_part [OF inv v [unfolded c] f [unfolded c] seq, of unmarshal, folded c]
      show thesis
      proof (cases "Suc (fcard (fmdom (rs_chunks st))) = unat (pc_TotalChunks c)")
        case False
        moreover have "Suc (fcard (fmdom (rs_chunks st))) < unat (pc_TotalChunks c)"
          using found_state(2) [OF inv v [unfolded c] f [unfolded c]] False by simp
        ultimately show thesis using v f seq c add by (intro stored) auto
      next
        case True
        then obtain ser where "gather (store_part chunk st) 0 [] = Some ser"
          using gather_full [OF inv v [unfolded c] f [unfolded c] seq] c by blast
        then show thesis using v f seq True c add size complete by (auto split: if_splits)
      qed
    qed
  qed
qed

section \<open>Invariant, soundness and isolation of one step\<close>

lemma state_inv_store:
  assumes inv: "reassembler_inv r" and v: "validateChunk (Some c) = None"
    and f: "find_transfer r (Some c) = Some st"
    and seq: "fmlookup (rs_chunks st) (pc_Sequence c) = None"
    and more: "Suc (fcard (fmdom (rs_chunks st))) < unat (pc_TotalChunks c)"
  shows "state_inv (pc_TransferId c) (store_part (Some c) st)"
proof -
  note found = found_state [OF inv v f]
  have "fcard (fmdom (rs_chunks (store_part (Some c) st))) < unat (pc_TotalChunks c)"
    using more seq by (simp add: fcard_fmdom_fmupd del: fmdom_fmupd)
  moreover have "fmupd (pc_Sequence c) (pc_Data c) (rs_chunks st) \<noteq> fmempty"
    by (metis fmempty_lookup fmupd_lookup option.distinct(1))
  ultimately show ?thesis
    using v find_transfer_Some [OF f] found seq
    by (auto simp: state_inv_def validateChunk_None split: if_splits)
qed

lemma Add_inv [inv_intros]:
  assumes "reassembler_inv r"
  shows "reassembler_inv (fst (Add unmarshal r chunk))"
  using assms
  by (cases rule: Add_cases [OF assms, of chunk unmarshal])
    (auto intro: inv_intros state_inv_store)

lemma finish_transfer_Some:
  "finish_transfer unmarshal key ser = Inr (Some p) \<longleftrightarrow>
     unmarshal ser = Inr p \<and> valid_payload p \<and> cp_Sha256 p = key"
  by (auto simp: finish_transfer_def ValidatePayload_valid
      simp flip: ValidatePayload_valid split: sum.splits option.splits if_splits)

lemma finish_transfer_not_pending: "finish_transfer unmarshal key ser \<noteq> Inr None"
  by (auto simp: finish_transfer_def split: sum.splits option.splits)

lemma Add_emits:
  assumes inv: "reassembler_inv r" and e: "snd (Add unmarshal r chunk) = Inr (Some p)"
  obtains c where "chunk = Some c" "valid_payload p" "cp_Sha256 p = pc_TransferId c"
    "fst (Add unmarshal r chunk) = delete_transfer (pc_TransferId c) r"
  using e
  by (cases rule: Add_cases [OF inv, of chunk unmarshal]) (auto simp: finish_transfer_Some)

text \<open>A step of one transfer leaves the state of every other transfer alone.\<close>

lemma Add_frame [frame_simps]:
  assumes inv: "reassembler_inv r" and key: "GetTransferId chunk \<noteq> key"
  shows "fmlookup (ra_inflight (fst (Add unmarshal r chunk))) key = fmlookup (ra_inflight r) key"
  using key
  by (cases rule: Add_cases [OF inv, of chunk unmarshal])
    (auto simp: put_transfer_def delete_transfer_def)

section \<open>The reassembly interface\<close>

text \<open>
  What a consumer of reassembled payloads (the runtime's frame handler) relies on: a fresh
  reassembler is well formed, adding keeps it so, and only good payloads are emitted. The
  consumer's facts about whole sequences of chunks are proved here once.
\<close>

locale reassembly =
  fixes fresh :: 'r
    and add :: "'r \<Rightarrow> 'c \<Rightarrow> 'r \<times> ('e + 'p option)"
    and inv :: "'r \<Rightarrow> bool"
    and good :: "'p \<Rightarrow> bool"
  assumes inv_fresh: "inv fresh"
    and inv_add: "inv r \<Longrightarrow> inv (fst (add r c))"
    and emits_good: "inv r \<Longrightarrow> snd (add r c) = Inr (Some p) \<Longrightarrow> good p"
begin

lemma inv_run: "inv r \<Longrightarrow> inv (fold (\<lambda>c r. fst (add r c)) cs r)"
  by (induction cs arbitrary: r) (auto intro: inv_add)

lemma run_emits_good:
  "inv r \<Longrightarrow> snd (add (fold (\<lambda>c r. fst (add r c)) cs r) c) = Inr (Some p) \<Longrightarrow> good p"
  by (rule emits_good [OF inv_run])

lemma fresh_run_emits_good:
  "snd (add (fold (\<lambda>c r. fst (add r c)) cs fresh) c) = Inr (Some p) \<Longrightarrow> good p"
  by (rule run_emits_good [OF inv_fresh])

end

interpretation reasm: reassembly NewReassembler "Add unmarshal" reassembler_inv valid_payload
  for unmarshal
  by unfold_locales (auto intro: inv_intros reassembler_inv_New elim: Add_emits)

lemma feed_fst: "fst (feed unmarshal r cs) = fold (\<lambda>c r. fst (Add unmarshal r c)) cs r"
  by (induction cs arbitrary: r) (simp_all add: Let_def case_prod_unfold)

lemma length_feed [simp]: "length (snd (feed unmarshal r cs)) = length cs"
  by (induction cs arbitrary: r) (simp_all add: Let_def case_prod_unfold)

lemma feed_snoc:
  "feed unmarshal r (cs @ [c]) =
     (let (r', xs) = feed unmarshal r cs; (r'', x) = Add unmarshal r' c in (r'', xs @ [x]))"
  by (induction cs arbitrary: r) (simp_all add: Let_def case_prod_unfold)

lemma feed_inv [inv_intros]: "reassembler_inv r \<Longrightarrow> reassembler_inv (fst (feed unmarshal r cs))"
  unfolding feed_fst by (rule reasm.inv_run)

section \<open>The chunks of one payload, in any order\<close>

text \<open>
  A transfer that \<open>ChunkPayload\<close> can produce: a 32-byte identifier, a non-empty
  serialisation, and no more pieces than a \<open>uint32\<close> counts.
\<close>

definition chunkable :: "bytes \<Rightarrow> bytes \<Rightarrow> nat \<Rightarrow> bool" where
  "chunkable t s c \<longleftrightarrow>
     0 < c \<and> s \<noteq> [] \<and> length t = sha256_Size \<and> length s < 2 ^ 64
     \<and> piece_count c (length s) < 2 ^ 32"

abbreviation piece :: "nat \<Rightarrow> bytes \<Rightarrow> nat \<Rightarrow> bytes" where
  "piece c s i \<equiv> take c (drop (i * c) s)"

lemma unat_count: "chunkable t s c \<Longrightarrow>
    unat (of_nat (piece_count c (length s)) :: uint32) = piece_count c (length s)"
  by (simp add: chunkable_def unat_of_nat)

lemma unat_seq: "chunkable t s c \<Longrightarrow> i < piece_count c (length s) \<Longrightarrow> unat (of_nat i :: uint32) = i"
  by (simp add: chunkable_def unat_of_nat)

lemma concat_piece: "0 < c \<Longrightarrow> concat (map (piece c s) [0..<piece_count c (length s)]) = s"
proof -
  assume c: "0 < c"
  then have "map (piece c s) [0..<piece_count c (length s)] = pieces c s"
    by (intro nth_equalityI) (simp_all add: length_pieces nth_pieces)
  then show ?thesis using c by (simp add: concat_pieces)
qed

lemma chunk_of_valid:
  assumes ok: "chunkable t s c" and i: "i < piece_count c (length s)"
  shows "validateChunk (Some (chunk_of t s c i)) = None"
proof -
  have "i * c < length s" using ok i by (intro piece_start) (auto simp: chunkable_def)
  then have piece: "piece c s i \<noteq> []" using ok by (auto simp: chunkable_def)
  have len: "unat (of_nat (length s) :: uint64) = length s"
    using ok by (simp add: chunkable_def unat_of_nat)
  have "length (piece c s i) \<le> length s" by simp
  then have "of_nat (length (piece c s i)) \<le> (of_nat (length s) :: uint64)"
    using len by (simp only: word_le_nat_alt unat_of_nat_below [where t = "of_nat (length s) :: uint64"])
  moreover have "(of_nat (length s) :: uint64) \<noteq> 0"
    using ok len by (auto simp: chunkable_def simp flip: unat_eq_zero)
  moreover have "(of_nat i :: uint32) < of_nat (piece_count c (length s))"
    using i unat_count [OF ok] by (intro of_nat_less_below) simp
  ultimately show ?thesis
    using ok piece by (auto simp: validateChunk_None chunk_of_def chunkable_def)
qed

text \<open>
  \<open>holds t s c S r\<close>: of the transfer \<open>t\<close>, the reassembler holds exactly the pieces with
  numbers in \<open>S\<close> (and has no entry at all while \<open>S\<close> is empty).
\<close>

definition holds :: "bytes \<Rightarrow> bytes \<Rightarrow> nat \<Rightarrow> nat set \<Rightarrow> Reassembler \<Rightarrow> bool" where
  "holds t s c S r \<longleftrightarrow>
     (if S = {} then fmlookup (ra_inflight r) t = None
      else \<exists>st. fmlookup (ra_inflight r) t = Some st
             \<and> rs_totalChunks st = of_nat (piece_count c (length s))
             \<and> rs_totalSize st = of_nat (length s)
             \<and> (\<forall>i < piece_count c (length s).
                  fmlookup (rs_chunks st) (of_nat i) = (if i \<in> S then Some (piece c s i) else None)))"

lemma holds_empty [simp]: "holds t s c {} r \<longleftrightarrow> fmlookup (ra_inflight r) t = None"
  by (simp add: holds_def)

lemma parts_dom:
  assumes ok: "chunkable t s c"
    and below: "\<And>k d. fmlookup m k = Some d \<Longrightarrow> k < (of_nat (piece_count c (length s)) :: uint32)"
    and parts: "\<And>i. i < piece_count c (length s) \<Longrightarrow>
      fmlookup m (of_nat i) = (if i \<in> S then Some (piece c s i) else None)"
    and S: "S \<subseteq> {..<piece_count c (length s)}"
  shows "fset (fmdom m) = of_nat ` S" and "inj_on (of_nat :: nat \<Rightarrow> uint32) S"
proof -
  show inj: "inj_on (of_nat :: nat \<Rightarrow> uint32) S"
    by (rule inj_on_inverseI [where g = unat]) (use S unat_seq [OF ok] in auto)
  show "fset (fmdom m) = of_nat ` S"
  proof (intro set_eqI iffI)
    fix k assume "k \<in> fset (fmdom m)"
    then obtain d where d: "fmlookup m k = Some d" by (auto simp: fmlookup_dom_iff)
    then have "unat k < piece_count c (length s)"
      using below unat_count [OF ok] by (simp add: word_less_nat_alt)
    with d parts [of "unat k"] show "k \<in> of_nat ` S"
      by (auto split: if_splits intro: image_eqI [where x = "unat k"])
  next
    fix k :: uint32 assume "k \<in> of_nat ` S"
    then show "k \<in> fset (fmdom m)" using parts S by (auto simp: fmlookup_dom_iff)
  qed
qed

lemma parts_bytes:
  assumes ok: "chunkable t s c"
    and below: "\<And>k d. fmlookup m k = Some d \<Longrightarrow> k < (of_nat (piece_count c (length s)) :: uint32)"
    and parts: "\<And>i. i < piece_count c (length s) \<Longrightarrow> fmlookup m (of_nat i) = Some (piece c s i)"
  shows "stored_bytes m = length s"
proof -
  let ?n = "piece_count c (length s)"
  have parts': "fmlookup m (of_nat i) = (if i \<in> {..<?n} then Some (piece c s i) else None)"
    if "i < ?n" for i using parts that by simp
  have dom: "fset (fmdom m) = of_nat ` {..<?n}" "inj_on (of_nat :: nat \<Rightarrow> uint32) {..<?n}"
    by (rule parts_dom [OF ok]; use below parts' in blast)+
  have "stored_bytes m = (\<Sum>i<?n. length (piece c s i))"
    unfolding stored_bytes_def dom(1) by (subst sum.reindex [OF dom(2)]) (auto simp: parts)
  also have "\<dots> = length (concat (map (piece c s) [0..<?n]))"
    by (simp only: length_concat map_map o_def interv_sum_list_conv_sum_set_nat set_upt
        atLeast0LessThan)
  also have "\<dots> = length s" using ok by (simp add: concat_piece chunkable_def)
  finally show ?thesis .
qed

lemma chunk_of_sel [simp]:
  "pc_TransferId (chunk_of t s c i) = t"
  "pc_Sequence (chunk_of t s c i) = of_nat i"
  "pc_TotalChunks (chunk_of t s c i) = of_nat (piece_count c (length s))"
  "pc_TotalSize (chunk_of t s c i) = of_nat (length s)"
  "pc_Data (chunk_of t s c i) = piece c s i"
  by (simp_all add: chunk_of_def)

text \<open>What a chunk of the transfer meets.\<close>

lemma holds_found:
  assumes ok: "chunkable t s c" and inv: "reassembler_inv r" and h: "holds t s c S r"
    and S: "S \<subseteq> {..<piece_count c (length s)}" and i: "i < piece_count c (length s)"
  obtains st where "find_transfer r (Some (chunk_of t s c i)) = Some st"
    "\<And>j. j < piece_count c (length s) \<Longrightarrow>
       fmlookup (rs_chunks st) (of_nat j) = (if j \<in> S then Some (piece c s j) else None)"
    "fcard (fmdom (rs_chunks st)) = card S"
proof -
  let ?c = "chunk_of t s c i"
  obtain st where f: "find_transfer r (Some ?c) = Some st"
    and parts: "\<And>j. j < piece_count c (length s) \<Longrightarrow>
       fmlookup (rs_chunks st) (of_nat j) = (if j \<in> S then Some (piece c s j) else None)"
  proof (cases "S = {}")
    case True
    then show thesis using h that [of "open_state ?c"]
      by (simp add: find_transfer_def open_state_def)
  next
    case False
    then obtain st where "fmlookup (ra_inflight r) t = Some st"
        "rs_totalChunks st = of_nat (piece_count c (length s))" "rs_totalSize st = of_nat (length s)"
      and *: "\<forall>i < piece_count c (length s).
        fmlookup (rs_chunks st) (of_nat i) = (if i \<in> S then Some (piece c s i) else None)"
      using h unfolding holds_def by auto
    then have "find_transfer r (Some ?c) = Some st" by (simp add: find_transfer_def)
    with * show thesis by (intro that) auto
  qed
  have below: "\<And>k d. fmlookup (rs_chunks st) k = Some d \<Longrightarrow> k < of_nat (piece_count c (length s))"
    using found_state(1) [OF inv chunk_of_valid [OF ok i] f] by simp
  have "fset (fmdom (rs_chunks st)) = of_nat ` S" "inj_on (of_nat :: nat \<Rightarrow> uint32) S"
    by (rule parts_dom [OF ok]; use below parts S in blast)+
  then have "fcard (fmdom (rs_chunks st)) = card S"
    by (simp add: fcard.rep_eq card_image)
  with that f parts show thesis by blast
qed

text \<open>Repeating a chunk that is already held changes nothing.\<close>

lemma holds_repeat:
  assumes ok: "chunkable t s c" and inv: "reassembler_inv r" and h: "holds t s c S r"
    and S: "S \<subset> {..<piece_count c (length s)}" and i: "i \<in> S"
  shows "Add unmarshal r (Some (chunk_of t s c i)) = (r, Inr None)"
proof -
  have i': "i < piece_count c (length s)" using S i by auto
  obtain st where f: "find_transfer r (Some (chunk_of t s c i)) = Some st"
    and p: "fmlookup (rs_chunks st) (of_nat i) = Some (piece c s i)"
    using holds_found [OF ok inv h _ i'] S i i' by (metis psubset_imp_subset)
  have "fmlookup (ra_inflight r) t = Some st"
    using find_transfer_Some [OF f] p by (auto simp: open_state_def)
  then show ?thesis
    using f p by (simp add: Add_def chunk_of_valid [OF ok i'] Let_def)
qed

text \<open>A new chunk of the transfer: what it meets, and what \<open>Add\<close> does with it.\<close>

lemma holds_new:
  assumes ok: "chunkable t s c" and inv: "reassembler_inv r" and h: "holds t s c S r"
    and S: "insert i S \<subseteq> {..<piece_count c (length s)}" and i: "i \<notin> S"
  obtains st where "find_transfer r (Some (chunk_of t s c i)) = Some st"
    "fmlookup (rs_chunks st) (of_nat i) = None"
    "\<And>j. j < piece_count c (length s) \<Longrightarrow> fmlookup (rs_chunks (store_part (Some (chunk_of t s c i)) st)) (of_nat j)
       = (if j \<in> insert i S then Some (piece c s j) else None)"
    "Suc (fcard (fmdom (rs_chunks st))) = unat (pc_TotalChunks (chunk_of t s c i))
       \<longleftrightarrow> insert i S = {..<piece_count c (length s)}"
proof -
  let ?n = "piece_count c (length s)"
  have i': "i < ?n" and S': "S \<subseteq> {..<?n}" using S by auto
  obtain st where f: "find_transfer r (Some (chunk_of t s c i)) = Some st"
    and parts: "\<And>j. j < ?n \<Longrightarrow>
      fmlookup (rs_chunks st) (of_nat j) = (if j \<in> S then Some (piece c s j) else None)"
    and n: "fcard (fmdom (rs_chunks st)) = card S"
    using holds_found [OF ok inv h S' i'] by blast
  have "card (insert i S) = Suc (card S)"
    using i finite_subset [OF S'] by simp
  then have "Suc (card S) = ?n \<longleftrightarrow> insert i S = {..<?n}"
    using card_subset_eq [OF finite_lessThan S] by (metis card_lessThan)
  moreover have "fmlookup (rs_chunks (store_part (Some (chunk_of t s c i)) st)) (of_nat j)
      = (if j \<in> insert i S then Some (piece c s j) else None)" if "j < ?n" for j
    using parts [OF that] unat_seq [OF ok that] unat_seq [OF ok i'] by auto
  ultimately show thesis
    using that [OF f] parts [OF i'] i n unat_count [OF ok] by simp
qed

lemma holds_step:
  assumes ok: "chunkable t s c" and inv: "reassembler_inv r" and h: "holds t s c S r"
    and S: "insert i S \<subset> {..<piece_count c (length s)}" and i: "i \<notin> S"
  shows "\<exists>r'. Add unmarshal r (Some (chunk_of t s c i)) = (r', Inr None) \<and> holds t s c (insert i S) r'"
proof -
  let ?c = "chunk_of t s c i"
  have i': "i < piece_count c (length s)" using S by auto
  obtain st where f: "find_transfer r (Some ?c) = Some st"
    and seq: "fmlookup (rs_chunks st) (of_nat i) = None"
    and parts: "\<And>j. j < piece_count c (length s) \<Longrightarrow> fmlookup (rs_chunks (store_part (Some ?c) st)) (of_nat j)
       = (if j \<in> insert i S then Some (piece c s j) else None)"
    and more: "Suc (fcard (fmdom (rs_chunks st))) \<noteq> unat (pc_TotalChunks ?c)"
    using holds_new [OF ok inv h psubset_imp_subset [OF S] i] S by (metis psubsetE)
  have "Add unmarshal r (Some ?c) = (put_transfer t (store_part (Some ?c) st) r, Inr None)"
    using Add_new_part [OF inv chunk_of_valid [OF ok i'] f] seq more by simp
  moreover have "holds t s c (insert i S) (put_transfer t (store_part (Some ?c) st) r)"
    using find_transfer_Some [OF f] parts by (simp add: holds_def put_transfer_def)
  ultimately show ?thesis by blast
qed

lemma holds_last:
  assumes ok: "chunkable t s c" and inv: "reassembler_inv r" and h: "holds t s c S r"
    and full: "insert i S = {..<piece_count c (length s)}" and i: "i \<notin> S"
  shows "Add unmarshal r (Some (chunk_of t s c i)) = (delete_transfer t r, finish_transfer unmarshal t s)"
proof -
  let ?n = "piece_count c (length s)" and ?c = "chunk_of t s c i"
  have i': "i < ?n" using full by auto
  obtain st where f: "find_transfer r (Some ?c) = Some st"
    and seq: "fmlookup (rs_chunks st) (of_nat i) = None"
    and parts: "\<And>j. j < ?n \<Longrightarrow> fmlookup (rs_chunks (store_part (Some ?c) st)) (of_nat j)
       = (if j \<in> insert i S then Some (piece c s j) else None)"
    and count: "Suc (fcard (fmdom (rs_chunks st))) = unat (pc_TotalChunks ?c)"
    using holds_new [OF ok inv h equalityD1 [OF full] i] full by metis
  let ?st = "store_part (Some ?c) st"
  note v = chunk_of_valid [OF ok i'] and meta = find_transfer_Some [OF f]
  have all: "fmlookup (rs_chunks ?st) (of_nat j) = Some (piece c s j)" if "j < ?n" for j
    by (subst parts [OF that]) (use full that in simp)
  have below: "\<And>k d. fmlookup (rs_chunks ?st) k = Some d \<Longrightarrow> k < of_nat ?n"
    using found_state(1) [OF inv v f] v by (auto simp: validateChunk_None split: if_splits)
  have "stored_bytes (rs_chunks ?st) = length s"
    by (rule parts_bytes [OF ok]) (erule below, erule all)
  then have "length (piece c s i) + stored_bytes (rs_chunks st) = length s"
    using seq by simp
  then have "of_nat (stored_bytes (rs_chunks st)) + of_nat (length (piece c s i)) = (of_nat (length s) :: uint64)"
    by (metis add.commute of_nat_add)
  then have "rs_receivedBytes st + of_nat (length (pc_Data ?c)) = pc_TotalSize ?c"
    using found_state(3) [OF inv v f] by (simp only: chunk_of_sel)
  moreover have "gather ?st 0 [] = Some ([] @ concat (map (piece c s) [0..<?n]))"
    using gather_all [of 0 ?st "piece c s" "[]"] all meta unat_count [OF ok] by simp
  ultimately show ?thesis
    using Add_new_part [OF inv v f] seq count concat_piece ok by (simp add: chunkable_def)
qed

text \<open>
  A sequence of arrivals in which every chunk of transfer \<open>t\<close> is genuine; chunks of other
  transfers, malformed ones included, may come in between. \<open>got\<close> are the pieces that arrived.
\<close>

definition genuine :: "bytes \<Rightarrow> bytes \<Rightarrow> nat \<Rightarrow> PayloadChunk option list \<Rightarrow> bool" where
  "genuine t s c ys \<longleftrightarrow>
     (\<forall>y \<in> set ys. GetTransferId y = t \<longrightarrow> y \<in> Some ` set (chunks_of t s c))"

definition got :: "bytes \<Rightarrow> bytes \<Rightarrow> nat \<Rightarrow> PayloadChunk option list \<Rightarrow> nat set" where
  "got t s c ys = {i. i < piece_count c (length s) \<and> Some (chunk_of t s c i) \<in> set ys}"

lemma chunk_of_inj:
  "chunkable t s c \<Longrightarrow> i < piece_count c (length s) \<Longrightarrow> j < piece_count c (length s) \<Longrightarrow>
     chunk_of t s c i = chunk_of t s c j \<longleftrightarrow> i = j"
  by (metis chunk_of_sel(2) unat_seq)

lemma got_snoc_other: "GetTransferId y \<noteq> t \<Longrightarrow> got t s c (ys @ [y]) = got t s c ys"
  by (auto simp: got_def)

lemma got_snoc_own:
  "chunkable t s c \<Longrightarrow> i < piece_count c (length s) \<Longrightarrow>
     got t s c (ys @ [Some (chunk_of t s c i)]) = insert i (got t s c ys)"
  by (auto simp: got_def chunk_of_inj)

lemma got_subset: "got t s c ys \<subseteq> {..<piece_count c (length s)}"
  by (auto simp: got_def)

text \<open>One arrival, of this transfer or of another one.\<close>

lemma holds_arrival:
  assumes ok: "chunkable t s c" and inv: "reassembler_inv r" and h: "holds t s c (got t s c ys) r"
    and gen: "genuine t s c (ys @ [y])" and more: "got t s c (ys @ [y]) \<noteq> {..<piece_count c (length s)}"
  shows "holds t s c (got t s c (ys @ [y])) (fst (Add unmarshal r y))
    \<and> (GetTransferId y = t \<longrightarrow> snd (Add unmarshal r y) = Inr None)"
proof (cases "GetTransferId y = t")
  case False
  then show ?thesis
    using h got_snoc_other [OF False] Add_frame [OF inv False, of unmarshal]
    by (simp add: holds_def del: payload_getters)
next
  case True
  then obtain i where i: "i < piece_count c (length s)" "y = Some (chunk_of t s c i)"
    using gen by (auto simp: genuine_def chunks_of_def)
  have new_got: "got t s c (ys @ [y]) = insert i (got t s c ys)"
    unfolding i(2) by (rule got_snoc_own [OF ok i(1)])
  have sub: "insert i (got t s c ys) \<subset> {..<piece_count c (length s)}"
    using more got_subset [of t s c "ys @ [y]"] new_got by blast
  show ?thesis
  proof (cases "i \<in> got t s c ys")
    case True
    have "Add unmarshal r y = (r, Inr None)"
      unfolding i(2) using sub by (intro holds_repeat [OF ok inv h _ True]) blast
    then show ?thesis using h True new_got by (simp add: insert_absorb)
  next
    case False
    then show ?thesis using holds_step [OF ok inv h sub False, of unmarshal] new_got i(2) by auto
  qed
qed

lemma feed_holds:
  assumes ok: "chunkable t s c" and inv: "reassembler_inv r"
    and new: "fmlookup (ra_inflight r) t = None"
  shows "genuine t s c ys \<Longrightarrow> got t s c ys \<noteq> {..<piece_count c (length s)} \<Longrightarrow>
    holds t s c (got t s c ys) (fst (feed unmarshal r ys))
    \<and> (\<forall>k < length ys. GetTransferId (ys ! k) = t \<longrightarrow> snd (feed unmarshal r ys) ! k = Inr None)"
proof (induction ys rule: rev_induct)
  case Nil
  show ?case using new by (simp add: got_def)
next
  case (snoc y ys)
  let ?r = "fst (feed unmarshal r ys)"
  have "got t s c ys \<subseteq> got t s c (ys @ [y])" by (auto simp: got_def)
  then have "got t s c ys \<noteq> {..<piece_count c (length s)}"
    using snoc.prems(2) got_subset by blast
  then have IH: "holds t s c (got t s c ys) ?r"
    "\<And>k. k < length ys \<Longrightarrow> GetTransferId (ys ! k) = t \<Longrightarrow> snd (feed unmarshal r ys) ! k = Inr None"
    using snoc.IH snoc.prems(1) by (auto simp: genuine_def)
  note step = holds_arrival [OF ok feed_inv [OF inv] IH(1) snoc.prems, of unmarshal]
  have feed: "feed unmarshal r (ys @ [y]) =
      (fst (Add unmarshal ?r y), snd (feed unmarshal r ys) @ [snd (Add unmarshal ?r y)])"
    by (simp add: feed_snoc case_prod_unfold Let_def)
  show ?case
    using step IH(2) unfolding feed
    by (auto simp: nth_append less_Suc_eq simp del: payload_getters)
qed

lemma feed_completes:
  assumes ok: "chunkable t s c" and inv: "reassembler_inv r"
    and new: "fmlookup (ra_inflight r) t = None"
    and gen: "genuine t s c ys" and i: "i < piece_count c (length s)"
    and missing: "got t s c ys = {..<piece_count c (length s)} - {i}"
  shows "Add unmarshal (fst (feed unmarshal r ys)) (Some (chunk_of t s c i)) =
    (delete_transfer t (fst (feed unmarshal r ys)), finish_transfer unmarshal t s)"
proof (rule holds_last [OF ok feed_inv [OF inv]])
  show "holds t s c (got t s c ys) (fst (feed unmarshal r ys))"
    using feed_holds [OF ok inv new gen] missing i by blast
qed (use missing i in auto)

end
