(* ===== verification/Pending.thy ===== *)
theory Pending
  imports Prelude
begin

text \<open>
  \<open>internal/osclip/pending.go\<close>: the ledger of recently injected clipboard contents. Every
  remote payload written to the local clipboard makes the native watcher fire; the ledger
  holds one credit per write, and a watcher event that finds a credit is an echo. All four
  operations hold the ledger's mutex throughout and are atomic steps.
\<close>

section \<open>Format buckets, ordered as declared\<close>

datatype formatBucket = textBucket | imageBucket

fun bucket_rank :: "formatBucket \<Rightarrow> nat" where
  "bucket_rank textBucket = 1"
| "bucket_rank imageBucket = 2"

instantiation formatBucket :: linorder
begin

definition less_eq_formatBucket :: "formatBucket \<Rightarrow> formatBucket \<Rightarrow> bool" where
  "a \<le> b \<longleftrightarrow> bucket_rank a \<le> bucket_rank b"

definition less_formatBucket :: "formatBucket \<Rightarrow> formatBucket \<Rightarrow> bool" where
  "a < b \<longleftrightarrow> bucket_rank a < bucket_rank b"

lemma bucket_rank_inj: "bucket_rank a = bucket_rank b \<Longrightarrow> a = b"
  by (cases a; cases b) auto

instance
  by standard (auto simp: less_eq_formatBucket_def less_formatBucket_def dest: bucket_rank_inj)

end

lemma bucket_order [simp]: "textBucket < imageBucket" "textBucket \<le> imageBucket"
  by (simp_all add: less_formatBucket_def less_eq_formatBucket_def)

section \<open>State and operations\<close>

record pendingKey =
  pk_bucket :: formatBucket
  pk_hash :: bytes

record pendingEntry =
  pe_count :: int
  pe_expiresAt :: time

record pendingLedger =
  pl_ttl :: duration
  pl_entries :: "(pendingKey, pendingEntry) fmap"

definition newPendingLedger :: "duration \<Rightarrow> pendingLedger" where
  "newPendingLedger ttl = \<lparr>pl_ttl = ttl, pl_entries = fmempty\<rparr>"

text \<open>\<open>range\<close> over the map with deletions: every entry is examined once, in any order.\<close>

definition pruneLocked :: "pendingLedger \<Rightarrow> time \<Rightarrow> pendingLedger" where
  "pruneLocked l now =
     l\<lparr>pl_entries :=
         fmfilter (\<lambda>k. case fmlookup (pl_entries l) k of
                         Some entry \<Rightarrow> pe_expiresAt entry > now
                       | None \<Rightarrow> False) (pl_entries l)\<rparr>"

definition remember :: "pendingLedger \<Rightarrow> formatBucket \<Rightarrow> bytes \<Rightarrow> time \<Rightarrow> pendingLedger" where
  "remember l bucket hash now =
     (let l = pruneLocked l now;
          key = \<lparr>pk_bucket = bucket, pk_hash = hash\<rparr>;
          entry = (case fmlookup (pl_entries l) key of
                     Some entry \<Rightarrow> entry
                   | None \<Rightarrow> \<lparr>pe_count = 0, pe_expiresAt = 0\<rparr>);
          entry = entry\<lparr>pe_count := pe_count entry + 1, pe_expiresAt := now + pl_ttl l\<rparr>
      in l\<lparr>pl_entries := fmupd key entry (pl_entries l)\<rparr>)"

text \<open>Taking one credit off an entry that is present: the common tail of the next two.\<close>

definition take_credit :: "pendingLedger \<Rightarrow> pendingKey \<Rightarrow> pendingEntry \<Rightarrow> pendingLedger" where
  "take_credit l key entry =
     (let entry = entry\<lparr>pe_count := pe_count entry - 1\<rparr>
      in if pe_count entry \<le> 0 then l\<lparr>pl_entries := fmdrop key (pl_entries l)\<rparr>
         else l\<lparr>pl_entries := fmupd key entry (pl_entries l)\<rparr>)"

definition consume ::
    "pendingLedger \<Rightarrow> formatBucket \<Rightarrow> bytes \<Rightarrow> time \<Rightarrow> bool \<times> pendingLedger" where
  "consume l bucket hash now =
     (let l = pruneLocked l now; key = \<lparr>pk_bucket = bucket, pk_hash = hash\<rparr>
      in case fmlookup (pl_entries l) key of
           None \<Rightarrow> (False, l)
         | Some entry \<Rightarrow> (True, take_credit l key entry))"

definition forget :: "pendingLedger \<Rightarrow> formatBucket \<Rightarrow> bytes \<Rightarrow> pendingLedger" where
  "forget l bucket hash =
     (let key = \<lparr>pk_bucket = bucket, pk_hash = hash\<rparr>
      in case fmlookup (pl_entries l) key of
           None \<Rightarrow> l
         | Some entry \<Rightarrow> take_credit l key entry)"

section \<open>The contract of an echo ledger\<close>

text \<open>
  The abstract ledger is the number of credits each key has at a given time. A client (the
  clipboard manager) only relies on how the three operations change that number: remembering
  adds one and lets all credits of the key run for a full lifetime; consuming succeeds
  exactly when there is a credit, and takes it; forgetting takes one.
\<close>

locale echo_ledger =
  fixes remember_key :: "'l \<Rightarrow> 'k \<Rightarrow> time \<Rightarrow> 'l"
    and consume_key :: "'l \<Rightarrow> 'k \<Rightarrow> time \<Rightarrow> bool \<times> 'l"
    and forget_key :: "'l \<Rightarrow> 'k \<Rightarrow> 'l"
    and credits :: "'l \<Rightarrow> time \<Rightarrow> 'k \<Rightarrow> nat"
    and ttl :: "'l \<Rightarrow> duration"
    and inv :: "'l \<Rightarrow> bool"
  assumes inv_remember: "inv l \<Longrightarrow> inv (remember_key l k now)"
    and inv_consume: "inv l \<Longrightarrow> inv (snd (consume_key l k now))"
    and inv_forget: "inv l \<Longrightarrow> inv (forget_key l k)"
    and ttl_remember: "ttl (remember_key l k now) = ttl l"
    and ttl_consume: "ttl (snd (consume_key l k now)) = ttl l"
    and ttl_forget: "ttl (forget_key l k) = ttl l"
    and credits_remember: "inv l \<Longrightarrow> now \<le> t \<Longrightarrow>
      credits (remember_key l k now) t k' =
        (if k' = k then (if t < now + ttl l then credits l now k + 1 else 0) else credits l t k')"
    and consume_iff: "inv l \<Longrightarrow> fst (consume_key l k now) \<longleftrightarrow> 0 < credits l now k"
    and credits_consume: "inv l \<Longrightarrow> now \<le> t \<Longrightarrow>
      credits (snd (consume_key l k now)) t k' = credits l t k' - (if k' = k then 1 else 0)"
    and credits_forget: "inv l \<Longrightarrow>
      credits (forget_key l k) t k' = credits l t k' - (if k' = k then 1 else 0)"
begin

lemma remembered_is_suppressed:
  "inv l \<Longrightarrow> now \<le> t \<Longrightarrow> t < now + ttl l \<Longrightarrow> fst (consume_key (remember_key l k now) k t)"
  by (simp add: consume_iff inv_remember credits_remember)

lemma remembered_expires:
  "inv l \<Longrightarrow> now + ttl l \<le> t \<Longrightarrow> 0 \<le> ttl l \<Longrightarrow> \<not> fst (consume_key (remember_key l k now) k t)"
  by (simp add: consume_iff inv_remember credits_remember)

lemma other_keys_pass:
  "inv l \<Longrightarrow> now \<le> t \<Longrightarrow> k' \<noteq> k \<Longrightarrow>
     fst (consume_key (remember_key l k now) k' t) \<longleftrightarrow> fst (consume_key l k' t)"
  by (simp add: consume_iff inv_remember credits_remember)

lemma forget_undoes_remember:
  "inv l \<Longrightarrow> now \<le> t \<Longrightarrow> t < now + ttl l \<Longrightarrow>
     credits (forget_key (remember_key l k now) k) t k' =
       (if k' = k then credits l now k else credits l t k')"
  by (simp add: credits_forget inv_remember credits_remember)

text \<open>Out of any run of watcher events for one key, exactly as many are echoes as it has credits.\<close>

lemma consume_run:
  assumes "inv l"
  shows "inv (((\<lambda>l. snd (consume_key l k now)) ^^ n) l)
    \<and> credits (((\<lambda>l. snd (consume_key l k now)) ^^ n) l) now k = credits l now k - n"
  using assms by (induction n) (auto simp: inv_consume credits_consume)

lemma nth_consume:
  "inv l \<Longrightarrow>
     fst (consume_key (((\<lambda>l. snd (consume_key l k now)) ^^ n) l) k now) \<longleftrightarrow> n < credits l now k"
  using consume_run [where l = l and k = k and now = now and n = n] by (auto simp: consume_iff)

lemma remember_run:
  assumes "inv l" and "0 < ttl l"
  shows "inv (((\<lambda>l. remember_key l k now) ^^ n) l)
    \<and> ttl (((\<lambda>l. remember_key l k now) ^^ n) l) = ttl l
    \<and> credits (((\<lambda>l. remember_key l k now) ^^ n) l) now k = credits l now k + n"
  using assms by (induction n) (auto simp: inv_remember credits_remember ttl_remember)

end

section \<open>The ledger keeps the contract\<close>

definition ledger_inv :: "pendingLedger \<Rightarrow> bool" where
  "ledger_inv l \<longleftrightarrow> (\<forall>k e. fmlookup (pl_entries l) k = Some e \<longrightarrow> 1 \<le> pe_count e)"

text \<open>The abstraction: the live credits of a key at time \<open>t\<close>.\<close>

definition ledger_credits :: "pendingLedger \<Rightarrow> time \<Rightarrow> pendingKey \<Rightarrow> nat" where
  "ledger_credits l t k =
     (case fmlookup (pl_entries l) k of
        None \<Rightarrow> 0
      | Some e \<Rightarrow> if pe_expiresAt e > t then nat (pe_count e) else 0)"

abbreviation key_remember :: "pendingLedger \<Rightarrow> pendingKey \<Rightarrow> time \<Rightarrow> pendingLedger" where
  "key_remember l k now \<equiv> remember l (pk_bucket k) (pk_hash k) now"

abbreviation key_consume :: "pendingLedger \<Rightarrow> pendingKey \<Rightarrow> time \<Rightarrow> bool \<times> pendingLedger" where
  "key_consume l k now \<equiv> consume l (pk_bucket k) (pk_hash k) now"

abbreviation key_forget :: "pendingLedger \<Rightarrow> pendingKey \<Rightarrow> pendingLedger" where
  "key_forget l k \<equiv> forget l (pk_bucket k) (pk_hash k)"

lemma pendingKey_eta [simp]: "\<lparr>pk_bucket = pk_bucket k, pk_hash = pk_hash k\<rparr> = k"
  by (cases k) simp

lemma prune_lookup:
  "fmlookup (pl_entries (pruneLocked l now)) k =
     (case fmlookup (pl_entries l) k of
        Some e \<Rightarrow> if pe_expiresAt e > now then Some e else None
      | None \<Rightarrow> None)"
  by (simp add: pruneLocked_def split: option.split)

lemma prune_ttl [simp]: "pl_ttl (pruneLocked l now) = pl_ttl l"
  by (simp add: pruneLocked_def)

lemma prune_inv [inv_intros]: "ledger_inv l \<Longrightarrow> ledger_inv (pruneLocked l now)"
  by (auto simp: ledger_inv_def prune_lookup split: option.splits if_splits)

lemma prune_credits: "now \<le> t \<Longrightarrow> ledger_credits (pruneLocked l now) t k = ledger_credits l t k"
  by (auto simp: ledger_credits_def prune_lookup split: option.split)

lemma take_credit_lookup:
  "fmlookup (pl_entries (take_credit l k e)) k' =
     (if k' = k then (if pe_count e \<le> 1 then None else Some (e\<lparr>pe_count := pe_count e - 1\<rparr>))
      else fmlookup (pl_entries l) k')"
  by (auto simp: take_credit_def Let_def)

lemma take_credit_ttl [simp]: "pl_ttl (take_credit l k e) = pl_ttl l"
  by (simp add: take_credit_def Let_def)

lemma take_credit_inv [inv_intros]: "ledger_inv l \<Longrightarrow> ledger_inv (take_credit l k e)"
  by (auto simp: ledger_inv_def take_credit_lookup split: if_splits)

lemma take_credit_credits:
  "ledger_inv l \<Longrightarrow> fmlookup (pl_entries l) k = Some e \<Longrightarrow>
     ledger_credits (take_credit l k e) t k' = ledger_credits l t k' - (if k' = k then 1 else 0)"
  by (auto simp: ledger_credits_def take_credit_lookup ledger_inv_def nat_diff_distrib split: option.splits)

lemma no_entry_no_credits: "fmlookup (pl_entries l) k = None \<Longrightarrow> ledger_credits l t k = 0"
  by (simp add: ledger_credits_def)

lemma remember_lookup:
  "fmlookup (pl_entries (key_remember l k now)) k' =
     (if k' = k then
        Some \<lparr>pe_count = 1 + (case fmlookup (pl_entries (pruneLocked l now)) k of
                                Some e \<Rightarrow> pe_count e | None \<Rightarrow> 0),
              pe_expiresAt = now + pl_ttl l\<rparr>
      else fmlookup (pl_entries (pruneLocked l now)) k')"
  by (auto simp: remember_def Let_def split: option.split)

lemma remember_ttl [simp]: "pl_ttl (remember l b h now) = pl_ttl l"
  by (simp add: remember_def Let_def)

lemma remember_inv [inv_intros]: "ledger_inv l \<Longrightarrow> ledger_inv (key_remember l k now)"
  using prune_inv [of l now]
  by (auto simp: ledger_inv_def remember_lookup split: option.splits if_splits; fastforce)

lemma remember_credits:
  assumes "ledger_inv l" and "now \<le> t"
  shows "ledger_credits (key_remember l k now) t k' =
    (if k' = k then (if t < now + pl_ttl l then ledger_credits l now k + 1 else 0)
     else ledger_credits l t k')"
proof (cases "k' = k")
  case True
  have "ledger_credits l now k
      = nat (case fmlookup (pl_entries (pruneLocked l now)) k of Some e \<Rightarrow> pe_count e | None \<Rightarrow> 0)"
    by (auto simp: ledger_credits_def prune_lookup split: option.split)
  moreover have "0 \<le> (case fmlookup (pl_entries (pruneLocked l now)) k of
      Some e \<Rightarrow> pe_count e | None \<Rightarrow> 0)"
    using prune_inv [OF assms(1), of now] by (force simp: ledger_inv_def split: option.split)
  ultimately show ?thesis
    using True by (simp add: ledger_credits_def [of "key_remember l k now"] remember_lookup
        nat_add_distrib)
next
  case False
  then have "ledger_credits (key_remember l k now) t k' = ledger_credits (pruneLocked l now) t k'"
    by (simp add: ledger_credits_def remember_lookup)
  then show ?thesis using False assms(2) by (simp add: prune_credits)
qed

lemma consume_cases:
  "key_consume l k now =
     (case fmlookup (pl_entries (pruneLocked l now)) k of
        None \<Rightarrow> (False, pruneLocked l now)
      | Some e \<Rightarrow> (True, take_credit (pruneLocked l now) k e))"
  by (simp add: consume_def Let_def)

lemma forget_cases:
  "key_forget l k =
     (case fmlookup (pl_entries l) k of None \<Rightarrow> l | Some e \<Rightarrow> take_credit l k e)"
  by (simp add: forget_def Let_def)

lemma consume_ttl [simp]: "pl_ttl (snd (key_consume l k now)) = pl_ttl l"
  by (simp add: consume_cases split: option.split)

lemma forget_ttl [simp]: "pl_ttl (key_forget l k) = pl_ttl l"
  by (simp add: forget_cases split: option.split)

lemma consume_inv [inv_intros]: "ledger_inv l \<Longrightarrow> ledger_inv (snd (key_consume l k now))"
  by (auto simp: consume_cases intro!: inv_intros split: option.split)

lemma forget_inv [inv_intros]: "ledger_inv l \<Longrightarrow> ledger_inv (key_forget l k)"
  by (auto simp: forget_cases intro!: inv_intros split: option.split)

lemma consume_True_iff:
  assumes "ledger_inv l"
  shows "fst (key_consume l k now) \<longleftrightarrow> 0 < ledger_credits l now k"
  using assms
  by (auto simp: consume_cases ledger_credits_def prune_lookup ledger_inv_def split: option.split)
    force

lemma consume_credits:
  assumes "ledger_inv l" and "now \<le> t"
  shows "ledger_credits (snd (key_consume l k now)) t k' =
    ledger_credits l t k' - (if k' = k then 1 else 0)"
  using take_credit_credits [OF prune_inv [OF assms(1), of now]] prune_credits [OF assms(2)]
    no_entry_no_credits [of "pruneLocked l now" k t]
  by (auto simp: consume_cases split: option.split)

lemma forget_credits:
  "ledger_inv l \<Longrightarrow>
     ledger_credits (key_forget l k) t k' = ledger_credits l t k' - (if k' = k then 1 else 0)"
  using take_credit_credits no_entry_no_credits
  by (auto simp: forget_cases split: option.split)

interpretation ledger: echo_ledger key_remember key_consume key_forget ledger_credits pl_ttl ledger_inv
  by unfold_locales
    (simp_all add: inv_intros remember_credits consume_True_iff consume_credits forget_credits)

lemma ledger_inv_new [inv_intros]: "ledger_inv (newPendingLedger ttl)"
  by (simp add: ledger_inv_def newPendingLedger_def)

end
