(* ===== verification/OsClip.thy ===== *)
theory OsClip
  imports Pending Payload
begin

text \<open>
  \<open>internal/osclip/manager.go\<close>: applying remote payloads to the native clipboard, filtering
  the native watcher's events through the ledger, coalescing them and turning them into
  payloads.

  Parameters stand for code outside the repository: \<open>url_parse\<close> for the view the program
  takes of \<open>url.Parse\<close> (scheme and host, or an error), \<open>jpeg_decode\<close> and \<open>png_encode\<close> for the
  image codecs, and the clipboard backend, whose \<open>Write\<close> acts on a native clipboard of type
  \<open>'os\<close>. A context is represented by the error its \<open>Err\<close> method returns.
\<close>

section \<open>Formats, events and errors\<close>

datatype clipFormat = FmtText | FmtImage

record observedEvent =
  oe_bucket :: formatBucket
  oe_data :: bytes

record parsedURL =
  url_Scheme :: string
  url_Host :: string

datatype clip_error =
    CtxErr string
  | WireErr wire_error
  | ErrDecodeJPEG string
  | ErrEncodePNG string
  | ErrWriteClipboard string

definition defaultEventBuffer :: int where "defaultEventBuffer = 16"
definition defaultCoalesceWindow :: duration where "defaultCoalesceWindow = 50 * millisecond"
definition defaultPendingTTL :: duration where "defaultPendingTTL = 5 * second"

text \<open>The native backend turns a nil channel from \<open>clipboard.Write\<close> into an error.\<close>

definition nativeWrite ::
    "(clipFormat \<Rightarrow> bytes \<Rightarrow> 'os \<Rightarrow> bool \<times> 'os) \<Rightarrow> clipFormat \<Rightarrow> bytes \<Rightarrow> 'os
     \<Rightarrow> string option \<times> 'os" where
  "nativeWrite clipboard_write format data os =
     (let (changed, os) = clipboard_write format data os
      in (if \<not> changed then Some ''osclip: clipboard write failed'' else None, os))"

section \<open>Classification and normalisation\<close>

definition ascii_lower :: "char \<Rightarrow> char" where
  "ascii_lower c = (if byte_in 65 90 c then char_of (byte_val c + 32) else c)"

definition classifyTextPayload :: "(string \<Rightarrow> parsedURL option) \<Rightarrow> bytes \<Rightarrow> PayloadType" where
  "classifyTextPayload url_parse data =
     (let raw = data in
      if raw = '''' \<or> trim_space raw \<noteq> raw then PAYLOAD_TYPE_TEXT
      else case url_parse raw of
             None \<Rightarrow> PAYLOAD_TYPE_TEXT
           | Some parsed \<Rightarrow>
               if url_Scheme parsed = '''' \<or> url_Host parsed = '''' then PAYLOAD_TYPE_TEXT
               else if map ascii_lower (url_Scheme parsed) \<in> {''http'', ''https''}
                 then PAYLOAD_TYPE_URL
               else PAYLOAD_TYPE_TEXT)"

definition buildTextPayload ::
    "(string \<Rightarrow> parsedURL option) \<Rightarrow> time \<Rightarrow> bytes \<Rightarrow> wire_error + ClipboardPayload" where
  "buildTextPayload url_parse ts data = NewPayload ts (classifyTextPayload url_parse data) data ''''"

definition normalizeImageBytes ::
    "(bytes \<Rightarrow> string + 'img) \<Rightarrow> ('img \<Rightarrow> string + bytes) \<Rightarrow> bytes \<Rightarrow> string
     \<Rightarrow> clip_error + bytes" where
  "normalizeImageBytes jpeg_decode png_encode data mimeType =
     (if mimeType = ''image/png'' then Inr data
      else if mimeType = ''image/jpeg'' then
        (case jpeg_decode data of
           Inl e \<Rightarrow> Inl (ErrDecodeJPEG e)
         | Inr img \<Rightarrow>
             (case png_encode img of
                Inl e \<Rightarrow> Inl (ErrEncodePNG e)
              | Inr out \<Rightarrow> Inr out))
      else Inl (WireErr ErrInvalidImageMIME))"

definition normalizeWritePayload ::
    "(bytes \<Rightarrow> string + 'img) \<Rightarrow> ('img \<Rightarrow> string + bytes) \<Rightarrow> ClipboardPayload option
     \<Rightarrow> clip_error + (clipFormat \<times> formatBucket \<times> bytes)" where
  "normalizeWritePayload jpeg_decode png_encode payload =
     (if GetType payload = PAYLOAD_TYPE_TEXT \<or> GetType payload = PAYLOAD_TYPE_URL then
        Inr (FmtText, textBucket, GetData payload)
      else if GetType payload = PAYLOAD_TYPE_IMAGE then
        (case normalizeImageBytes jpeg_decode png_encode (GetData payload) (GetMimeType payload) of
           Inl e \<Rightarrow> Inl e
         | Inr data \<Rightarrow> Inr (FmtImage, imageBucket, data))
      else Inl (WireErr ErrInvalidPayloadType))"

section \<open>The manager: applying remote payloads, receiving watcher events\<close>

text \<open>
  The part of the manager's state that these two operations share is the ledger; the channels
  and goroutines are in the step relation below. \<open>apply_os\<close> is the native clipboard.
\<close>

definition ApplyRemote ::
    "(bytes \<Rightarrow> string + 'img) \<Rightarrow> ('img \<Rightarrow> string + bytes)
     \<Rightarrow> (clipFormat \<Rightarrow> bytes \<Rightarrow> 'os \<Rightarrow> string option \<times> 'os)
     \<Rightarrow> string option \<Rightarrow> time \<Rightarrow> pendingLedger \<Rightarrow> 'os \<Rightarrow> ClipboardPayload option
     \<Rightarrow> pendingLedger \<times> 'os \<times> clip_error option" where
  "ApplyRemote jpeg_decode png_encode backend_write ctx_err now pending os payload =
     (case ctx_err of
        Some e \<Rightarrow> (pending, os, Some (CtxErr e))
      | None \<Rightarrow>
     (case ValidatePayload payload of
        Some e \<Rightarrow> (pending, os, Some (WireErr e))
      | None \<Rightarrow>
     (case normalizeWritePayload jpeg_decode png_encode payload of
        Inl e \<Rightarrow> (pending, os, Some e)
      | Inr (format, bucket, data) \<Rightarrow>
          let hash = ComputeContentSHA256 data;
              pending = remember pending bucket hash now
          in case backend_write format data os of
               (Some e, os) \<Rightarrow> (forget pending bucket hash, os, Some (ErrWriteClipboard e))
             | (None, os) \<Rightarrow> (pending, os, None))))"

text \<open>
  One delivery of the native watcher: \<^const>\<open>None\<close> data is skipped, an echo is swallowed, and
  anything else becomes an observed event.
\<close>

definition watch_receive ::
    "formatBucket \<Rightarrow> time \<Rightarrow> pendingLedger \<Rightarrow> bytes option \<Rightarrow> pendingLedger \<times> observedEvent option" where
  "watch_receive bucket now pending data =
     (case data of
        None \<Rightarrow> (pending, None)
      | Some data \<Rightarrow>
          let hash = ComputeContentSHA256 data in
          case consume pending bucket hash now of
            (True, pending) \<Rightarrow> (pending, None)
          | (False, pending) \<Rightarrow> (pending, Some \<lparr>oe_bucket = bucket, oe_data = data\<rparr>))"

section \<open>Coalescing\<close>

type_synonym batch = "(formatBucket, observedEvent) fmap"

definition batch_put :: "batch \<Rightarrow> observedEvent \<Rightarrow> batch" where
  "batch_put batch evt = fmupd (oe_bucket evt) evt batch"

text \<open>What is emitted when the window closes: the text event, then the image event.\<close>

definition batch_events :: "batch \<Rightarrow> observedEvent list" where
  "batch_events batch =
     (case fmlookup batch textBucket of Some event \<Rightarrow> [event] | None \<Rightarrow> [])
     @ (case fmlookup batch imageBucket of Some event \<Rightarrow> [event] | None \<Rightarrow> [])"

definition event_payload ::
    "(string \<Rightarrow> parsedURL option) \<Rightarrow> time \<Rightarrow> observedEvent \<Rightarrow> wire_error + ClipboardPayload" where
  "event_payload url_parse now event =
     (case oe_bucket event of
        textBucket \<Rightarrow> buildTextPayload url_parse now (oe_data event)
      | imageBucket \<Rightarrow> NewPayload now PAYLOAD_TYPE_IMAGE (oe_data event) ''image/png'')"

section \<open>Facts about the pieces\<close>

lemma classify_cases:
  "classifyTextPayload url_parse data = PAYLOAD_TYPE_TEXT
   \<or> classifyTextPayload url_parse data = PAYLOAD_TYPE_URL"
  by (auto simp: classifyTextPayload_def Let_def split: option.split)

lemma normalizeWritePayload_valid:
  assumes "ValidatePayload (Some p) = None"
  shows "normalizeWritePayload jd pe (Some p) \<noteq> Inl (WireErr e)"
  using assms
  by (auto simp: ValidatePayload_valid valid_payload_def normalizeWritePayload_def payload_types
      normalizeImageBytes_def allowedImageMIMETypes_def split: sum.splits if_splits)

lemma normalizeWritePayload_bucket:
  "normalizeWritePayload jd pe p = Inr (f, b, d) \<Longrightarrow> f = FmtText \<longleftrightarrow> b = textBucket"
  by (auto simp: normalizeWritePayload_def split: sum.splits if_splits)

lemma batch_put_lookup [simp]:
  "fmlookup (batch_put m e) b = (if b = oe_bucket e then Some e else fmlookup m b)"
  by (auto simp: batch_put_def)

text \<open>A batch files every event under its own bucket.\<close>

definition batch_inv :: "batch \<Rightarrow> bool" where
  "batch_inv m \<longleftrightarrow> m \<noteq> fmempty \<and> (\<forall>b e. fmlookup m b = Some e \<longrightarrow> oe_bucket e = b)"

lemma batch_inv_put [inv_intros]:
  "m = fmempty \<or> batch_inv m \<Longrightarrow> batch_inv (batch_put m e)"
proof -
  assume m: "m = fmempty \<or> batch_inv m"
  have "batch_put m e \<noteq> fmempty"
    by (metis batch_put_lookup fmempty_lookup option.distinct(1))
  then show ?thesis using m by (auto simp: batch_inv_def)
qed

lemma batch_events_sorted:
  "batch_inv m \<Longrightarrow> sorted_wrt (<) (map oe_bucket (batch_events m))"
  by (auto simp: batch_events_def batch_inv_def split: option.split)

lemma batch_events_nonempty: "batch_inv m \<Longrightarrow> batch_events m \<noteq> []"
proof -
  assume m: "batch_inv m"
  then obtain b e where "fmlookup m b = Some e"
    unfolding batch_inv_def by (metis fmap_ext fmempty_lookup not_None_eq)
  then show ?thesis by (cases b) (auto simp: batch_events_def split: option.splits)
qed

lemma set_batch_events: "set (batch_events m) = {e. \<exists>b. fmlookup m b = Some e}"
proof -
  have "UNIV = {textBucket, imageBucket}" by (auto intro: formatBucket.exhaust)
  then have "(\<exists>b. fmlookup m b = Some e) \<longleftrightarrow>
      fmlookup m textBucket = Some e \<or> fmlookup m imageBucket = Some e" for e
    by (metis formatBucket.exhaust)
  then show ?thesis by (auto simp: batch_events_def split: option.splits)
qed

text \<open>Collecting a run of events keeps the last one of each bucket.\<close>

lemma batch_collect_lookup:
  "fmlookup (fold (\<lambda>e m. batch_put m e) es m) b =
     (case filter (\<lambda>e. oe_bucket e = b) es of
        [] \<Rightarrow> fmlookup m b
      | _ \<Rightarrow> Some (last (filter (\<lambda>e. oe_bucket e = b) es)))"
  by (induction es arbitrary: m) (auto split: list.split)

lemma event_payload_valid: "event_payload url_parse now e = Inr p \<Longrightarrow> valid_payload p"
  by (auto simp: event_payload_def buildTextPayload_def split: formatBucket.splits
      dest: NewPayload_valid)

lemma event_payload_data: "event_payload url_parse now e = Inr p \<Longrightarrow> cp_Data p = oe_data e"
  by (auto simp: event_payload_def buildTextPayload_def NewPayload_def Let_def
      split: formatBucket.splits if_splits option.splits)

end
