(* ===== verification/OsClipSystem.thy ===== *)
theory OsClipSystem
  imports OsClip
begin

text \<open>
  The goroutines of \<open>internal/osclip/manager.go\<close> as a step relation: the two watcher loops
  (\<open>watchLoop\<close>), the processor (\<open>processObserved\<close>, \<open>emit\<close>) and any number of concurrent
  \<open>ApplyRemote\<close> calls, over the two buffered channels \<open>observed\<close> and \<open>events\<close>. Every rule is
  one atomic action: a channel operation, a ledger operation (under its mutex) or a native
  write. The scheduler, the native clipboard and the clock decide which rule fires next.
\<close>

section \<open>State\<close>

text \<open>Where a watcher loop is: not running, at its receive, or at its send on \<open>observed\<close>.\<close>

datatype watcher = WatchOff | WatchReceiving | WatchSending observedEvent

text \<open>
  Where the processor is: not running, waiting for a first event, collecting until a deadline,
  emitting the events of a closed batch, or blocked in \<open>emit\<close> with a payload.
\<close>

datatype processor =
    ProcOff
  | ProcWaiting
  | ProcCollecting time batch
  | ProcEmitting "observedEvent list"
  | ProcOffering ClipboardPayload "observedEvent list"

text \<open>Where a running \<open>ApplyRemote\<close> call is: before its native write, or after a failed one.\<close>

datatype applying =
    BeforeWrite clipFormat formatBucket bytes
  | WriteFailed formatBucket bytes

record ('img, 'os) clip_deps =
  cd_url_parse :: "string \<Rightarrow> parsedURL option"
  cd_jpeg_decode :: "bytes \<Rightarrow> string + 'img"
  cd_png_encode :: "'img \<Rightarrow> string + bytes"
  cd_write :: "clipFormat \<Rightarrow> bytes \<Rightarrow> 'os \<Rightarrow> string option \<times> 'os"

record 'os clip_sys =
  cl_eventsCap :: nat
  cl_observedCap :: nat
  cl_now :: time
  cl_os :: 'os
  cl_started :: bool
  cl_pending :: pendingLedger
  cl_applying :: "applying list"
  cl_watch :: "formatBucket \<Rightarrow> watcher"
  cl_observed :: "observedEvent list"
  cl_proc :: processor
  cl_events :: "ClipboardPayload list"
  cl_closed :: bool

definition newManagerWithBackend :: "int \<Rightarrow> time \<Rightarrow> 'os \<Rightarrow> 'os clip_sys" where
  "newManagerWithBackend eventBuffer now os =
     (let eventBuffer = (if eventBuffer \<le> 0 then defaultEventBuffer else eventBuffer) in
      \<lparr>cl_eventsCap = nat eventBuffer, cl_observedCap = nat (eventBuffer * 2),
       cl_now = now, cl_os = os, cl_started = False,
       cl_pending = newPendingLedger defaultPendingTTL,
       cl_applying = [], cl_watch = (\<lambda>_. WatchOff), cl_observed = [], cl_proc = ProcOff,
       cl_events = [], cl_closed = False\<rparr>)"

section \<open>Steps\<close>

inductive clip_step :: "('img, 'os) clip_deps \<Rightarrow> 'os clip_sys \<Rightarrow> 'os clip_sys \<Rightarrow> bool"
  for D :: "('img, 'os) clip_deps" where
  tick: "cl_now s \<le> t \<Longrightarrow> clip_step D s (s\<lparr>cl_now := t\<rparr>)"
| start: "\<not> cl_started s \<Longrightarrow>
    clip_step D s (s\<lparr>cl_started := True, cl_watch := (\<lambda>_. WatchReceiving), cl_proc := ProcWaiting\<rparr>)"
| apply_begin: "ValidatePayload (Some p) = None \<Longrightarrow>
    normalizeWritePayload (cd_jpeg_decode D) (cd_png_encode D) (Some p) = Inr (f, b, d) \<Longrightarrow>
    clip_step D s
      (s\<lparr>cl_pending := remember (cl_pending s) b (ComputeContentSHA256 d) (cl_now s),
         cl_applying := BeforeWrite f b d # cl_applying s\<rparr>)"
| apply_written: "cl_applying s = xs @ BeforeWrite f b d # ys \<Longrightarrow>
    cd_write D f d (cl_os s) = (None, os') \<Longrightarrow>
    clip_step D s (s\<lparr>cl_os := os', cl_applying := xs @ ys\<rparr>)"
| apply_failed: "cl_applying s = xs @ BeforeWrite f b d # ys \<Longrightarrow>
    cd_write D f d (cl_os s) = (Some e, os') \<Longrightarrow>
    clip_step D s (s\<lparr>cl_os := os', cl_applying := xs @ WriteFailed b d # ys\<rparr>)"
| apply_forget: "cl_applying s = xs @ WriteFailed b d # ys \<Longrightarrow>
    clip_step D s
      (s\<lparr>cl_pending := forget (cl_pending s) b (ComputeContentSHA256 d), cl_applying := xs @ ys\<rparr>)"
| watch_skip: "cl_watch s b = WatchReceiving \<Longrightarrow>
    watch_receive b (cl_now s) (cl_pending s) data = (pending, None) \<Longrightarrow>
    clip_step D s (s\<lparr>cl_pending := pending\<rparr>)"
| watch_observe: "cl_watch s b = WatchReceiving \<Longrightarrow>
    watch_receive b (cl_now s) (cl_pending s) data = (pending, Some evt) \<Longrightarrow>
    clip_step D s (s\<lparr>cl_pending := pending, cl_watch := (cl_watch s)(b := WatchSending evt)\<rparr>)"
| watch_send: "cl_watch s b = WatchSending evt \<Longrightarrow> length (cl_observed s) < cl_observedCap s \<Longrightarrow>
    clip_step D s
      (s\<lparr>cl_observed := cl_observed s @ [evt], cl_watch := (cl_watch s)(b := WatchReceiving)\<rparr>)"
| watch_stop: "clip_step D s (s\<lparr>cl_watch := (cl_watch s)(b := WatchOff)\<rparr>)"
| proc_first: "cl_proc s = ProcWaiting \<Longrightarrow> cl_observed s = first # rest \<Longrightarrow>
    clip_step D s
      (s\<lparr>cl_observed := rest,
         cl_proc := ProcCollecting (cl_now s + defaultCoalesceWindow) (batch_put fmempty first)\<rparr>)"
| proc_next: "cl_proc s = ProcCollecting t batch \<Longrightarrow> cl_observed s = evt # rest \<Longrightarrow>
    clip_step D s (s\<lparr>cl_observed := rest, cl_proc := ProcCollecting t (batch_put batch evt)\<rparr>)"
| proc_timer: "cl_proc s = ProcCollecting t batch \<Longrightarrow> t \<le> cl_now s \<Longrightarrow>
    clip_step D s (s\<lparr>cl_proc := ProcEmitting (batch_events batch)\<rparr>)"
| proc_drop: "cl_proc s = ProcEmitting (evt # evts) \<Longrightarrow>
    event_payload (cd_url_parse D) (cl_now s) evt = Inl e \<Longrightarrow>
    clip_step D s (s\<lparr>cl_proc := ProcEmitting evts\<rparr>)"
| proc_offer: "cl_proc s = ProcEmitting (evt # evts) \<Longrightarrow>
    event_payload (cd_url_parse D) (cl_now s) evt = Inr p \<Longrightarrow>
    clip_step D s (s\<lparr>cl_proc := ProcOffering p evts\<rparr>)"
| proc_emit: "cl_proc s = ProcOffering p evts \<Longrightarrow> length (cl_events s) < cl_eventsCap s \<Longrightarrow>
    clip_step D s (s\<lparr>cl_events := cl_events s @ [p], cl_proc := ProcEmitting evts\<rparr>)"
| proc_again: "cl_proc s = ProcEmitting [] \<Longrightarrow> clip_step D s (s\<lparr>cl_proc := ProcWaiting\<rparr>)"
| proc_stop: "cl_proc s = ProcWaiting \<or> (\<exists>t m. cl_proc s = ProcCollecting t m)
      \<or> (\<exists>p evts. cl_proc s = ProcOffering p evts) \<Longrightarrow>
    clip_step D s (s\<lparr>cl_proc := ProcOff, cl_closed := True\<rparr>)"
| receive: "cl_events s = p # rest \<Longrightarrow> clip_step D s (s\<lparr>cl_events := rest\<rparr>)"

inductive_cases clip_stepE: "clip_step D s s'"

inductive clip_reachable :: "('img, 'os) clip_deps \<Rightarrow> 'os clip_sys \<Rightarrow> 'os clip_sys \<Rightarrow> bool"
  for D :: "('img, 'os) clip_deps" and s0 :: "'os clip_sys" where
  init: "clip_reachable D s0 s0"
| step: "clip_reachable D s0 s \<Longrightarrow> clip_step D s s' \<Longrightarrow> clip_reachable D s0 s'"

section \<open>Invariant\<close>

text \<open>
  The processor's local data: every event it holds is filed under its bucket, what it is about
  to emit is in bucket order, and a payload it offers is valid.
\<close>

fun proc_inv :: "processor \<Rightarrow> bool" where
  "proc_inv (ProcCollecting t m) \<longleftrightarrow> batch_inv m"
| "proc_inv (ProcEmitting evts) \<longleftrightarrow> sorted_wrt (<) (map oe_bucket evts)"
| "proc_inv (ProcOffering p evts) \<longleftrightarrow> valid_payload p \<and> sorted_wrt (<) (map oe_bucket evts)"
| "proc_inv _ \<longleftrightarrow> True"

definition clip_inv :: "'os clip_sys \<Rightarrow> bool" where
  "clip_inv s \<longleftrightarrow>
     0 < cl_eventsCap s
     \<and> length (cl_observed s) \<le> cl_observedCap s
     \<and> length (cl_events s) \<le> cl_eventsCap s
     \<and> (\<forall>p \<in> set (cl_events s). valid_payload p)
     \<and> ledger_inv (cl_pending s)
     \<and> proc_inv (cl_proc s)
     \<and> (\<forall>b evt. cl_watch s b = WatchSending evt \<longrightarrow> oe_bucket evt = b)
     \<and> (cl_closed s \<longrightarrow> cl_proc s = ProcOff \<and> cl_started s)
     \<and> (\<not> cl_started s \<longrightarrow> cl_proc s = ProcOff)"

lemma clip_inv_init: "clip_inv (newManagerWithBackend n now os)"
  by (auto simp: clip_inv_def newManagerWithBackend_def Let_def defaultEventBuffer_def
      intro: inv_intros)

lemma remember_inv' [inv_intros]: "ledger_inv l \<Longrightarrow> ledger_inv (remember l b h now)"
  using remember_inv [of l "\<lparr>pk_bucket = b, pk_hash = h\<rparr>" now] by simp

lemma forget_inv' [inv_intros]: "ledger_inv l \<Longrightarrow> ledger_inv (forget l b h)"
  using forget_inv [of l "\<lparr>pk_bucket = b, pk_hash = h\<rparr>"] by simp

lemma consume_inv' [inv_intros]: "ledger_inv l \<Longrightarrow> ledger_inv (snd (consume l b h now))"
  using consume_inv [of l "\<lparr>pk_bucket = b, pk_hash = h\<rparr>" now] by simp

lemma watch_receive_inv [inv_intros]:
  "ledger_inv l \<Longrightarrow> ledger_inv (fst (watch_receive b now l data))"
  using consume_inv' [of l b _ now]
  by (auto simp: watch_receive_def Let_def split: option.split prod.split bool.split)
    (metis snd_conv)+

lemma watch_receive_bucket:
  "watch_receive b now l data = (l', Some evt) \<Longrightarrow> oe_bucket evt = b"
  by (auto simp: watch_receive_def Let_def split: option.splits prod.splits bool.splits)

lemma watch_receive_inv' [inv_intros]:
  "watch_receive b now l data = (l', x) \<Longrightarrow> ledger_inv l \<Longrightarrow> ledger_inv l'"
  using watch_receive_inv [of l b now data] by simp

lemma clip_step_inv: "clip_step D s s' \<Longrightarrow> clip_inv s \<Longrightarrow> clip_inv s'"
proof (induction rule: clip_step.induct)
  case (proc_timer s t batch)
  then show ?case by (auto simp: clip_inv_def batch_events_sorted)
next
  case (proc_offer s evt evts p)
  then show ?case by (auto simp: clip_inv_def event_payload_valid)
next
  case (proc_first s first rest)
  then show ?case by (auto simp: clip_inv_def intro: inv_intros)
next
  case (proc_next s t batch evt rest)
  then show ?case by (auto simp: clip_inv_def intro: inv_intros)
next
  case (watch_observe s b data pending evt)
  then show ?case
    using watch_receive_bucket [OF watch_observe(2)] watch_receive_inv' [OF watch_observe(2)]
    by (auto simp: clip_inv_def)
next
  case (watch_skip s b data pending)
  then show ?case using watch_receive_inv' [OF watch_skip(2)] by (auto simp: clip_inv_def)
qed (auto simp: clip_inv_def intro: inv_intros)

lemma clip_reachable_inv: "clip_reachable D s0 s \<Longrightarrow> clip_inv s0 \<Longrightarrow> clip_inv s"
  by (induction rule: clip_reachable.induct) (auto intro: clip_step_inv)

end
