(* ===== verification/Discovery.thy ===== *)
theory Discovery
  imports Prelude "HOL-Library.Product_Lexorder"
begin

text \<open>
  The pure part of \<open>internal/netmesh/discovery.go\<close>: the TXT records that a node advertises and
  parses, the normalisation of advertised addresses, the conversion of an mDNS service entry
  into a peer, and the jitter of retry delays; with the parts of \<open>net\<close> and \<open>strconv\<close> they use
  (\<open>IP.String\<close>, \<open>IP.To4\<close>, \<open>IP.IsUnspecified\<close>, \<open>Itoa\<close>, \<open>JoinHostPort\<close>).
\<close>

section \<open>Numbers and addresses as text\<close>

text \<open>\<open>digits b n\<close>: the digits of \<open>n\<close> in base \<open>b\<close>, lower case, without leading zeros.\<close>

definition digit_char :: "nat \<Rightarrow> char" where
  "digit_char d = (if d < 10 then char_of (48 + d) else char_of (87 + d))"

function digits :: "nat \<Rightarrow> nat \<Rightarrow> string" where
  "digits b n =
     (if b < 2 \<or> n < b then [digit_char n] else digits b (n div b) @ [digit_char (n mod b)])"
  by pat_completeness auto
termination
  by (relation "measure snd") auto

declare digits.simps [simp del]

definition itoa :: "int \<Rightarrow> string" where
  "itoa i = (if i < 0 then ''-'' @ digits 10 (nat (- i)) else digits 10 (nat i))"

definition joinHostPort :: "string \<Rightarrow> string \<Rightarrow> string" where
  "joinHostPort host port =
     (if CHR '':'' \<in> set host then ''['' @ host @ '']:'' @ port else host @ '':'' @ port)"

text \<open>A \<open>net.IP\<close> is its bytes; a nil address is \<^const>\<open>None\<close>.\<close>

definition v4InV6Prefix :: bytes where
  "v4InV6Prefix = replicate 10 (CHR 0x00) @ replicate 2 (CHR 0xFF)"

definition ip_To4 :: "bytes \<Rightarrow> bytes option" where
  "ip_To4 ip =
     (if length ip = 4 then Some ip
      else if length ip = 16 \<and> take 12 ip = v4InV6Prefix then Some (drop 12 ip)
      else None)"

definition ip_IsUnspecified :: "bytes \<Rightarrow> bool" where
  "ip_IsUnspecified ip \<longleftrightarrow>
     ip_To4 ip = Some (replicate 4 (CHR 0x00)) \<or> ip = replicate 16 (CHR 0x00)"

definition ip4_string :: "bytes \<Rightarrow> string" where
  "ip4_string ip = concat (map (\<lambda>i. (if i = 0 then [] else ''.'') @ digits 10 (of_char (ip ! i))) [0..<4])"

text \<open>The eight 16-bit groups of an IPv6 address, and its longest run of at least two zeros.\<close>

definition ip6_groups :: "bytes \<Rightarrow> nat list" where
  "ip6_groups ip = map (\<lambda>i. of_char (ip ! (2 * i)) * 256 + of_char (ip ! (2 * i + 1))) [0..<8]"

definition zero_run :: "nat list \<Rightarrow> nat \<Rightarrow> nat" where
  "zero_run gs i = length (takeWhile (\<lambda>g. g = 0) (drop i gs))"

definition longest_zero_run :: "nat list \<Rightarrow> (nat \<times> nat) option" where
  "longest_zero_run gs =
     fold (\<lambda>i best.
        let l = zero_run gs i in
        if l \<ge> 2 \<and> (case best of None \<Rightarrow> True | Some (s, e) \<Rightarrow> l > e - s) then Some (i, i + l) else best)
       [0..<length gs] None"

function ip6_loop :: "nat list \<Rightarrow> (nat \<times> nat) option \<Rightarrow> nat \<Rightarrow> string" where
  "ip6_loop gs z i =
     (if i \<ge> length gs then []
      else case z of
        Some (s, e) \<Rightarrow>
          if i = s then
            ''::'' @ (if e \<ge> length gs \<or> e \<le> i then []
                      else digits 16 (gs ! e) @ ip6_loop gs z (Suc e))
          else (if i > 0 then '':'' else []) @ digits 16 (gs ! i) @ ip6_loop gs z (Suc i)
      | None \<Rightarrow> (if i > 0 then '':'' else []) @ digits 16 (gs ! i) @ ip6_loop gs z (Suc i))"
  by pat_completeness auto
termination
  by (relation "measure (\<lambda>(gs, z, i). length gs - i)") auto

declare ip6_loop.simps [simp del]

definition ip_string :: "bytes \<Rightarrow> string" where
  "ip_string ip =
     (if length ip = 0 then ''<nil>''
      else if length ip \<noteq> 4 \<and> length ip \<noteq> 16 then
        ''?'' @ concat (map (\<lambda>c. [digit_char (of_char c div 16), digit_char (of_char c mod 16)]) ip)
      else case ip_To4 ip of
             Some ip4 \<Rightarrow> ip4_string ip4
           | None \<Rightarrow> (let gs = ip6_groups ip in ip6_loop gs (longest_zero_run gs) 0))"

section \<open>Peers and service entries\<close>

record Peer =
  peer_ID :: string
  peer_Name :: string
  peer_Host :: string
  peer_Port :: int
  peer_Addresses :: "bytes list"
  peer_Connected :: bool
  peer_LastSeen :: time

definition zero_Peer :: Peer where
  "zero_Peer = \<lparr>peer_ID = '''', peer_Name = '''', peer_Host = '''', peer_Port = 0,
                peer_Addresses = [], peer_Connected = False, peer_LastSeen = 0\<rparr>"

text \<open>The fields of zeroconf's \<open>ServiceEntry\<close> that the program reads.\<close>

record ServiceEntry =
  se_Instance :: string
  se_HostName :: string
  se_Port :: int
  se_Text :: "string list"
  se_AddrIPv4 :: "bytes option list"
  se_AddrIPv6 :: "bytes option list"

record serviceMetadata =
  sm_id :: string
  sm_name :: string
  sm_wsPath :: string
  sm_proto :: string

datatype disc_error =
    ErrNilEntry
  | ErrInvalidTXT string
  | ErrMissingID
  | ErrMissingName
  | ErrMissingWSPath
  | ErrUnsupportedProto string
  | ErrMissingPort
  | ErrMissingAddresses

definition protocolVersion :: string where
  "protocolVersion = ''v1''"

section \<open>TXT records\<close>

definition discoveryText :: "string \<Rightarrow> string \<Rightarrow> string \<Rightarrow> string list" where
  "discoveryText nodeID name wsPath =
     [''id='' @ nodeID, ''name='' @ name, ''ws_path='' @ wsPath, ''proto='' @ protocolVersion]"

text \<open>The loop over the entries, which later entries of the same key override.\<close>

fun txt_values :: "string list \<Rightarrow> (string, string) fmap \<Rightarrow> disc_error + (string, string) fmap" where
  "txt_values [] values = Inr values"
| "txt_values (entry # text) values =
     (case strings_cut (CHR ''='') entry of
        None \<Rightarrow> Inl (ErrInvalidTXT entry)
      | Some (key, value) \<Rightarrow>
          if key = '''' then Inl (ErrInvalidTXT entry)
          else txt_values text (fmupd key value values))"

text \<open>Indexing a map of strings yields the empty string for a missing key.\<close>

definition txt_get :: "(string, string) fmap \<Rightarrow> string \<Rightarrow> string" where
  "txt_get values key = (case fmlookup values key of Some v \<Rightarrow> v | None \<Rightarrow> '''')"

definition parseTXT :: "string list \<Rightarrow> disc_error + serviceMetadata" where
  "parseTXT text =
     (case txt_values text fmempty of
        Inl e \<Rightarrow> Inl e
      | Inr values \<Rightarrow>
          let meta = \<lparr>sm_id = trim_space (txt_get values ''id''),
                      sm_name = trim_space (txt_get values ''name''),
                      sm_wsPath = trim_space (txt_get values ''ws_path''),
                      sm_proto = trim_space (txt_get values ''proto'')\<rparr>
          in if sm_id meta = '''' then Inl ErrMissingID
             else if sm_name meta = '''' then Inl ErrMissingName
             else if sm_wsPath meta = '''' \<or> \<not> has_prefix ''/'' (sm_wsPath meta)
               then Inl ErrMissingWSPath
             else if sm_proto meta \<noteq> protocolVersion then Inl (ErrUnsupportedProto (sm_proto meta))
             else Inr meta)"

section \<open>Addresses\<close>

text \<open>The collecting loops: nil, unspecified and repeated addresses are dropped.\<close>

fun collect_ips :: "string set \<Rightarrow> bytes option list \<Rightarrow> bytes list" where
  "collect_ips seen [] = []"
| "collect_ips seen (None # ips) = collect_ips seen ips"
| "collect_ips seen (Some ip # ips) =
     (if ip_IsUnspecified ip then collect_ips seen ips
      else let key = ip_string ip in
           if key \<in> seen then collect_ips seen ips
           else ip # collect_ips (insert key seen) ips)"

text \<open>IPv4 before IPv6, then by text: \<open>sort.Slice\<close> with this comparison.\<close>

definition ip_sort_key :: "bytes \<Rightarrow> bool \<times> string" where
  "ip_sort_key ip = (ip_To4 ip = None, ip_string ip)"

definition normalizeIPs :: "bytes option list list \<Rightarrow> bytes list" where
  "normalizeIPs groups = sort_key ip_sort_key (collect_ips {} (concat groups))"

definition copyIPs :: "bytes list \<Rightarrow> bytes list" where
  "copyIPs src = (if length src = 0 then [] else map (\<lambda>ip. ip) src)"

lemma copyIPs_id [simp]: "copyIPs src = src"
  by (simp add: copyIPs_def)

definition peerFromEntry ::
    "time \<Rightarrow> ServiceEntry option \<Rightarrow> disc_error + Peer \<times> serviceMetadata" where
  "peerFromEntry now entry =
     (case entry of
        None \<Rightarrow> Inl ErrNilEntry
      | Some entry \<Rightarrow>
     (case parseTXT (se_Text entry) of
        Inl e \<Rightarrow> Inl e
      | Inr meta \<Rightarrow>
          if se_Port entry = 0 then Inl ErrMissingPort
          else
            let addresses = normalizeIPs [se_AddrIPv4 entry, se_AddrIPv6 entry] in
            if length addresses = 0 then Inl ErrMissingAddresses
            else
              let host = trim_suffix (se_HostName entry) ''.'';
                  host = (if host = '''' then se_Instance entry else host)
              in Inr (\<lparr>peer_ID = sm_id meta, peer_Name = sm_name meta, peer_Host = host,
                       peer_Port = se_Port entry, peer_Addresses = addresses,
                       peer_Connected = False, peer_LastSeen = now\<rparr>, meta)))"

section \<open>Names and delays\<close>

definition instanceName :: "string \<Rightarrow> string" where
  "instanceName nodeID =
     (let shortID = (if length nodeID > 12 then take 12 nodeID else nodeID)
      in ''clippy-'' @ shortID)"

text \<open>\<open>rnd\<close> is the value \<open>rand.Int63n(half)\<close> returned: some number from 0 to \<open>half - 1\<close>.\<close>

definition withJitter :: "duration \<Rightarrow> duration \<Rightarrow> duration" where
  "withJitter base rnd =
     (if base \<le> 0 then 0
      else let half = go_div base 2 in if half = 0 then base else half + rnd)"

section \<open>Facts about addresses\<close>

lemma collect_ips_set:
  "ip \<in> set (collect_ips seen xs) \<Longrightarrow>
     Some ip \<in> set xs \<and> \<not> ip_IsUnspecified ip \<and> ip_string ip \<notin> seen"
  by (induction seen xs rule: collect_ips.induct) (auto simp: Let_def split: if_splits)

lemma collect_ips_complete:
  "Some ip \<in> set xs \<Longrightarrow> \<not> ip_IsUnspecified ip \<Longrightarrow> ip_string ip \<notin> seen \<Longrightarrow>
     ip_string ip \<in> ip_string ` set (collect_ips seen xs)"
proof (induction seen xs rule: collect_ips.induct)
  case (3 seen ip' ips)
  show ?case
  proof (cases "ip_string ip = ip_string ip'")
    case True
    with 3 show ?thesis by (cases "ip_IsUnspecified ip'") (auto simp: Let_def)
  next
    case False
    with 3 show ?thesis by (auto simp: Let_def)
  qed
qed auto

lemma collect_ips_distinct: "distinct (map ip_string (collect_ips seen xs))"
  by (induction seen xs rule: collect_ips.induct) (auto simp: Let_def dest: collect_ips_set)

lemma normalizeIPs_set:
  "ip \<in> set (normalizeIPs groups) \<Longrightarrow> Some ip \<in> set (concat groups) \<and> \<not> ip_IsUnspecified ip"
  using collect_ips_set unfolding normalizeIPs_def set_sort by blast

lemma normalizeIPs_complete:
  "Some ip \<in> set (concat groups) \<Longrightarrow> \<not> ip_IsUnspecified ip \<Longrightarrow>
     ip_string ip \<in> ip_string ` set (normalizeIPs groups)"
  using collect_ips_complete unfolding normalizeIPs_def set_sort by blast

lemma normalizeIPs_distinct: "distinct (map ip_string (normalizeIPs groups))"
proof -
  have "mset (map ip_string (normalizeIPs groups)) = mset (map ip_string (collect_ips {} (concat groups)))"
    by (simp add: normalizeIPs_def)
  then show ?thesis using collect_ips_distinct mset_eq_imp_distinct_iff by blast
qed

lemma normalizeIPs_strict: "sorted_wrt (<) (map ip_sort_key (normalizeIPs groups))"
proof -
  have "distinct (map (snd \<circ> ip_sort_key) (normalizeIPs groups))"
    using normalizeIPs_distinct [of groups] by (simp add: ip_sort_key_def comp_def)
  then have "distinct (map ip_sort_key (normalizeIPs groups))"
    by (metis distinct_map map_map)
  then show ?thesis
    unfolding strict_sorted_iff by (simp add: normalizeIPs_def)
qed

section \<open>Facts about TXT records\<close>

lemma trim_space_proto [simp]: "trim_space protocolVersion = protocolVersion"
  by code_simp

lemma strings_cut_field:
  "CHR ''='' \<notin> set k \<Longrightarrow> strings_cut (CHR ''='') (k @ CHR ''='' # v) = Some (k, v)"
  by (rule strings_cut_append)

lemma txt_values_discoveryText:
  "txt_values (discoveryText nodeID name wsPath) fmempty =
     Inr (fmupd ''proto'' protocolVersion (fmupd ''ws_path'' wsPath
         (fmupd ''name'' name (fmupd ''id'' nodeID fmempty))))"
  using strings_cut_field [of "''id''" nodeID] strings_cut_field [of "''name''" name]
    strings_cut_field [of "''ws_path''" wsPath] strings_cut_field [of "''proto''" protocolVersion]
  by (simp add: discoveryText_def)

text \<open>What a peer reads from the record a node advertises, for any name and path.\<close>

lemma parseTXT_discoveryText:
  "parseTXT (discoveryText nodeID name wsPath) =
     (if trim_space nodeID = '''' then Inl ErrMissingID
      else if trim_space name = '''' then Inl ErrMissingName
      else if \<not> has_prefix ''/'' (trim_space wsPath) then Inl ErrMissingWSPath
      else Inr \<lparr>sm_id = trim_space nodeID, sm_name = trim_space name,
                sm_wsPath = trim_space wsPath, sm_proto = protocolVersion\<rparr>)"
  by (auto simp: parseTXT_def txt_values_discoveryText txt_get_def has_prefix_def Let_def)

definition good_metadata :: "serviceMetadata \<Rightarrow> bool" where
  "good_metadata m \<longleftrightarrow>
     sm_id m \<noteq> '''' \<and> sm_name m \<noteq> '''' \<and> has_prefix ''/'' (sm_wsPath m)
     \<and> sm_proto m = protocolVersion
     \<and> trim_space (sm_id m) = sm_id m \<and> trim_space (sm_name m) = sm_name m
     \<and> trim_space (sm_wsPath m) = sm_wsPath m"

lemma parseTXT_good: "parseTXT text = Inr m \<Longrightarrow> good_metadata m"
  by (auto simp: parseTXT_def good_metadata_def Let_def split: sum.splits if_splits)

lemma good_metadata_path: "good_metadata m \<Longrightarrow> sm_wsPath m \<noteq> ''''"
  by (auto simp: good_metadata_def has_prefix_def)

section \<open>Facts about service entries\<close>

lemma peerFromEntry_Inr:
  assumes "peerFromEntry now entry = Inr (p, m)"
  shows "good_metadata m" "peer_ID p = sm_id m" "peer_Name p = sm_name m" "peer_Port p \<noteq> 0"
    "peer_Addresses p \<noteq> []" "peer_LastSeen p = now" "\<not> peer_Connected p"
  using assms
  by (auto simp: peerFromEntry_def Let_def split: option.splits sum.splits if_splits
      dest: parseTXT_good)

section \<open>Jitter\<close>

lemma withJitter_bounds:
  assumes "0 < base" and "0 \<le> rnd" and "rnd < base div 2 \<or> base < 2"
  shows "base div 2 \<le> withJitter base rnd" and "withJitter base rnd \<le> base"
  using assms by (auto simp: withJitter_def Let_def go_div_nonneg)

end
