(* ===== verification/Connection.thy ===== *)
theory Connection
  imports Discovery
begin

text \<open>
  \<open>internal/netmesh/connection.go\<close> and the dialling policy of \<open>manager.go\<close>: which of two nodes
  dials, which direction of connection is preferred, the per-peer state with its retry backoff
  and its one-place reconnect signal, and the managed connection with its bounded send queue.
  A connection is identified by a number (the code compares pointers); its record is kept in
  the manager's table of connections.
\<close>

section \<open>Who dials\<close>

datatype connectionDirection = connectionDirectionInbound | connectionDirectionOutbound

text \<open>Go compares strings byte by byte, which is the lexicographic order on \<^typ>\<open>char list\<close>.\<close>

definition shouldDial :: "string \<Rightarrow> string \<Rightarrow> bool" where
  "shouldDial selfID peerID \<longleftrightarrow> selfID < peerID"

definition preferredDirection :: "string \<Rightarrow> string \<Rightarrow> connectionDirection" where
  "preferredDirection selfID peerID =
     (if shouldDial selfID peerID then connectionDirectionOutbound else connectionDirectionInbound)"

text \<open>The same physical connection, seen from its other end.\<close>

fun other_end :: "connectionDirection \<Rightarrow> connectionDirection" where
  "other_end connectionDirectionInbound = connectionDirectionOutbound"
| "other_end connectionDirectionOutbound = connectionDirectionInbound"

text \<open>
  The contract between two nodes: of two different nodes exactly one dials. What follows for
  the directions the two ends prefer needs nothing else.
\<close>

locale dial_policy =
  fixes dials :: "'id \<Rightarrow> 'id \<Rightarrow> bool"
    and prefers :: "'id \<Rightarrow> 'id \<Rightarrow> connectionDirection"
  assumes one_dials: "a \<noteq> b \<Longrightarrow> dials a b \<longleftrightarrow> \<not> dials b a"
    and not_self: "\<not> dials a a"
    and prefers_dialled: "prefers a b = connectionDirectionOutbound \<longleftrightarrow> dials a b"
begin

lemma same_connection_preferred: "a \<noteq> b \<Longrightarrow> prefers b a = other_end (prefers a b)"
  using one_dials [of a b] prefers_dialled [of a b] prefers_dialled [of b a]
  by (cases "prefers a b"; cases "prefers b a") auto

lemma never_both_dial: "dials a b \<Longrightarrow> \<not> dials b a"
  using one_dials not_self by metis

lemma dialler_prefers_outbound: "dials a b \<Longrightarrow> prefers b a = connectionDirectionInbound"
  using never_both_dial prefers_dialled by (metis connectionDirection.exhaust)

end

interpretation dial: dial_policy shouldDial preferredDirection
  by unfold_locales (auto simp: shouldDial_def preferredDirection_def)

section \<open>Peer state\<close>

record peerState =
  ps_id :: string
  ps_peer :: Peer
  ps_discovered :: bool
  ps_wsPath :: string
  ps_proto :: string
  ps_conn :: "nat option"
  ps_backoff :: duration
  ps_reconnectCh :: bool
  ps_dialLoopStarted :: bool

definition new_peerState :: "string \<Rightarrow> peerState" where
  "new_peerState peerID =
     \<lparr>ps_id = peerID, ps_peer = zero_Peer, ps_discovered = False, ps_wsPath = '''', ps_proto = '''',
      ps_conn = None, ps_backoff = 0, ps_reconnectCh = False, ps_dialLoopStarted = False\<rparr>"

definition peerCopyLocked :: "peerState \<Rightarrow> Peer" where
  "peerCopyLocked ps =
     (let snapshot = ps_peer ps
      in snapshot\<lparr>peer_ID := ps_id ps, peer_Addresses := copyIPs (peer_Addresses (ps_peer ps))\<rparr>)"

definition snapshot :: "peerState \<Rightarrow> Peer" where
  "snapshot ps = peerCopyLocked ps"

text \<open>A non-blocking send on a channel of capacity one: the signal is set, or already was.\<close>

definition triggerReconnect :: "peerState \<Rightarrow> peerState" where
  "triggerReconnect ps = (if ps_reconnectCh ps then ps else ps\<lparr>ps_reconnectCh := True\<rparr>)"

definition resetBackoff :: "peerState \<Rightarrow> peerState" where
  "resetBackoff ps = ps\<lparr>ps_backoff := 0\<rparr>"

definition bumpBackoff :: "duration \<Rightarrow> duration \<Rightarrow> peerState \<Rightarrow> peerState \<times> duration" where
  "bumpBackoff minimum maximum ps =
     (if ps_backoff ps \<le> 0 then (ps\<lparr>ps_backoff := minimum\<rparr>, minimum)
      else
        let backoff = wrap_int (ps_backoff ps * 2);
            backoff = (if backoff > maximum then maximum else backoff)
        in (ps\<lparr>ps_backoff := backoff\<rparr>, backoff))"

section \<open>Managed connections\<close>

record managedConn =
  mc_direction :: connectionDirection
  mc_peerID :: string
  mc_peerName :: string
  mc_cancelled :: bool
  mc_started :: bool
  mc_sendQ :: "bytes list"
  mc_sendCap :: nat
  mc_closed :: "string option"

text \<open>\<open>parentDone\<close> tells whether the parent context is already cancelled.\<close>

definition newManagedConn ::
    "bool \<Rightarrow> connectionDirection \<Rightarrow> string \<Rightarrow> string \<Rightarrow> int \<Rightarrow> managedConn" where
  "newManagedConn parentDone direction peerID peerName sendQueueSize =
     \<lparr>mc_direction = direction, mc_peerID = peerID, mc_peerName = peerName, mc_cancelled = parentDone,
      mc_started = False, mc_sendQ = [], mc_sendCap = nat sendQueueSize, mc_closed = None\<rparr>"

text \<open>\<open>closeOnce\<close>: the first call cancels the context and sends the close frame with its text.\<close>

definition close_conn :: "string \<Rightarrow> managedConn \<Rightarrow> managedConn" where
  "close_conn reason c =
     (case mc_closed c of
        Some _ \<Rightarrow> c
      | None \<Rightarrow> c\<lparr>mc_cancelled := True, mc_closed := Some reason\<rparr>)"

datatype mesh_error =
    ErrManagerStarted | ErrManagerNotStarted | ErrPeerNotFound | ErrPeerNotConnected
  | ErrSendQueueFull | ErrInvalidFrame | ErrNilHandler
  | ErrContext string | ErrListen string | ErrOptions string
  | ErrDial string | ErrJoined "(string \<times> mesh_error) list"

text \<open>
  The \<open>select\<close> of \<open>enqueue\<close>: the cases that are ready, in the order of the source; one of them
  is taken at random (\<open>pick\<close> stands for the random choice), the default only if none is.
\<close>

definition enqueue_ready ::
    "string option \<Rightarrow> managedConn \<Rightarrow> bytes \<Rightarrow> (mesh_error option \<times> managedConn) list" where
  "enqueue_ready ctx_err c frame =
     (case ctx_err of Some e \<Rightarrow> [(Some (ErrContext e), c)] | None \<Rightarrow> [])
     @ (if mc_cancelled c then [(Some ErrPeerNotConnected, c)] else [])
     @ (if length (mc_sendQ c) < mc_sendCap c
        then [(None, c\<lparr>mc_sendQ := mc_sendQ c @ [frame]\<rparr>)] else [])"

definition enqueue ::
    "nat \<Rightarrow> string option \<Rightarrow> managedConn \<Rightarrow> bytes \<Rightarrow> mesh_error option \<times> managedConn" where
  "enqueue pick ctx_err c frame =
     (let ready = enqueue_ready ctx_err c frame
      in if ready = [] then (Some ErrSendQueueFull, c) else ready ! (pick mod length ready))"

section \<open>The pumps\<close>

text \<open>
  What \<open>ReadMessage\<close> returns: a message with its type, or an error. The read loop hands every
  binary message to the handler, with the snapshot of the peer at that moment, and ends at the
  first error, the handler's included; the handler acts on a state of type \<open>'h\<close>.
\<close>

datatype ws_read = ReadErr string | BinaryMessage bytes | OtherMessage bytes

fun readPump ::
    "(Peer \<Rightarrow> bytes \<Rightarrow> 'h \<Rightarrow> string option \<times> 'h) \<Rightarrow> (Peer \<times> ws_read) list \<Rightarrow> 'h
     \<Rightarrow> 'h \<times> (Peer \<times> ws_read) list" where
  "readPump handle [] h = (h, [])"
| "readPump handle ((from, ReadErr e) # rs) h = (h, rs)"
| "readPump handle ((from, OtherMessage m) # rs) h = readPump handle rs h"
| "readPump handle ((from, BinaryMessage frame) # rs) h =
     (case handle from frame h of
        (Some e, h) \<Rightarrow> (h, rs)
      | (None, h) \<Rightarrow> readPump handle rs h)"

text \<open>One turn of the write loop on a frame: the oldest queued frame leaves the queue.\<close>

definition writePump_frame :: "managedConn \<Rightarrow> (bytes \<times> managedConn) option" where
  "writePump_frame c =
     (case mc_sendQ c of [] \<Rightarrow> None | frame # q \<Rightarrow> Some (frame, c\<lparr>mc_sendQ := q\<rparr>))"

section \<open>Backoff\<close>

text \<open>What \<open>withDefaults\<close> guarantees of the two bounds, and that doubling them does not overflow.\<close>

definition backoff_bounds :: "duration \<Rightarrow> duration \<Rightarrow> bool" where
  "backoff_bounds minimum maximum \<longleftrightarrow> 0 < minimum \<and> minimum \<le> maximum \<and> maximum < 2 ^ 62"

lemma bumpBackoff_value:
  assumes "backoff_bounds minimum maximum" and "ps_backoff ps \<le> maximum"
  shows "bumpBackoff minimum maximum ps =
    (let d = (if ps_backoff ps \<le> 0 then minimum else min maximum (2 * ps_backoff ps))
     in (ps\<lparr>ps_backoff := d\<rparr>, d))"
proof (cases "ps_backoff ps \<le> 0")
  case True
  then show ?thesis by (simp add: bumpBackoff_def)
next
  case False
  then have "wrap_int (ps_backoff ps * 2) = 2 * ps_backoff ps"
    using assms by (subst wrap_int_id) (auto simp: backoff_bounds_def)
  with False show ?thesis by (auto simp: bumpBackoff_def Let_def min_def)
qed

lemma bumpBackoff_range:
  assumes "backoff_bounds minimum maximum" and "ps_backoff ps \<le> maximum"
  shows "0 < snd (bumpBackoff minimum maximum ps)"
    and "snd (bumpBackoff minimum maximum ps) \<le> maximum"
    and "ps_backoff (fst (bumpBackoff minimum maximum ps)) = snd (bumpBackoff minimum maximum ps)"
  using assms unfolding bumpBackoff_value [OF assms]
  by (auto simp: Let_def backoff_bounds_def min_def)

text \<open>The delay after \<open>n\<close> failed attempts in a row.\<close>

fun bumps :: "duration \<Rightarrow> duration \<Rightarrow> nat \<Rightarrow> peerState \<Rightarrow> peerState" where
  "bumps minimum maximum 0 ps = ps"
| "bumps minimum maximum (Suc n) ps = fst (bumpBackoff minimum maximum (bumps minimum maximum n ps))"

lemma bumps_value:
  assumes b: "backoff_bounds minimum maximum"
  shows "ps_backoff (bumps minimum maximum (Suc n) (resetBackoff ps)) = min maximum (minimum * 2 ^ n)"
proof (induction n)
  case 0
  then show ?case
    using b by (simp add: bumpBackoff_def resetBackoff_def backoff_bounds_def)
next
  case (Suc n)
  let ?ps = "bumps minimum maximum (Suc n) (resetBackoff ps)"
  have "0 < minimum * 2 ^ n" using b by (simp add: backoff_bounds_def)
  then have pos: "\<not> ps_backoff ?ps \<le> 0" and le: "ps_backoff ?ps \<le> maximum"
    using b unfolding Suc.IH by (simp_all add: backoff_bounds_def min_def not_le)
  have "ps_backoff (fst (bumpBackoff minimum maximum ?ps)) = min maximum (2 * ps_backoff ?ps)"
    using pos by (simp add: bumpBackoff_value [OF b le] Let_def del: bumps.simps)
  also have "\<dots> = min maximum (2 * min maximum (minimum * 2 ^ n))"
    by (simp only: Suc.IH)
  also have "\<dots> = min maximum (minimum * 2 ^ Suc n)"
    using b by (auto simp: min_def backoff_bounds_def)
  finally show ?case by simp
qed

section \<open>Queues\<close>

definition conn_inv :: "managedConn \<Rightarrow> bool" where
  "conn_inv c \<longleftrightarrow>
     length (mc_sendQ c) \<le> mc_sendCap c \<and> (mc_closed c \<noteq> None \<longrightarrow> mc_cancelled c)"

lemma enqueue_cases:
  assumes "enqueue pick ctx_err c frame = (r, c')"
  shows "r = None \<and> length (mc_sendQ c) < mc_sendCap c \<and> c' = c\<lparr>mc_sendQ := mc_sendQ c @ [frame]\<rparr>
    \<or> r \<noteq> None \<and> c' = c \<and>
       (r = Some ErrSendQueueFull \<and> ctx_err = None \<and> \<not> mc_cancelled c
          \<and> mc_sendCap c \<le> length (mc_sendQ c)
        \<or> r = Some ErrPeerNotConnected \<and> mc_cancelled c
        \<or> (\<exists>e. ctx_err = Some e \<and> r = Some (ErrContext e)))"
proof (cases "enqueue_ready ctx_err c frame = []")
  case True
  then show ?thesis
    using assms by (auto simp: enqueue_def enqueue_ready_def split: option.splits if_splits)
next
  case False
  then have "(r, c') = enqueue_ready ctx_err c frame ! (pick mod length (enqueue_ready ctx_err c frame))"
    using assms by (simp add: enqueue_def Let_def)
  moreover have "pick mod length (enqueue_ready ctx_err c frame) < length (enqueue_ready ctx_err c frame)"
    using False by simp
  ultimately have "(r, c') \<in> set (enqueue_ready ctx_err c frame)"
    by (metis nth_mem)
  then show ?thesis by (auto simp: enqueue_ready_def split: option.splits if_splits)
qed

lemma enqueue_inv [inv_intros]:
  "conn_inv c \<Longrightarrow> conn_inv (snd (enqueue pick ctx_err c frame))"
  using enqueue_cases [of pick ctx_err c frame]
  by (cases "enqueue pick ctx_err c frame") (auto simp: conn_inv_def)

lemma enqueue_frame [frame_simps]:
  "mc_peerID (snd (enqueue pick ctx_err c frame)) = mc_peerID c"
  "mc_direction (snd (enqueue pick ctx_err c frame)) = mc_direction c"
  "mc_started (snd (enqueue pick ctx_err c frame)) = mc_started c"
  "mc_closed (snd (enqueue pick ctx_err c frame)) = mc_closed c"
  "mc_cancelled (snd (enqueue pick ctx_err c frame)) = mc_cancelled c"
  using enqueue_cases [of pick ctx_err c frame]
  by (cases "enqueue pick ctx_err c frame"; auto)+

lemma enqueue_open:
  assumes "ctx_err = None" and "\<not> mc_cancelled c" and "length (mc_sendQ c) < mc_sendCap c"
  shows "enqueue pick ctx_err c frame = (None, c\<lparr>mc_sendQ := mc_sendQ c @ [frame]\<rparr>)"
  using assms by (simp add: enqueue_def enqueue_ready_def Let_def)

lemma close_conn_inv [inv_intros]: "conn_inv c \<Longrightarrow> conn_inv (close_conn reason c)"
  by (auto simp: conn_inv_def close_conn_def split: option.split)

lemma close_conn_frame [frame_simps]:
  "mc_peerID (close_conn reason c) = mc_peerID c"
  "mc_direction (close_conn reason c) = mc_direction c"
  "mc_started (close_conn reason c) = mc_started c"
  "\<exists>text. mc_closed (close_conn reason c) = Some text"
  "mc_cancelled c \<Longrightarrow> mc_cancelled (close_conn reason c)"
  by (auto simp: close_conn_def split: option.split)

section \<open>Frame handlers\<close>

text \<open>
  The contract between the read loop and the handler it is given: a handler that never returns
  an error keeps the connection's reader alive, so every binary message up to the first read
  error reaches it, in order, and none is skipped.
\<close>

definition binary_frames :: "(Peer \<times> ws_read) list \<Rightarrow> (Peer \<times> bytes) list" where
  "binary_frames rs =
     concat (map (\<lambda>(from, r). case r of BinaryMessage f \<Rightarrow> [(from, f)] | _ \<Rightarrow> []) rs)"

lemma binary_frames_simps [simp]:
  "binary_frames [] = []"
  "binary_frames ((from, BinaryMessage f) # rs) = (from, f) # binary_frames rs"
  "binary_frames ((from, OtherMessage m) # rs) = binary_frames rs"
  by (simp_all add: binary_frames_def)

locale frame_handler =
  fixes handle :: "Peer \<Rightarrow> bytes \<Rightarrow> 'h \<Rightarrow> string option \<times> 'h"
  assumes never_fails: "fst (handle from frame h) = None"
begin

lemma handle_pair: "handle from frame h = (None, snd (handle from frame h))"
  using never_fails by (metis prod.collapse)

lemma readPump_handles_all:
  "\<forall>(from, r) \<in> set rs. \<forall>e. r \<noteq> ReadErr e \<Longrightarrow>
     readPump handle (rs @ (from', ReadErr e') # rest) h =
       (fold (\<lambda>(from, f) h. snd (handle from f h)) (binary_frames rs) h, rest)"
proof (induction rs arbitrary: h)
  case Nil
  then show ?case by simp
next
  case (Cons x rs)
  obtain src r where x: "x = (src, r)" by (cases x)
  show ?case
  proof (cases r)
    case (ReadErr e)
    then show ?thesis using Cons.prems x by simp
  next
    case (BinaryMessage f)
    have "readPump handle ((x # rs) @ (from', ReadErr e') # rest) h =
        readPump handle (rs @ (from', ReadErr e') # rest) (snd (handle src f h))"
      using handle_pair [of src f h] unfolding x BinaryMessage
      by (metis (no_types, lifting) append_Cons case_prod_conv option.simps(4) readPump.simps(4))
    then show ?thesis using Cons x BinaryMessage by simp
  next
    case (OtherMessage m)
    then show ?thesis using Cons x by simp
  qed
qed

end

end
