(* ===== verification/Mesh.thy ===== *)
theory Mesh
  imports Connection
begin

text \<open>
  \<open>internal/netmesh/manager.go\<close> and the operations of \<open>discovery.go\<close> on the manager's state:
  options, the peer table, inbound and outbound connections, sending and broadcasting,
  discovery and expiry of peers, and the preparation of a dial.

  A Go pointer to a peer is represented by its identifier, the key of the table (peers are
  never removed, so the two agree); a pointer to a connection by its number. Goroutines that an
  operation starts are recorded in the state: a started connection has its pumps running, and
  \<open>mg_goClose\<close> are the closes that \<open>attachConnection\<close> left to a goroutine of their own.
\<close>

section \<open>Options\<close>

record Options =
  o_NodeID :: string
  o_Name :: string
  o_ServiceName :: string
  o_Domain :: string
  o_WebSocketPath :: string
  o_ListenAddr :: string
  o_Port :: int
  o_HeartbeatInterval :: duration
  o_PongTimeout :: duration
  o_PeerStaleAfter :: duration
  o_BrowseCycle :: duration
  o_ReconnectMinBackoff :: duration
  o_ReconnectMaxBackoff :: duration
  o_MaxFrameBytes :: int
  o_SendQueueSize :: int

definition defaultServiceName :: string where "defaultServiceName = ''_clippy._tcp''"
definition defaultDomain :: string where "defaultDomain = ''local.''"
definition defaultWebSocketPath :: string where "defaultWebSocketPath = ''/ws''"
definition defaultHeartbeatInterval :: duration where "defaultHeartbeatInterval = 10 * second"
definition defaultPongTimeout :: duration where "defaultPongTimeout = 30 * second"
definition defaultPeerStaleAfter :: duration where "defaultPeerStaleAfter = 90 * second"
definition defaultBrowseCycle :: duration where "defaultBrowseCycle = 30 * second"
definition defaultReconnectMinBackoff :: duration where "defaultReconnectMinBackoff = 1 * second"
definition defaultReconnectMaxBackoff :: duration where "defaultReconnectMaxBackoff = 30 * second"
definition defaultSendQueueSize :: int where "defaultSendQueueSize = 64"
definition defaultMaxFrameBytes :: int where "defaultMaxFrameBytes = 1048576 + 64 * 1024"

text \<open>\<open>hex.EncodeToString\<close> of 16 random bytes; \<open>raw\<close> is what \<open>rand.Read\<close> delivered.\<close>

definition newNodeID :: "string + bytes \<Rightarrow> string + string" where
  "newNodeID raw =
     (case raw of
        Inl e \<Rightarrow> Inl e
      | Inr raw \<Rightarrow>
          Inr (concat (map (\<lambda>c. [digit_char (of_char c div 16), digit_char (of_char c mod 16)]) raw)))"

definition or_default_string :: "string \<Rightarrow> string \<Rightarrow> string" where
  "or_default_string v d = (if v = '''' then d else v)"

definition or_default_int :: "int \<Rightarrow> int \<Rightarrow> int" where
  "or_default_int v d = (if v \<le> 0 then d else v)"

text \<open>\<open>raw\<close> and \<open>hostname\<close> are the results of \<open>rand.Read\<close> and \<open>os.Hostname\<close>.\<close>

definition withDefaults ::
    "string + bytes \<Rightarrow> string + string \<Rightarrow> Options \<Rightarrow> mesh_error + Options" where
  "withDefaults raw hostname opts =
     (let resolved = opts\<lparr>
        o_ServiceName := or_default_string (o_ServiceName opts) defaultServiceName,
        o_Domain := or_default_string (o_Domain opts) defaultDomain,
        o_WebSocketPath := or_default_string (o_WebSocketPath opts) defaultWebSocketPath,
        o_HeartbeatInterval := or_default_int (o_HeartbeatInterval opts) defaultHeartbeatInterval,
        o_PongTimeout := or_default_int (o_PongTimeout opts) defaultPongTimeout,
        o_PeerStaleAfter := or_default_int (o_PeerStaleAfter opts) defaultPeerStaleAfter,
        o_BrowseCycle := or_default_int (o_BrowseCycle opts) defaultBrowseCycle,
        o_ReconnectMinBackoff :=
          or_default_int (o_ReconnectMinBackoff opts) defaultReconnectMinBackoff,
        o_ReconnectMaxBackoff :=
          or_default_int (o_ReconnectMaxBackoff opts) defaultReconnectMaxBackoff\<rparr>
      in if o_ReconnectMaxBackoff resolved < o_ReconnectMinBackoff resolved
           then Inl (ErrOptions ''netmesh: reconnect max backoff must be >= min backoff'')
      else
        let resolved = resolved\<lparr>
              o_MaxFrameBytes := or_default_int (o_MaxFrameBytes resolved) defaultMaxFrameBytes,
              o_SendQueueSize := or_default_int (o_SendQueueSize resolved) defaultSendQueueSize\<rparr>
        in if o_Port resolved < 0 then Inl (ErrOptions ''netmesh: port must be >= 0'')
      else
        (case (if o_NodeID resolved = '''' then newNodeID raw else Inr (o_NodeID resolved)) of
           Inl e \<Rightarrow> Inl (ErrOptions (''netmesh: generate node id: '' @ e))
         | Inr nodeID \<Rightarrow>
             (case (if o_Name resolved = '''' then hostname else Inr (o_Name resolved)) of
                Inl e \<Rightarrow> Inl (ErrOptions (''netmesh: hostname: '' @ e))
              | Inr name \<Rightarrow> Inr (resolved\<lparr>o_NodeID := nodeID, o_Name := name\<rparr>))))"

definition listenAddress :: "string \<Rightarrow> int \<Rightarrow> string" where
  "listenAddress host port =
     (if host = '''' then '':'' @ itoa port else joinHostPort host (itoa port))"

section \<open>The manager\<close>

record Manager =
  mg_opts :: Options
  mg_nodeID :: string
  mg_name :: string
  mg_peers :: "(string, peerState) fmap"
  mg_started :: bool
  mg_ctxDone :: bool
  mg_conns :: "(nat, managedConn) fmap"
  mg_goClose :: "(nat \<times> string) list"

definition NewManager ::
    "string + bytes \<Rightarrow> string + string \<Rightarrow> Options \<Rightarrow> bool \<Rightarrow> mesh_error + Manager" where
  "NewManager raw hostname opts handler_nil =
     (if handler_nil then Inl ErrNilHandler
      else case withDefaults raw hostname opts of
             Inl e \<Rightarrow> Inl e
           | Inr resolved \<Rightarrow>
               Inr \<lparr>mg_opts = resolved, mg_nodeID = o_NodeID resolved, mg_name = o_Name resolved,
                    mg_peers = fmempty, mg_started = False, mg_ctxDone = False,
                    mg_conns = fmempty, mg_goClose = []\<rparr>)"

text \<open>
  \<open>listen\<close> is the error \<open>net.Listen\<close> returned, if any. The path is taken to be a pattern that
  \<open>mux.HandleFunc\<close> accepts; for any other, one without a slash for instance, \<open>Start\<close> panics.
\<close>

definition Start :: "string option \<Rightarrow> Manager \<Rightarrow> Manager \<times> mesh_error option" where
  "Start listen m =
     (if mg_started m then (m, Some ErrManagerStarted)
      else case listen of
             Some e \<Rightarrow> (m, Some (ErrListen e))
           | None \<Rightarrow> (m\<lparr>mg_started := True\<rparr>, None))"

subsection \<open>The peer table and the connection table\<close>

definition set_peer :: "string \<Rightarrow> peerState \<Rightarrow> Manager \<Rightarrow> Manager" where
  "set_peer peerID ps m = m\<lparr>mg_peers := fmupd peerID ps (mg_peers m)\<rparr>"

definition set_conn :: "nat \<Rightarrow> managedConn \<Rightarrow> Manager \<Rightarrow> Manager" where
  "set_conn cid c m = m\<lparr>mg_conns := fmupd cid c (mg_conns m)\<rparr>"

definition update_peer :: "string \<Rightarrow> (peerState \<Rightarrow> peerState) \<Rightarrow> Manager \<Rightarrow> Manager" where
  "update_peer peerID f m =
     (case fmlookup (mg_peers m) peerID of None \<Rightarrow> m | Some ps \<Rightarrow> set_peer peerID (f ps) m)"

definition close_cid :: "nat \<Rightarrow> string \<Rightarrow> Manager \<Rightarrow> Manager" where
  "close_cid cid reason m =
     (case fmlookup (mg_conns m) cid of
        None \<Rightarrow> m
      | Some c \<Rightarrow> set_conn cid (close_conn reason c) m)"

definition peerState_of :: "Manager \<Rightarrow> string \<Rightarrow> mesh_error + peerState" where
  "peerState_of m peerID =
     (if \<not> mg_started m then Inl ErrManagerNotStarted
      else case fmlookup (mg_peers m) peerID of
             None \<Rightarrow> Inl ErrPeerNotFound
           | Some ps \<Rightarrow> Inr ps)"

definition getOrCreatePeer :: "string \<Rightarrow> Manager \<Rightarrow> Manager" where
  "getOrCreatePeer peerID m =
     (case fmlookup (mg_peers m) peerID of
        Some ps \<Rightarrow> m
      | None \<Rightarrow> set_peer peerID (new_peerState peerID) m)"

subsection \<open>Sending\<close>

definition enqueue_to ::
    "nat \<Rightarrow> string option \<Rightarrow> nat \<Rightarrow> bytes \<Rightarrow> Manager \<Rightarrow> Manager \<times> mesh_error option" where
  "enqueue_to pick ctx_err cid frame m =
     (case fmlookup (mg_conns m) cid of
        None \<Rightarrow> (m, Some ErrPeerNotConnected)
      | Some c \<Rightarrow> (case enqueue pick ctx_err c frame of (r, c) \<Rightarrow> (set_conn cid c m, r)))"

definition Send ::
    "nat \<Rightarrow> string option \<Rightarrow> string \<Rightarrow> bytes \<Rightarrow> Manager \<Rightarrow> Manager \<times> mesh_error option" where
  "Send pick ctx_err peerID frame m =
     (if int (length frame) > o_MaxFrameBytes (mg_opts m) then (m, Some ErrInvalidFrame)
      else case peerState_of m peerID of
             Inl e \<Rightarrow> (m, Some e)
           | Inr ps \<Rightarrow>
               (case ps_conn ps of
                  None \<Rightarrow> (m, Some ErrPeerNotConnected)
                | Some cid \<Rightarrow> enqueue_to pick ctx_err cid frame m))"

text \<open>
  The loop of \<open>Broadcast\<close> over the peers in the order \<open>range\<close> yields them; \<open>pick\<close> gives the
  random choice of each \<open>select\<close>.
\<close>

fun broadcast_loop ::
    "(string \<Rightarrow> nat) \<Rightarrow> string option \<Rightarrow> bytes \<Rightarrow> string list \<Rightarrow> Manager
     \<Rightarrow> (string \<times> mesh_error) list \<Rightarrow> Manager \<times> (string \<times> mesh_error) list" where
  "broadcast_loop pick ctx_err frame [] m errs = (m, errs)"
| "broadcast_loop pick ctx_err frame (peerID # order) m errs =
     (case fmlookup (mg_peers m) peerID of
        None \<Rightarrow> broadcast_loop pick ctx_err frame order m errs
      | Some ps \<Rightarrow>
          (case ps_conn ps of
             None \<Rightarrow> broadcast_loop pick ctx_err frame order m errs
           | Some cid \<Rightarrow>
               (case enqueue_to (pick peerID) ctx_err cid frame m of
                  (m, None) \<Rightarrow> broadcast_loop pick ctx_err frame order m errs
                | (m, Some e) \<Rightarrow> broadcast_loop pick ctx_err frame order m (errs @ [(peerID, e)]))))"

definition Broadcast ::
    "(string \<Rightarrow> nat) \<Rightarrow> string list \<Rightarrow> string option \<Rightarrow> bytes \<Rightarrow> Manager
     \<Rightarrow> Manager \<times> mesh_error option" where
  "Broadcast pick order ctx_err frame m =
     (if int (length frame) > o_MaxFrameBytes (mg_opts m) then (m, Some ErrInvalidFrame)
      else case broadcast_loop pick ctx_err frame order m [] of
             (m, errs) \<Rightarrow> (m, if errs = [] then None else Some (ErrJoined errs)))"

definition Peers :: "string list \<Rightarrow> Manager \<Rightarrow> Peer list" where
  "Peers order m =
     sort_key peer_ID
       (concat (map (\<lambda>peerID. case fmlookup (mg_peers m) peerID of
                                 None \<Rightarrow> [] | Some ps \<Rightarrow> [snapshot ps]) order))"

subsection \<open>Connections\<close>

text \<open>The peer entry with the identity and, when there is one, the name of the other end.\<close>

definition name_peer :: "managedConn \<Rightarrow> peerState \<Rightarrow> peerState" where
  "name_peer conn ps =
     (let ps = ps\<lparr>ps_peer := (ps_peer ps)\<lparr>peer_ID := ps_id ps\<rparr>\<rparr>
      in if mc_peerName conn \<noteq> ''''
         then ps\<lparr>ps_peer := (ps_peer ps)\<lparr>peer_Name := mc_peerName conn\<rparr>\<rparr> else ps)"

text \<open>A peer entry with a connection put into its slot.\<close>

definition install_conn :: "nat \<Rightarrow> peerState \<Rightarrow> peerState" where
  "install_conn cid ps =
     ps\<lparr>ps_conn := Some cid, ps_backoff := 0, ps_peer := (ps_peer ps)\<lparr>peer_Connected := True\<rparr>\<rparr>"

definition attachConnection ::
    "string \<Rightarrow> nat \<Rightarrow> managedConn \<Rightarrow> Manager \<Rightarrow> Manager \<times> bool" where
  "attachConnection peerID cid conn m =
     (case fmlookup (mg_peers m) peerID of
        None \<Rightarrow> (m, False)
      | Some ps \<Rightarrow>
          let ps = name_peer conn ps;
              preferred = preferredDirection (mg_nodeID m) (ps_id ps);
              m' = set_conn cid (conn\<lparr>mc_started := True\<rparr>) (set_peer peerID (install_conn cid ps) m)
          in case ps_conn ps of
               None \<Rightarrow> (m', True)
             | Some old \<Rightarrow>
                 (case fmlookup (mg_conns m) old of
                    None \<Rightarrow> (set_conn cid conn (set_peer peerID ps m), False)
                  | Some oldc \<Rightarrow>
                      if mc_direction oldc = mc_direction conn then
                        (set_conn cid conn (set_peer peerID ps m), False)
                      else if mc_direction conn = preferred then
                        (m'\<lparr>mg_goClose := mg_goClose m @
                              [(old, ''superseded by preferred connection'')]\<rparr>, True)
                      else (set_conn cid conn (set_peer peerID ps m), False)))"

definition attach_or_close ::
    "string \<Rightarrow> nat \<Rightarrow> managedConn \<Rightarrow> Manager \<Rightarrow> Manager" where
  "attach_or_close peerID cid conn m =
     (case attachConnection peerID cid conn m of
        (m, True) \<Rightarrow> m
      | (m, False) \<Rightarrow> close_cid cid ''duplicate connection'' m)"

text \<open>
  \<open>handleConnectionClosed\<close>: its critical section \<open>drop_conn\<close>, with \<open>shouldReconnect\<close>, and then
  the wake-up, which is sent after the peer's lock has been released.
\<close>

definition drop_conn :: "string \<Rightarrow> nat \<Rightarrow> Manager \<Rightarrow> Manager \<times> bool" where
  "drop_conn peerID cid m =
     (case fmlookup (mg_peers m) peerID of
        None \<Rightarrow> (m, False)
      | Some ps \<Rightarrow>
          if ps_conn ps \<noteq> Some cid then (m, False)
          else
            let ps' = ps\<lparr>ps_conn := None, ps_peer := (ps_peer ps)\<lparr>peer_Connected := False\<rparr>\<rparr>;
                shouldReconnect = (ps_discovered ps \<and> shouldDial (mg_nodeID m) (ps_id ps))
            in (set_peer peerID ps' m, shouldReconnect))"

definition handleConnectionClosed :: "string \<Rightarrow> nat \<Rightarrow> Manager \<Rightarrow> Manager" where
  "handleConnectionClosed peerID cid m =
     (let (m, shouldReconnect) = drop_conn peerID cid m
      in if shouldReconnect then update_peer peerID triggerReconnect m else m)"

subsection \<open>Shutdown\<close>

text \<open>\<open>m.cancel()\<close>: the contexts of all connections are children of the manager's context.\<close>

definition cancel_ctx :: "Manager \<Rightarrow> Manager" where
  "cancel_ctx m =
     m\<lparr>mg_ctxDone := True, mg_conns := fmmap (\<lambda>c. c\<lparr>mc_cancelled := True\<rparr>) (mg_conns m)\<rparr>"

definition close_active :: "string \<Rightarrow> Manager \<Rightarrow> Manager" where
  "close_active peerID m =
     (case fmlookup (mg_peers m) peerID of
        None \<Rightarrow> m
      | Some ps \<Rightarrow>
          (case ps_conn ps of
             None \<Rightarrow> m
           | Some cid \<Rightarrow> close_cid cid ''manager shutting down'' m))"

text \<open>The part of \<open>shutdown\<close> that acts on the tables, over the peers in the order \<open>range\<close> yields them.\<close>

definition shutdown :: "string list \<Rightarrow> Manager \<Rightarrow> Manager" where
  "shutdown order m = fold close_active order (cancel_ctx m)"

subsection \<open>The pumps and the HTTP handler\<close>

text \<open>
  A pump that ends: its deferred calls run, the table first, then the close. \<open>pump_drop\<close> is the
  first part, up to the end of the critical section: the close is left to be made, and the
  result names the peer whose wake-up is left to be sent.
\<close>

definition pump_exit :: "nat \<Rightarrow> string \<Rightarrow> Manager \<Rightarrow> Manager" where
  "pump_exit cid reason m =
     (case fmlookup (mg_conns m) cid of
        None \<Rightarrow> m
      | Some c \<Rightarrow> close_cid cid reason (handleConnectionClosed (mc_peerID c) cid m))"

definition pump_drop :: "nat \<Rightarrow> string \<Rightarrow> Manager \<Rightarrow> Manager \<times> string option" where
  "pump_drop cid reason m =
     (case fmlookup (mg_conns m) cid of
        None \<Rightarrow> (m, None)
      | Some c \<Rightarrow>
          (case drop_conn (mc_peerID c) cid m of
             (m, shouldReconnect) \<Rightarrow>
               (m\<lparr>mg_goClose := mg_goClose m @ [(cid, reason)]\<rparr>,
                if shouldReconnect then Some (mc_peerID c) else None)))"

text \<open>
  The three headers and the path of an HTTP request; \<open>upgraded\<close> tells whether the WebSocket
  upgrade succeeded, and \<open>cid\<close> is the number of the new connection.
\<close>

record ws_request =
  wr_path :: string
  wr_nodeID :: string
  wr_nodeName :: string
  wr_proto :: string

datatype ws_reply =
    NotFound
  | HttpError string nat
  | UpgradeFailed
  | Switched

definition handleWebSocket ::
    "ws_request \<Rightarrow> bool \<Rightarrow> nat \<Rightarrow> Manager \<Rightarrow> Manager \<times> ws_reply" where
  "handleWebSocket r upgraded cid m =
     (if wr_path r \<noteq> o_WebSocketPath (mg_opts m) then (m, NotFound)
      else if wr_nodeID r = '''' then (m, HttpError ''missing node id'' 400)
      else if wr_proto r \<noteq> protocolVersion then (m, HttpError ''unsupported protocol version'' 412)
      else if wr_nodeID r = mg_nodeID m then (m, HttpError ''self connection rejected'' 409)
      else if \<not> upgraded then (m, UpgradeFailed)
      else
        let remoteID = wr_nodeID r; remoteName = wr_nodeName r;
            m = getOrCreatePeer remoteID m;
            m = update_peer remoteID
                  (\<lambda>ps. if remoteName \<noteq> ''''
                        then ps\<lparr>ps_peer := (ps_peer ps)\<lparr>peer_Name := remoteName\<rparr>\<rparr> else ps) m;
            conn = newManagedConn (mg_ctxDone m) connectionDirectionInbound remoteID remoteName
                     (o_SendQueueSize (mg_opts m))
        in (attach_or_close remoteID cid conn m, Switched))"

text \<open>
  One dialled address: an error, or the three headers of the response; a nil response
  (\<open>responseHeader\<close>) reads as three empty headers.
\<close>

datatype dial_result = DialFailed string | DialOpened "(string \<times> string \<times> string) option"

definition responseHeaders :: "(string \<times> string \<times> string) option \<Rightarrow> string \<times> string \<times> string" where
  "responseHeaders resp = (case resp of None \<Rightarrow> ('''', '''', '''') | Some h \<Rightarrow> h)"

definition dial_url :: "bytes \<Rightarrow> int \<Rightarrow> string \<Rightarrow> string" where
  "dial_url addr port wsPath = ''ws://'' @ joinHostPort (ip_string addr) (itoa port) @ wsPath"

fun dial_loop ::
    "(string \<Rightarrow> dial_result) \<Rightarrow> string \<Rightarrow> Peer \<Rightarrow> string \<Rightarrow> nat \<Rightarrow> bytes list \<Rightarrow> string option
     \<Rightarrow> Manager \<Rightarrow> Manager \<times> mesh_error option" where
  "dial_loop dialer peerID peer wsPath cid [] lastErr m =
     (m, Some (ErrDial (case lastErr of
                          None \<Rightarrow> ''no dialable addresses discovered'' | Some e \<Rightarrow> e)))"
| "dial_loop dialer peerID peer wsPath cid (addr # addrs) lastErr m =
     (case dialer (dial_url addr (peer_Port peer) wsPath) of
        DialFailed e \<Rightarrow> dial_loop dialer peerID peer wsPath cid addrs (Some e) m
      | DialOpened resp \<Rightarrow>
          (case responseHeaders resp of (remoteID, remoteName, remoteProto) \<Rightarrow>
             if remoteID = '''' then
               dial_loop dialer peerID peer wsPath cid addrs
                 (Some ''missing peer id in websocket response'') m
             else if remoteID \<noteq> peer_ID peer then
               dial_loop dialer peerID peer wsPath cid addrs
                 (Some (''discovered peer '' @ peer_ID peer @ '' responded as '' @ remoteID)) m
             else if remoteProto \<noteq> protocolVersion then
               dial_loop dialer peerID peer wsPath cid addrs
                 (Some ''unsupported peer protocol version'') m
             else
               let remoteName = (if remoteName = '''' then peer_Name peer else remoteName);
                   conn = newManagedConn (mg_ctxDone m) connectionDirectionOutbound (peer_ID peer) remoteName
                            (o_SendQueueSize (mg_opts m))
               in (attach_or_close peerID cid conn m, None)))"

definition dialPeer ::
    "(string \<Rightarrow> dial_result) \<Rightarrow> string \<Rightarrow> Peer \<Rightarrow> string \<Rightarrow> nat \<Rightarrow> Manager
     \<Rightarrow> Manager \<times> mesh_error option" where
  "dialPeer dialer peerID peer wsPath cid m =
     dial_loop dialer peerID peer wsPath cid (peer_Addresses peer) None m"

subsection \<open>Discovery\<close>

definition ensureDialLoop :: "string \<Rightarrow> Manager \<Rightarrow> Manager" where
  "ensureDialLoop peerID m =
     update_peer peerID
       (\<lambda>ps. if ps_dialLoopStarted ps then ps else ps\<lparr>ps_dialLoopStarted := True\<rparr>) m"

definition discover_peer :: "Peer \<Rightarrow> serviceMetadata \<Rightarrow> peerState \<Rightarrow> peerState" where
  "discover_peer peer meta ps =
     ps\<lparr>ps_peer := (ps_peer ps)\<lparr>peer_ID := peer_ID peer, peer_Name := peer_Name peer,
                    peer_Host := peer_Host peer, peer_Port := peer_Port peer,
                    peer_Addresses := copyIPs (peer_Addresses peer),
                    peer_LastSeen := peer_LastSeen peer\<rparr>,
        ps_discovered := True, ps_wsPath := sm_wsPath meta, ps_proto := sm_proto meta\<rparr>"

text \<open>
  \<open>handleServiceEntry\<close>: the update of the peer table, with the peer whose dial loop is to be
  started and woken up afterwards, and the whole.
\<close>

definition service_update :: "time \<Rightarrow> ServiceEntry option \<Rightarrow> Manager \<Rightarrow> Manager \<times> string option" where
  "service_update now entry m =
     (case peerFromEntry now entry of
        Inl e \<Rightarrow> (m, None)
      | Inr (peer, meta) \<Rightarrow>
          if peer_ID peer = mg_nodeID m then (m, None)
          else
            let m = getOrCreatePeer (peer_ID peer) m;
                m = update_peer (peer_ID peer) (discover_peer peer meta) m
            in (m, if shouldDial (mg_nodeID m) (peer_ID peer) then Some (peer_ID peer) else None))"

definition handleServiceEntry :: "time \<Rightarrow> ServiceEntry option \<Rightarrow> Manager \<Rightarrow> Manager" where
  "handleServiceEntry now entry m =
     (case service_update now entry m of
        (m, None) \<Rightarrow> m
      | (m, Some peerID) \<Rightarrow> update_peer peerID triggerReconnect (ensureDialLoop peerID m))"

definition prune_peer :: "duration \<Rightarrow> time \<Rightarrow> peerState \<Rightarrow> peerState" where
  "prune_peer staleAfter now ps =
     (if ps_discovered ps \<and> peer_LastSeen (ps_peer ps) \<noteq> 0
         \<and> time_sub now (peer_LastSeen (ps_peer ps)) > staleAfter
      then ps\<lparr>ps_discovered := False,
              ps_peer := (ps_peer ps)\<lparr>peer_Host := '''', peer_Port := 0, peer_Addresses := []\<rparr>,
              ps_wsPath := '''', ps_proto := ''''\<rparr>
      else ps)"

definition pruneStalePeers :: "string list \<Rightarrow> time \<Rightarrow> Manager \<Rightarrow> Manager" where
  "pruneStalePeers order now m =
     fold (\<lambda>peerID m. update_peer peerID (prune_peer (o_PeerStaleAfter (mg_opts m)) now) m) order m"

text \<open>\<^const>\<open>None\<close> is \<open>(Peer{}, "", false, 0)\<close>.\<close>

definition prepareDial ::
    "string \<Rightarrow> Manager \<Rightarrow> Manager \<times> (Peer \<times> string \<times> duration) option" where
  "prepareDial peerID m =
     (case fmlookup (mg_peers m) peerID of
        None \<Rightarrow> (m, None)
      | Some ps \<Rightarrow>
          if ps_conn ps \<noteq> None \<or> \<not> ps_discovered ps \<or> \<not> shouldDial (mg_nodeID m) (ps_id ps)
          then (m, None)
          else if peer_Port (ps_peer ps) = 0 \<or> length (peer_Addresses (ps_peer ps)) = 0
                  \<or> ps_wsPath ps = '''' \<or> ps_proto ps \<noteq> protocolVersion
          then (m, None)
          else
            let snapshot = peerCopyLocked ps; wsPath = ps_wsPath ps in
            case bumpBackoff (o_ReconnectMinBackoff (mg_opts m)) (o_ReconnectMaxBackoff (mg_opts m)) ps of
              (ps, delay) \<Rightarrow> (set_peer peerID ps m, Some (snapshot, wsPath, delay)))"

end
