(* ===== verification/MeshInv.thy ===== *)
theory MeshInv
  imports Mesh
begin

text \<open>
  The invariant of the mesh manager's tables and its preservation by every operation of
  \<open>manager.go\<close> and \<open>discovery.go\<close> that changes them, one lemma per operation.
\<close>

section \<open>The invariant\<close>

definition dialable :: "peerState \<Rightarrow> bool" where
  "dialable ps \<longleftrightarrow>
     peer_Port (ps_peer ps) \<noteq> 0 \<and> peer_Addresses (ps_peer ps) \<noteq> []
     \<and> has_prefix ''/'' (ps_wsPath ps) \<and> ps_proto ps = protocolVersion"

definition options_ok :: "Options \<Rightarrow> bool" where
  "options_ok o' \<longleftrightarrow>
     backoff_bounds (o_ReconnectMinBackoff o') (o_ReconnectMaxBackoff o') \<and> 0 < o_SendQueueSize o'"

text \<open>The part of a peer's state that speaks of the peer alone.\<close>

definition peer_inv :: "string \<Rightarrow> Options \<Rightarrow> string \<Rightarrow> peerState \<Rightarrow> bool" where
  "peer_inv nodeID opts peerID ps \<longleftrightarrow>
     ps_id ps = peerID \<and> peerID \<noteq> nodeID
     \<and> (peer_Connected (ps_peer ps) \<longleftrightarrow> ps_conn ps \<noteq> None)
     \<and> (ps_dialLoopStarted ps \<longrightarrow> shouldDial nodeID peerID)
     \<and> (ps_discovered ps \<longrightarrow> dialable ps)
     \<and> 0 \<le> ps_backoff ps \<and> ps_backoff ps \<le> o_ReconnectMaxBackoff opts"

definition attached :: "Manager \<Rightarrow> nat \<Rightarrow> managedConn \<Rightarrow> bool" where
  "attached m cid c \<longleftrightarrow>
     (\<exists>ps. fmlookup (mg_peers m) (mc_peerID c) = Some ps \<and> ps_conn ps = Some cid)"

definition scheduled :: "Manager \<Rightarrow> nat \<Rightarrow> bool" where
  "scheduled m cid \<longleftrightarrow> cid \<in> fst ` set (mg_goClose m)"

text \<open>
  Every peer entry is well formed and never the node itself; the connection a peer entry names
  exists, belongs to that peer and has its pumps running; and no connection leaks: one that is
  neither closed nor about to be closed is the active connection of its peer.
\<close>

definition mesh_inv :: "Manager \<Rightarrow> bool" where
  "mesh_inv m \<longleftrightarrow>
     options_ok (mg_opts m)
     \<and> (\<forall>peerID ps. fmlookup (mg_peers m) peerID = Some ps \<longrightarrow>
          peer_inv (mg_nodeID m) (mg_opts m) peerID ps
          \<and> (\<forall>cid. ps_conn ps = Some cid \<longrightarrow>
               (\<exists>c. fmlookup (mg_conns m) cid = Some c \<and> mc_peerID c = peerID \<and> mc_started c)))
     \<and> (\<forall>cid c. fmlookup (mg_conns m) cid = Some c \<longrightarrow>
          conn_inv c \<and> (mg_ctxDone m \<longrightarrow> mc_cancelled c)
          \<and> (mc_closed c = None \<longrightarrow> attached m cid c \<or> scheduled m cid))"

lemma mesh_invD:
  assumes "mesh_inv m"
  shows "options_ok (mg_opts m)"
    and "\<And>peerID ps. fmlookup (mg_peers m) peerID = Some ps \<Longrightarrow>
      peer_inv (mg_nodeID m) (mg_opts m) peerID ps"
    and "\<And>peerID ps cid. fmlookup (mg_peers m) peerID = Some ps \<Longrightarrow> ps_conn ps = Some cid \<Longrightarrow>
      \<exists>c. fmlookup (mg_conns m) cid = Some c \<and> mc_peerID c = peerID \<and> mc_started c"
    and "\<And>cid c. fmlookup (mg_conns m) cid = Some c \<Longrightarrow> conn_inv c"
    and "\<And>cid c. fmlookup (mg_conns m) cid = Some c \<Longrightarrow> mg_ctxDone m \<Longrightarrow> mc_cancelled c"
    and "\<And>cid c. fmlookup (mg_conns m) cid = Some c \<Longrightarrow> mc_closed c = None \<Longrightarrow>
      attached m cid c \<or> scheduled m cid"
  using assms unfolding mesh_inv_def by blast+

section \<open>Updates of one peer that keep its connection\<close>

lemma set_peer_sel [simp]:
  "mg_opts (set_peer p ps m) = mg_opts m" "mg_nodeID (set_peer p ps m) = mg_nodeID m"
  "mg_conns (set_peer p ps m) = mg_conns m" "mg_goClose (set_peer p ps m) = mg_goClose m"
  "mg_peers (set_peer p ps m) = fmupd p ps (mg_peers m)"
  "mg_started (set_peer p ps m) = mg_started m" "mg_name (set_peer p ps m) = mg_name m"
  "mg_ctxDone (set_peer p ps m) = mg_ctxDone m"
  by (simp_all add: set_peer_def)

lemma set_conn_sel [simp]:
  "mg_opts (set_conn i c m) = mg_opts m" "mg_nodeID (set_conn i c m) = mg_nodeID m"
  "mg_conns (set_conn i c m) = fmupd i c (mg_conns m)" "mg_goClose (set_conn i c m) = mg_goClose m"
  "mg_peers (set_conn i c m) = mg_peers m" "mg_started (set_conn i c m) = mg_started m"
  "mg_name (set_conn i c m) = mg_name m" "mg_ctxDone (set_conn i c m) = mg_ctxDone m"
  by (simp_all add: set_conn_def)

lemma set_peer_inv [inv_intros]:
  assumes inv: "mesh_inv m" and ps: "peer_inv (mg_nodeID m) (mg_opts m) peerID ps"
    and conn: "ps_conn ps = (case fmlookup (mg_peers m) peerID of Some q \<Rightarrow> ps_conn q | None \<Rightarrow> None)"
  shows "mesh_inv (set_peer peerID ps m)"
proof -
  have att: "attached (set_peer peerID ps m) cid c \<longleftrightarrow> attached m cid c" for cid c
    using conn by (auto simp: attached_def split: option.splits)
  have "scheduled (set_peer peerID ps m) cid \<longleftrightarrow> scheduled m cid" for cid
    by (simp add: scheduled_def)
  then show ?thesis
    using mesh_invD [OF inv] ps conn by (auto simp: mesh_inv_def att split: option.splits if_splits)
qed

lemma update_peer_inv [inv_intros]:
  assumes inv: "mesh_inv m"
    and f: "\<And>ps. peer_inv (mg_nodeID m) (mg_opts m) peerID ps \<Longrightarrow>
      peer_inv (mg_nodeID m) (mg_opts m) peerID (f ps) \<and> ps_conn (f ps) = ps_conn ps"
  shows "mesh_inv (update_peer peerID f m)"
  using inv f mesh_invD(2) [OF inv]
  by (auto simp: update_peer_def intro!: set_peer_inv split: option.split)

lemma update_peer_sel [simp]:
  "mg_opts (update_peer p f m) = mg_opts m" "mg_nodeID (update_peer p f m) = mg_nodeID m"
  "mg_conns (update_peer p f m) = mg_conns m" "mg_goClose (update_peer p f m) = mg_goClose m"
  "fmlookup (mg_peers (update_peer p f m)) q =
     (if q = p then map_option f (fmlookup (mg_peers m) p) else fmlookup (mg_peers m) q)"
  by (auto simp: update_peer_def split: option.split)

lemma getOrCreatePeer_inv [inv_intros]:
  "mesh_inv m \<Longrightarrow> peerID \<noteq> mg_nodeID m \<Longrightarrow> mesh_inv (getOrCreatePeer peerID m)"
  using mesh_invD(1) [of m]
  by (auto simp: getOrCreatePeer_def new_peerState_def peer_inv_def zero_Peer_def options_ok_def
      backoff_bounds_def intro!: set_peer_inv split: option.split)

lemma getOrCreatePeer_sel [simp]:
  "mg_opts (getOrCreatePeer p m) = mg_opts m" "mg_nodeID (getOrCreatePeer p m) = mg_nodeID m"
  "mg_conns (getOrCreatePeer p m) = mg_conns m" "mg_goClose (getOrCreatePeer p m) = mg_goClose m"
  "fmlookup (mg_peers (getOrCreatePeer p m)) q =
     (case fmlookup (mg_peers m) q of
        Some ps \<Rightarrow> Some ps | None \<Rightarrow> if q = p then Some (new_peerState p) else None)"
  by (auto simp: getOrCreatePeer_def split: option.split)

section \<open>Updates of one connection\<close>

lemma set_conn_inv [inv_intros]:
  assumes inv: "mesh_inv m" and old: "fmlookup (mg_conns m) cid = Some c" and "conn_inv c'"
    and "mc_peerID c' = mc_peerID c" and "mc_started c \<longrightarrow> mc_started c'"
    and "mc_closed c \<noteq> None \<longrightarrow> mc_closed c' \<noteq> None"
    and "mc_cancelled c \<longrightarrow> mc_cancelled c'"
  shows "mesh_inv (set_conn cid c' m)"
proof -
  have att: "attached (set_conn cid c' m) i d \<longleftrightarrow> attached m i d" for i d
    by (simp add: attached_def)
  have att': "attached m i c' \<longleftrightarrow> attached m i c" for i
    using assms(4) by (simp add: attached_def)
  have sch: "scheduled (set_conn cid c' m) i \<longleftrightarrow> scheduled m i" for i
    by (simp add: scheduled_def)
  show ?thesis
    unfolding mesh_inv_def
  proof (intro conjI allI impI)
    fix peerID ps i
    assume "fmlookup (mg_peers (set_conn cid c' m)) peerID = Some ps" "ps_conn ps = Some i"
    then obtain d where "fmlookup (mg_conns m) i = Some d" "mc_peerID d = peerID" "mc_started d"
      using mesh_invD(3) [OF inv] unfolding set_conn_sel by blast
    then show "\<exists>d. fmlookup (mg_conns (set_conn cid c' m)) i = Some d \<and> mc_peerID d = peerID \<and> mc_started d"
      using old assms by auto
  qed (use mesh_invD(1) [OF inv] old assms in
      \<open>auto simp: att att' sch dest: mesh_invD(2,4,5,6) [OF inv] split: if_splits\<close>)
qed

lemma close_cid_inv [inv_intros]: "mesh_inv m \<Longrightarrow> mesh_inv (close_cid cid reason m)"
  by (auto simp: close_cid_def close_conn_frame intro!: set_conn_inv close_conn_inv
      dest: mesh_invD(4) split: option.split)

lemma close_cid_sel [simp]:
  "mg_opts (close_cid i r m) = mg_opts m" "mg_nodeID (close_cid i r m) = mg_nodeID m"
  "mg_peers (close_cid i r m) = mg_peers m" "mg_goClose (close_cid i r m) = mg_goClose m"
  "mg_started (close_cid i r m) = mg_started m" "mg_ctxDone (close_cid i r m) = mg_ctxDone m"
  "fmlookup (mg_conns (close_cid i r m)) j =
     (if j = i then map_option (close_conn r) (fmlookup (mg_conns m) i) else fmlookup (mg_conns m) j)"
  by (auto simp: close_cid_def split: option.split)

lemma enqueue_to_inv [inv_intros]: "mesh_inv m \<Longrightarrow> mesh_inv (fst (enqueue_to pick e cid frame m))"
  by (auto simp: enqueue_to_def case_prod_unfold frame_simps intro!: set_conn_inv enqueue_inv
      dest: mesh_invD(4) split: option.split)

lemma Send_inv [inv_intros]: "mesh_inv m \<Longrightarrow> mesh_inv (fst (Send pick e peerID frame m))"
  by (auto simp: Send_def intro: inv_intros split: option.split sum.split)

lemma broadcast_loop_inv: "mesh_inv m \<Longrightarrow> mesh_inv (fst (broadcast_loop pick e frame order m errs))"
proof (induction pick e frame order m errs rule: broadcast_loop.induct)
  case (2 pick ctx_err frame peerID order m errs)
  show ?case
  proof (cases "\<exists>ps cid. fmlookup (mg_peers m) peerID = Some ps \<and> ps_conn ps = Some cid")
    case True
    then obtain ps cid where ps: "fmlookup (mg_peers m) peerID = Some ps" "ps_conn ps = Some cid"
      by blast
    obtain m' r where m': "enqueue_to (pick peerID) ctx_err cid frame m = (m', r)" by fastforce
    then have "mesh_inv m'" using enqueue_to_inv [OF "2.prems"] by (metis fst_conv)
    then show ?thesis using "2.IH"(3,4) [OF ps m' [symmetric]] ps m' by (cases r) auto
  next
    case False
    then show ?thesis
      using "2" by (cases "fmlookup (mg_peers m) peerID"; cases "ps_conn (the (fmlookup (mg_peers m) peerID))") auto
  qed
qed simp

lemma Broadcast_inv [inv_intros]:
  "mesh_inv m \<Longrightarrow> mesh_inv (fst (Broadcast pick order e frame m))"
  using broadcast_loop_inv [of m pick e frame order "[]"]
  by (auto simp: Broadcast_def case_prod_unfold)

section \<open>Attaching a connection\<close>

text \<open>
  What \<open>attachConnection\<close> and the caller's close of a refused connection come to, case by case:
  the peer's slot is free, or the newcomer is the preferred replacement, or it is refused.
\<close>

lemma name_peer_sel [simp]:
  "ps_id (name_peer conn ps) = ps_id ps" "ps_conn (name_peer conn ps) = ps_conn ps"
  "ps_backoff (name_peer conn ps) = ps_backoff ps"
  "ps_discovered (name_peer conn ps) = ps_discovered ps"
  "ps_dialLoopStarted (name_peer conn ps) = ps_dialLoopStarted ps"
  "peer_Connected (ps_peer (name_peer conn ps)) = peer_Connected (ps_peer ps)"
  "dialable (name_peer conn ps) = dialable ps"
  by (simp_all add: name_peer_def Let_def dialable_def)

lemma install_conn_sel [simp]:
  "ps_id (install_conn cid ps) = ps_id ps" "ps_conn (install_conn cid ps) = Some cid"
  "ps_backoff (install_conn cid ps) = 0"
  "ps_discovered (install_conn cid ps) = ps_discovered ps"
  "ps_dialLoopStarted (install_conn cid ps) = ps_dialLoopStarted ps"
  "peer_Connected (ps_peer (install_conn cid ps))"
  "dialable (install_conn cid ps) = dialable ps"
  by (simp_all add: install_conn_def dialable_def)

lemma peer_inv_name [inv_intros]:
  "peer_inv n opts p ps \<Longrightarrow> peer_inv n opts p (name_peer conn ps)"
  by (simp add: peer_inv_def)

lemma peer_inv_install [inv_intros]:
  "peer_inv n opts p ps \<Longrightarrow> peer_inv n opts p (install_conn cid ps)"
  by (auto simp: peer_inv_def)

lemma attach_cases:
  assumes inv: "mesh_inv m" and ps: "fmlookup (mg_peers m) peerID = Some ps"
  obtains (free) "ps_conn ps = None"
      "attachConnection peerID cid conn m =
         (set_conn cid (conn\<lparr>mc_started := True\<rparr>)
            (set_peer peerID (install_conn cid (name_peer conn ps)) m), True)"
  | (replace) old oldc where "ps_conn ps = Some old" "fmlookup (mg_conns m) old = Some oldc"
      "mc_direction oldc \<noteq> mc_direction conn"
      "mc_direction conn = preferredDirection (mg_nodeID m) peerID"
      "attachConnection peerID cid conn m =
         (let m' = set_conn cid (conn\<lparr>mc_started := True\<rparr>)
                     (set_peer peerID (install_conn cid (name_peer conn ps)) m)
          in m'\<lparr>mg_goClose := mg_goClose m' @ [(old, ''superseded by preferred connection'')]\<rparr>, True)"
  | (refuse) old oldc where "ps_conn ps = Some old" "fmlookup (mg_conns m) old = Some oldc"
      "mc_direction oldc = mc_direction conn
       \<or> mc_direction conn \<noteq> preferredDirection (mg_nodeID m) peerID"
      "attachConnection peerID cid conn m =
         (set_conn cid conn (set_peer peerID (name_peer conn ps) m), False)"
proof (cases "ps_conn ps")
  case None
  then show thesis
    using ps free by (simp add: attachConnection_def Let_def)
next
  case (Some old)
  then obtain oldc where oldc: "fmlookup (mg_conns m) old = Some oldc"
    using mesh_invD(3) [OF inv ps] by blast
  have id: "ps_id ps = peerID"
    using mesh_invD(2) [OF inv ps] by (simp add: peer_inv_def)
  show thesis
  proof (cases "mc_direction oldc \<noteq> mc_direction conn
      \<and> mc_direction conn = preferredDirection (mg_nodeID m) peerID")
    case True
    note dirs = conjunct1 [OF True] conjunct2 [OF True]
    have "attachConnection peerID cid conn m =
        (let m' = set_conn cid (conn\<lparr>mc_started := True\<rparr>)
                     (set_peer peerID (install_conn cid (name_peer conn ps)) m)
          in m'\<lparr>mg_goClose := mg_goClose m' @ [(old, ''superseded by preferred connection'')]\<rparr>, True)"
      using dirs ps Some oldc id by (simp add: attachConnection_def Let_def)
    then show thesis using replace [OF Some oldc dirs] by blast
  next
    case False
    show thesis
      by (rule refuse [OF Some oldc]) (use False ps Some oldc id in \<open>auto simp: attachConnection_def Let_def\<close>)
  qed
qed

text \<open>Putting a connection into a peer's slot, with the connection it displaces scheduled.\<close>

lemma install_inv:
  assumes inv: "mesh_inv m" and ps: "fmlookup (mg_peers m) peerID = Some ps"
    and fresh: "fmlookup (mg_conns m) cid = None"
    and conn: "conn_inv conn" "mc_peerID conn = peerID" "mg_ctxDone m \<longrightarrow> mc_cancelled conn"
    and old: "\<And>old. ps_conn ps = Some old \<Longrightarrow> old \<in> fst ` set extra"
  shows "mesh_inv ((set_conn cid (conn\<lparr>mc_started := True\<rparr>)
      (set_peer peerID (install_conn cid (name_peer conn ps)) m))
        \<lparr>mg_goClose := mg_goClose m @ extra\<rparr>)" (is "mesh_inv ?m")
proof -
  have "peer_inv (mg_nodeID m) (mg_opts m) peerID (install_conn cid (name_peer conn ps))"
    using mesh_invD(2) [OF inv ps] by (intro inv_intros)
  moreover have "attached ?m i c \<or> scheduled ?m i"
    if "fmlookup (mg_conns m) i = Some c" "mc_closed c = None" for i c
  proof (cases "attached m i c \<and> mc_peerID c = peerID")
    case True
    then have "ps_conn ps = Some i" using ps by (auto simp: attached_def)
    then show ?thesis using old by (auto simp: scheduled_def)
  next
    case False
    then show ?thesis
      using mesh_invD(6) [OF inv that] by (auto simp: attached_def scheduled_def)
  qed
  moreover have "fmlookup (mg_conns m) i = Some c \<Longrightarrow> i \<noteq> cid" for i c
    using fresh by auto
  ultimately show ?thesis
    using mesh_invD(1) [OF inv] conn fresh
    unfolding mesh_inv_def
    by (auto simp: attached_def [of _ cid] conn_inv_def
        dest: mesh_invD(2,3,4,5) [OF inv] split: if_splits)
qed

lemma add_closed_conn_inv:
  assumes inv: "mesh_inv m" and fresh: "fmlookup (mg_conns m) cid = None"
    and c: "conn_inv c" "mc_closed c = Some text" "mg_ctxDone m \<longrightarrow> mc_cancelled c"
  shows "mesh_inv (set_conn cid c m)"
proof -
  have att: "attached (set_conn cid c m) i d \<longleftrightarrow> attached m i d" for i d
    by (simp add: attached_def)
  have sch: "scheduled (set_conn cid c m) i \<longleftrightarrow> scheduled m i" for i
    by (simp add: scheduled_def)
  have slot: "\<exists>d. fmlookup (mg_conns (set_conn cid c m)) i = Some d \<and> mc_peerID d = p \<and> mc_started d"
    if "fmlookup (mg_peers m) p = Some ps" "ps_conn ps = Some i" for p ps i
    using mesh_invD(3) [OF inv that] fresh by auto
  show ?thesis
    unfolding mesh_inv_def att sch
    using mesh_invD(1) [OF inv] slot c
    by (auto dest: mesh_invD(2,4,5,6) [OF inv] split: if_splits)
qed

lemma refuse_inv:
  assumes inv: "mesh_inv m" and ps: "fmlookup (mg_peers m) peerID = Some ps"
    and fresh: "fmlookup (mg_conns m) cid = None"
    and conn: "conn_inv conn" "mg_ctxDone m \<longrightarrow> mc_cancelled conn"
  shows "mesh_inv (close_cid cid reason (set_conn cid conn (set_peer peerID (name_peer conn ps) m)))"
proof -
  let ?m = "set_peer peerID (name_peer conn ps) m"
  have inv': "mesh_inv ?m"
    using ps mesh_invD(2) [OF inv ps] by (intro set_peer_inv inv inv_intros) simp_all
  have new: "close_cid cid reason (set_conn cid conn ?m) = set_conn cid (close_conn reason conn) ?m"
    by (simp add: close_cid_def set_conn_def set_peer_def)
  obtain t where "mc_closed (close_conn reason conn) = Some t"
    using close_conn_frame(4) by blast
  then show ?thesis
    unfolding new using fresh by (intro add_closed_conn_inv inv' close_conn_inv) (use conn in \<open>auto simp: close_conn_frame\<close>)
qed

lemma attach_or_close_inv [inv_intros]:
  assumes inv: "mesh_inv m" and ps: "fmlookup (mg_peers m) peerID \<noteq> None"
    and fresh: "fmlookup (mg_conns m) cid = None"
    and conn: "conn_inv conn" "mc_peerID conn = peerID" "mg_ctxDone m \<longrightarrow> mc_cancelled conn"
  shows "mesh_inv (attach_or_close peerID cid conn m)"
proof -
  obtain q where q: "fmlookup (mg_peers m) peerID = Some q" using ps by blast
  show ?thesis
  proof (cases rule: attach_cases [OF inv q, of cid conn])
    case 1
    then show ?thesis
      using install_inv [OF inv q fresh conn, of "[]"] by (simp add: attach_or_close_def set_conn_def set_peer_def)
  next
    case (2 old oldc)
    then show ?thesis
      using install_inv [OF inv q fresh conn, of "[(old, ''superseded by preferred connection'')]"]
      by (simp add: attach_or_close_def Let_def)
  next
    case (3 old oldc)
    then show ?thesis
      using refuse_inv [OF inv q fresh conn(1,3)] by (simp add: attach_or_close_def)
  qed
qed


section \<open>Connections that end\<close>

lemma triggerReconnect_sel [simp]:
  "ps_id (triggerReconnect ps) = ps_id ps" "ps_conn (triggerReconnect ps) = ps_conn ps"
  "ps_backoff (triggerReconnect ps) = ps_backoff ps" "ps_peer (triggerReconnect ps) = ps_peer ps"
  "ps_discovered (triggerReconnect ps) = ps_discovered ps"
  "ps_dialLoopStarted (triggerReconnect ps) = ps_dialLoopStarted ps"
  "ps_wsPath (triggerReconnect ps) = ps_wsPath ps" "ps_proto (triggerReconnect ps) = ps_proto ps"
  "ps_reconnectCh (triggerReconnect ps)"
  by (simp_all add: triggerReconnect_def)

lemma peer_inv_trigger [inv_intros]:
  "peer_inv n opts p ps \<Longrightarrow> peer_inv n opts p (triggerReconnect ps)"
  by (simp add: peer_inv_def dialable_def)

lemma drop_conn_sel [simp]:
  "mg_opts (fst (drop_conn p i m)) = mg_opts m"
  "mg_nodeID (fst (drop_conn p i m)) = mg_nodeID m"
  "mg_conns (fst (drop_conn p i m)) = mg_conns m"
  "mg_goClose (fst (drop_conn p i m)) = mg_goClose m"
  "mg_ctxDone (fst (drop_conn p i m)) = mg_ctxDone m"
  by (simp_all add: drop_conn_def Let_def split: option.split)

lemma drop_conn_lookup:
  "fmlookup (mg_peers (fst (drop_conn p cid m))) q =
     map_option (\<lambda>ps. if q = p \<and> ps_conn ps = Some cid
                      then ps\<lparr>ps_conn := None, ps_peer := (ps_peer ps)\<lparr>peer_Connected := False\<rparr>\<rparr>
                      else ps) (fmlookup (mg_peers m) q)"
  by (cases "fmlookup (mg_peers m) q") (auto simp: drop_conn_def Let_def split: option.split)

lemma pump_drop_Some:
  assumes "fmlookup (mg_conns m) cid = Some c"
  shows "fst (pump_drop cid reason m) =
    (fst (drop_conn (mc_peerID c) cid m))\<lparr>mg_goClose := mg_goClose m @ [(cid, reason)]\<rparr>"
  using assms by (simp add: pump_drop_def split: prod.split) (metis drop_conn_sel(4) fst_conv)

text \<open>A pump that has left the table leaves its connection to be closed.\<close>

lemma pump_drop_inv:
  assumes inv: "mesh_inv m" and conn: "fmlookup (mg_conns m) cid = Some c"
  shows "mesh_inv (fst (pump_drop cid reason m))"
proof -
  let ?m = "fst (pump_drop cid reason m)" and ?p = "mc_peerID c"
  note m = pump_drop_Some [OF conn, of reason]
  have peer: "peer_inv (mg_nodeID m) (mg_opts m) q ps'
      \<and> (\<forall>i. ps_conn ps' = Some i \<longrightarrow>
           (\<exists>d. fmlookup (mg_conns m) i = Some d \<and> mc_peerID d = q \<and> mc_started d))"
    if new: "fmlookup (mg_peers ?m) q = Some ps'" for q ps'
  proof -
    obtain ps where ps: "fmlookup (mg_peers m) q = Some ps"
      using new by (auto simp: m drop_conn_lookup)
    then show ?thesis
      using new mesh_invD(2,3) [OF inv ps]
      by (auto simp: m drop_conn_lookup peer_inv_def dialable_def split: if_splits)
  qed
  have "attached ?m i d \<or> scheduled ?m i"
    if d: "fmlookup (mg_conns m) i = Some d" "mc_closed d = None" for i d
  proof (cases "i = cid")
    case False
    have "attached ?m i d" if att: "attached m i d"
    proof -
      obtain ps where "fmlookup (mg_peers m) (mc_peerID d) = Some ps" "ps_conn ps = Some i"
        using att by (auto simp: attached_def)
      then show ?thesis using False by (simp add: attached_def m drop_conn_lookup)
    qed
    then show ?thesis
      using mesh_invD(6) [OF inv d] by (auto simp: scheduled_def m)
  qed (simp add: m scheduled_def)
  then show ?thesis
    using mesh_invD(1,4,5) [OF inv] peer unfolding mesh_inv_def by (simp add: m)
qed

lemma mesh_inv_goClose:
  assumes inv: "mesh_inv m"
    and cover: "\<And>i c. fmlookup (mg_conns m) i = Some c \<Longrightarrow> mc_closed c = None \<Longrightarrow>
      attached m i c \<or> i \<in> fst ` set gc"
  shows "mesh_inv (m\<lparr>mg_goClose := gc\<rparr>)"
proof -
  have "attached (m\<lparr>mg_goClose := gc\<rparr>) i c \<longleftrightarrow> attached m i c" for i c
    by (simp add: attached_def)
  moreover have "scheduled (m\<lparr>mg_goClose := gc\<rparr>) i \<longleftrightarrow> i \<in> fst ` set gc" for i
    by (simp add: scheduled_def)
  ultimately show ?thesis
    using inv cover by (simp add: mesh_inv_def)
qed

lemma go_close_inv:
  assumes inv: "mesh_inv m" and go: "mg_goClose m = xs @ (cid, reason) # ys"
  shows "mesh_inv ((close_cid cid reason m)\<lparr>mg_goClose := xs @ ys\<rparr>)"
proof (rule mesh_inv_goClose)
  let ?c = "close_cid cid reason m"
  show inv': "mesh_inv ?c" using inv by (rule close_cid_inv)
  fix i c assume c: "fmlookup (mg_conns ?c) i = Some c" "mc_closed c = None"
  then have "i \<noteq> cid"
    using close_conn_frame(4) [of reason "the (fmlookup (mg_conns m) cid)"] by auto
  then show "attached ?c i c \<or> i \<in> fst ` set (xs @ ys)"
    using mesh_invD(6) [OF inv' c] go by (auto simp: scheduled_def)
qed

section \<open>Shutdown\<close>

lemma cancel_ctx_sel [simp]:
  "mg_opts (cancel_ctx m) = mg_opts m" "mg_nodeID (cancel_ctx m) = mg_nodeID m"
  "mg_peers (cancel_ctx m) = mg_peers m" "mg_goClose (cancel_ctx m) = mg_goClose m"
  "mg_ctxDone (cancel_ctx m)"
  "fmlookup (mg_conns (cancel_ctx m)) i =
     map_option (\<lambda>c. c\<lparr>mc_cancelled := True\<rparr>) (fmlookup (mg_conns m) i)"
  by (simp_all add: cancel_ctx_def)

lemma cancel_ctx_inv [inv_intros]:
  assumes inv: "mesh_inv m"
  shows "mesh_inv (cancel_ctx m)"
proof -
  have "attached (cancel_ctx m) i (c\<lparr>mc_cancelled := True\<rparr>) \<longleftrightarrow> attached m i c" for i c
    by (simp add: attached_def)
  moreover have "scheduled (cancel_ctx m) i \<longleftrightarrow> scheduled m i" for i
    by (simp add: scheduled_def)
  moreover have "conn_inv (c\<lparr>mc_cancelled := True\<rparr>)" if "conn_inv c" for c
    using that by (simp add: conn_inv_def)
  ultimately show ?thesis
    using mesh_invD(1) [OF inv] unfolding mesh_inv_def
    by (fastforce dest: mesh_invD(2,3,4,6) [OF inv])
qed

lemma close_active_inv [inv_intros]: "mesh_inv m \<Longrightarrow> mesh_inv (close_active peerID m)"
  by (auto simp: close_active_def intro: close_cid_inv split: option.split)

lemma fold_mesh_inv:
  "mesh_inv m \<Longrightarrow> (\<And>x m. mesh_inv m \<Longrightarrow> mesh_inv (f x m)) \<Longrightarrow> mesh_inv (fold f xs m)"
  by (induction xs arbitrary: m) auto

lemma shutdown_inv [inv_intros]: "mesh_inv m \<Longrightarrow> mesh_inv (shutdown order m)"
  unfolding shutdown_def by (intro fold_mesh_inv close_active_inv cancel_ctx_inv)

section \<open>New connections\<close>

lemma newManagedConn_sel [simp]:
  "mc_peerID (newManagedConn b d p n q) = p" "mc_direction (newManagedConn b d p n q) = d"
  "mc_cancelled (newManagedConn b d p n q) = b" "mc_closed (newManagedConn b d p n q) = None"
  "mc_sendQ (newManagedConn b d p n q) = []" "mc_peerName (newManagedConn b d p n q) = n"
  "conn_inv (newManagedConn b d p n q)"
  by (simp_all add: newManagedConn_def conn_inv_def)

lemma ctxDone_frame [simp]:
  "mg_ctxDone (getOrCreatePeer p m) = mg_ctxDone m"
  "mg_ctxDone (update_peer p f m) = mg_ctxDone m"
  by (auto simp: getOrCreatePeer_def update_peer_def split: option.split)

lemma peer_inv_rename:
  "peer_inv n opts p ps \<Longrightarrow> peer_inv n opts p (ps\<lparr>ps_peer := (ps_peer ps)\<lparr>peer_Name := x\<rparr>\<rparr>)"
  by (simp add: peer_inv_def dialable_def)

lemma handleWebSocket_inv [inv_intros]:
  assumes inv: "mesh_inv m" and fresh: "fmlookup (mg_conns m) cid = None"
  shows "mesh_inv (fst (handleWebSocket r upgraded cid m))"
proof (cases "wr_nodeID r = mg_nodeID m")
  case True
  then show ?thesis using inv by (simp add: handleWebSocket_def)
next
  case False
  let ?rename = "\<lambda>ps. if wr_nodeName r \<noteq> ''''
      then ps\<lparr>ps_peer := (ps_peer ps)\<lparr>peer_Name := wr_nodeName r\<rparr>\<rparr> else ps"
  let ?m = "update_peer (wr_nodeID r) ?rename (getOrCreatePeer (wr_nodeID r) m)"
  have "mesh_inv ?m"
    using False inv by (intro update_peer_inv getOrCreatePeer_inv) (auto intro: peer_inv_rename)
  moreover have "fmlookup (mg_peers ?m) (wr_nodeID r) \<noteq> None"
    by (simp split: option.split)
  ultimately have "mesh_inv (attach_or_close (wr_nodeID r) cid
      (newManagedConn (mg_ctxDone m) connectionDirectionInbound (wr_nodeID r) (wr_nodeName r)
        (o_SendQueueSize (mg_opts m))) ?m)"
    using fresh by (intro attach_or_close_inv) simp_all
  then show ?thesis
    using inv by (simp add: handleWebSocket_def Let_def)
qed

lemma dial_loop_inv:
  "mesh_inv m \<Longrightarrow> fmlookup (mg_conns m) cid = None \<Longrightarrow> fmlookup (mg_peers m) peerID \<noteq> None \<Longrightarrow>
   peer_ID peer = peerID \<Longrightarrow>
   mesh_inv (fst (dial_loop dialer peerID peer wsPath cid addrs lastErr m))"
  by (induction dialer peerID peer wsPath cid addrs lastErr m rule: dial_loop.induct)
    (auto simp: Let_def intro!: attach_or_close_inv split: dial_result.split prod.split)

lemma dialPeer_inv [inv_intros]:
  "mesh_inv m \<Longrightarrow> fmlookup (mg_conns m) cid = None \<Longrightarrow> fmlookup (mg_peers m) peerID \<noteq> None \<Longrightarrow>
   peer_ID peer = peerID \<Longrightarrow>
   mesh_inv (fst (dialPeer dialer peerID peer wsPath cid m))"
  unfolding dialPeer_def by (rule dial_loop_inv)

section \<open>Discovery\<close>

lemma peer_inv_dialLoop:
  "peer_inv n opts p ps \<Longrightarrow> shouldDial n p \<Longrightarrow> peer_inv n opts p (ps\<lparr>ps_dialLoopStarted := True\<rparr>)"
  by (simp add: peer_inv_def dialable_def)

lemma ensureDialLoop_inv [inv_intros]:
  "mesh_inv m \<Longrightarrow> shouldDial (mg_nodeID m) peerID \<Longrightarrow> mesh_inv (ensureDialLoop peerID m)"
  unfolding ensureDialLoop_def
  by (rule update_peer_inv) (auto intro: peer_inv_dialLoop)

lemma discover_peer_sel [simp]:
  "ps_id (discover_peer peer meta ps) = ps_id ps" "ps_conn (discover_peer peer meta ps) = ps_conn ps"
  "ps_backoff (discover_peer peer meta ps) = ps_backoff ps"
  "ps_discovered (discover_peer peer meta ps)"
  "ps_dialLoopStarted (discover_peer peer meta ps) = ps_dialLoopStarted ps"
  "peer_Connected (ps_peer (discover_peer peer meta ps)) = peer_Connected (ps_peer ps)"
  by (simp_all add: discover_peer_def)

lemma discover_peer_dialable:
  "peerFromEntry now entry = Inr (peer, meta) \<Longrightarrow> dialable (discover_peer peer meta ps)"
  using peerFromEntry_Inr [of now entry peer meta]
  by (auto simp: dialable_def discover_peer_def good_metadata_def)


lemma trigger_inv [inv_intros]: "mesh_inv m \<Longrightarrow> mesh_inv (update_peer peerID triggerReconnect m)"
  by (rule update_peer_inv) (auto intro: peer_inv_trigger)

lemma service_update_inv [inv_intros]:
  assumes inv: "mesh_inv m"
  shows "mesh_inv (fst (service_update now entry m))"
proof (cases "peerFromEntry now entry")
  case (Inl e)
  then show ?thesis using inv by (simp add: service_update_def)
next
  case (Inr pm)
  obtain peer meta where pm: "pm = (peer, meta)" by fastforce
  have "mesh_inv (update_peer (peer_ID peer) (discover_peer peer meta) (getOrCreatePeer (peer_ID peer) m))"
    if "peer_ID peer \<noteq> mg_nodeID m"
    using that inv discover_peer_dialable Inr pm
    by (intro update_peer_inv getOrCreatePeer_inv) (auto simp: peer_inv_def)
  then show ?thesis
    using inv Inr pm by (simp add: service_update_def Let_def)
qed

lemma service_update_sel [simp]:
  "mg_opts (fst (service_update now entry m)) = mg_opts m"
  "mg_nodeID (fst (service_update now entry m)) = mg_nodeID m"
  "mg_conns (fst (service_update now entry m)) = mg_conns m"
  "mg_goClose (fst (service_update now entry m)) = mg_goClose m"
  "mg_ctxDone (fst (service_update now entry m)) = mg_ctxDone m"
  by (simp_all add: service_update_def Let_def split: sum.split prod.split)

lemma service_update_dials: "snd (service_update now entry m) = Some p \<Longrightarrow> shouldDial (mg_nodeID m) p"
  by (auto simp: service_update_def Let_def split: sum.splits prod.splits if_splits)

lemma handleServiceEntry_inv [inv_intros]:
  assumes inv: "mesh_inv m"
  shows "mesh_inv (handleServiceEntry now entry m)"
proof -
  obtain m' r where u: "service_update now entry m = (m', r)" by fastforce
  then have "mesh_inv m'" using service_update_inv [OF inv, of now entry] by simp
  moreover have "mesh_inv (ensureDialLoop p m')" if "r = Some p" for p
    using that calculation service_update_dials [of now entry m p] service_update_sel(2) [of now entry m] u
    by (simp add: ensureDialLoop_inv)
  ultimately show ?thesis
    by (auto simp: handleServiceEntry_def u intro: trigger_inv split: option.split)
qed

lemma prune_peer_sel [simp]:
  "ps_id (prune_peer d now ps) = ps_id ps" "ps_conn (prune_peer d now ps) = ps_conn ps"
  "ps_backoff (prune_peer d now ps) = ps_backoff ps"
  "ps_dialLoopStarted (prune_peer d now ps) = ps_dialLoopStarted ps"
  "peer_Connected (ps_peer (prune_peer d now ps)) = peer_Connected (ps_peer ps)"
  by (simp_all add: prune_peer_def)

lemma prune_peer_discovered:
  "ps_discovered (prune_peer d now ps) \<Longrightarrow> prune_peer d now ps = ps \<and> ps_discovered ps"
  by (auto simp: prune_peer_def split: if_splits)

lemma prune_one_inv [inv_intros]:
  "mesh_inv m \<Longrightarrow> mesh_inv (update_peer peerID (prune_peer d now) m)"
  by (rule update_peer_inv) (auto simp: peer_inv_def dest: prune_peer_discovered)

lemma pruneStalePeers_inv [inv_intros]: "mesh_inv m \<Longrightarrow> mesh_inv (pruneStalePeers order now m)"
  unfolding pruneStalePeers_def by (intro fold_mesh_inv prune_one_inv)

section \<open>Dialling\<close>

text \<open>What \<open>prepareDial\<close> does on a well-formed table.\<close>

lemma prepareDial_cases:
  assumes inv: "mesh_inv m"
  obtains (no) "prepareDial peerID m = (m, None)"
      "\<And>ps. fmlookup (mg_peers m) peerID = Some ps \<Longrightarrow>
        ps_conn ps \<noteq> None \<or> \<not> ps_discovered ps \<or> \<not> shouldDial (mg_nodeID m) peerID"
  | (dial) ps delay where "fmlookup (mg_peers m) peerID = Some ps" "ps_conn ps = None"
      "ps_discovered ps" "shouldDial (mg_nodeID m) peerID"
      "delay = (if ps_backoff ps \<le> 0 then o_ReconnectMinBackoff (mg_opts m)
                else min (o_ReconnectMaxBackoff (mg_opts m)) (2 * ps_backoff ps))"
      "0 < delay" "delay \<le> o_ReconnectMaxBackoff (mg_opts m)"
      "prepareDial peerID m =
         (set_peer peerID (ps\<lparr>ps_backoff := delay\<rparr>) m, Some (peerCopyLocked ps, ps_wsPath ps, delay))"
proof (cases "fmlookup (mg_peers m) peerID")
  case None
  then show thesis using no by (simp add: prepareDial_def)
next
  case (Some ps)
  note p = mesh_invD(2) [OF inv Some]
  then have id: "ps_id ps = peerID" by (simp add: peer_inv_def)
  show thesis
  proof (cases "ps_conn ps \<noteq> None \<or> \<not> ps_discovered ps \<or> \<not> shouldDial (mg_nodeID m) peerID")
    case True
    then show thesis using no Some id by (simp add: prepareDial_def)
  next
    case False
    then have "dialable ps" using p by (simp add: peer_inv_def)
    then have d: "peer_Port (ps_peer ps) \<noteq> 0" "length (peer_Addresses (ps_peer ps)) \<noteq> 0"
      "ps_wsPath ps \<noteq> ''''" "ps_proto ps = protocolVersion"
      by (auto simp: dialable_def has_prefix_def)
    have b: "backoff_bounds (o_ReconnectMinBackoff (mg_opts m)) (o_ReconnectMaxBackoff (mg_opts m))"
      using mesh_invD(1) [OF inv] by (simp add: options_ok_def)
    have le: "ps_backoff ps \<le> o_ReconnectMaxBackoff (mg_opts m)"
      using p by (simp add: peer_inv_def)
    define delay where "delay = (if ps_backoff ps \<le> 0 then o_ReconnectMinBackoff (mg_opts m)
        else min (o_ReconnectMaxBackoff (mg_opts m)) (2 * ps_backoff ps))"
    have bump: "bumpBackoff (o_ReconnectMinBackoff (mg_opts m)) (o_ReconnectMaxBackoff (mg_opts m)) ps
        = (ps\<lparr>ps_backoff := delay\<rparr>, delay)"
      by (simp add: bumpBackoff_value [OF b le] Let_def delay_def)
    have "prepareDial peerID m =
        (set_peer peerID (ps\<lparr>ps_backoff := delay\<rparr>) m, Some (peerCopyLocked ps, ps_wsPath ps, delay))"
      using Some False d id by (simp add: prepareDial_def Let_def bump)
    moreover have "0 < delay" "delay \<le> o_ReconnectMaxBackoff (mg_opts m)"
      using bumpBackoff_range(1,2) [OF b le] by (simp_all add: bump)
    ultimately show thesis
      using dial [OF Some] False delay_def by blast
  qed
qed

lemma prepareDial_inv [inv_intros]:
  assumes inv: "mesh_inv m"
  shows "mesh_inv (fst (prepareDial peerID m))"
  using inv
proof (cases rule: prepareDial_cases [of m peerID])
  case (dial ps delay)
  then show ?thesis
    using inv mesh_invD(2) [OF inv dial(1)]
    by (auto simp: peer_inv_def dialable_def intro!: set_peer_inv)
qed (simp add: inv)

lemma resetBackoff_inv [inv_intros]: "mesh_inv m \<Longrightarrow> mesh_inv (update_peer peerID resetBackoff m)"
  using mesh_invD(1) [of m]
  by (intro update_peer_inv)
    (auto simp: peer_inv_def resetBackoff_def dialable_def options_ok_def backoff_bounds_def)

section \<open>A new manager\<close>

lemma or_default_int_pos: "0 < d \<Longrightarrow> 0 < or_default_int v d"
  and or_default_int_le: "0 < d \<Longrightarrow> or_default_int v d \<le> max v d"
  by (simp_all add: or_default_int_def)

lemma defaults_pos:
  "0 < defaultReconnectMinBackoff" "0 < defaultReconnectMaxBackoff" "0 < defaultSendQueueSize"
  "0 < defaultMaxFrameBytes" "0 < defaultPeerStaleAfter" "0 < defaultHeartbeatInterval"
  "0 < defaultPongTimeout" "0 < defaultBrowseCycle"
  by (simp_all add: defaultReconnectMinBackoff_def defaultReconnectMaxBackoff_def
      defaultSendQueueSize_def defaultMaxFrameBytes_def defaultPeerStaleAfter_def
      defaultHeartbeatInterval_def defaultPongTimeout_def defaultBrowseCycle_def)

lemma withDefaults_Inr:
  assumes "withDefaults raw hostname opts = Inr o'"
  shows "0 < o_ReconnectMinBackoff o'" "o_ReconnectMinBackoff o' \<le> o_ReconnectMaxBackoff o'"
    "0 < o_SendQueueSize o'" "0 < o_MaxFrameBytes o'" "0 \<le> o_Port o'" "0 < o_PeerStaleAfter o'"
    "0 < o_HeartbeatInterval o'" "0 < o_PongTimeout o'" "0 < o_BrowseCycle o'"
    "o_ReconnectMaxBackoff o' \<le> max (o_ReconnectMaxBackoff opts) defaultReconnectMaxBackoff"
proof -
  have "o_ReconnectMinBackoff o' = or_default_int (o_ReconnectMinBackoff opts) defaultReconnectMinBackoff
      \<and> o_ReconnectMaxBackoff o' = or_default_int (o_ReconnectMaxBackoff opts) defaultReconnectMaxBackoff
      \<and> o_SendQueueSize o' = or_default_int (o_SendQueueSize opts) defaultSendQueueSize
      \<and> o_MaxFrameBytes o' = or_default_int (o_MaxFrameBytes opts) defaultMaxFrameBytes
      \<and> o_PeerStaleAfter o' = or_default_int (o_PeerStaleAfter opts) defaultPeerStaleAfter
      \<and> o_HeartbeatInterval o' = or_default_int (o_HeartbeatInterval opts) defaultHeartbeatInterval
      \<and> o_PongTimeout o' = or_default_int (o_PongTimeout opts) defaultPongTimeout
      \<and> o_BrowseCycle o' = or_default_int (o_BrowseCycle opts) defaultBrowseCycle
      \<and> o_Port o' = o_Port opts \<and> \<not> o_Port opts < 0
      \<and> \<not> or_default_int (o_ReconnectMaxBackoff opts) defaultReconnectMaxBackoff
          < or_default_int (o_ReconnectMinBackoff opts) defaultReconnectMinBackoff"
    using assms by (auto simp: withDefaults_def Let_def split: if_split_asm sum.split_asm)
  then show "0 < o_ReconnectMinBackoff o'" "o_ReconnectMinBackoff o' \<le> o_ReconnectMaxBackoff o'"
    "0 < o_SendQueueSize o'" "0 < o_MaxFrameBytes o'" "0 \<le> o_Port o'" "0 < o_PeerStaleAfter o'"
    "0 < o_HeartbeatInterval o'" "0 < o_PongTimeout o'" "0 < o_BrowseCycle o'"
    "o_ReconnectMaxBackoff o' \<le> max (o_ReconnectMaxBackoff opts) defaultReconnectMaxBackoff"
    by (simp_all add: or_default_int_pos or_default_int_le defaults_pos)
qed

lemma withDefaults_names:
  assumes "withDefaults raw hostname opts = Inr o'"
  shows "o_ServiceName o' = or_default_string (o_ServiceName opts) defaultServiceName"
    "o_Domain o' = or_default_string (o_Domain opts) defaultDomain"
    "o_WebSocketPath o' = or_default_string (o_WebSocketPath opts) defaultWebSocketPath"
  using assms by (auto simp: withDefaults_def Let_def split: if_split_asm sum.split_asm)

lemma withDefaults_options_ok:
  assumes "withDefaults raw hostname opts = Inr o'" and "o_ReconnectMaxBackoff opts < 2 ^ 62"
  shows "options_ok o'"
  using withDefaults_Inr [OF assms(1)] assms(2)
  by (simp add: options_ok_def backoff_bounds_def defaultReconnectMaxBackoff_def)

lemma NewManager_Inr:
  assumes "NewManager raw hostname opts handler_nil = Inr m"
  shows "withDefaults raw hostname opts = Inr (mg_opts m)" "mg_peers m = fmempty"
    "mg_conns m = fmempty" "mg_goClose m = []" "\<not> mg_started m" "\<not> mg_ctxDone m"
    "mg_nodeID m = o_NodeID (mg_opts m)"
  using assms by (auto simp: NewManager_def split: if_splits sum.splits)

lemma NewManager_inv:
  assumes "NewManager raw hostname opts handler_nil = Inr m" and "o_ReconnectMaxBackoff opts < 2 ^ 62"
  shows "mesh_inv m"
  using withDefaults_options_ok [OF NewManager_Inr(1) [OF assms(1)] assms(2)]
  by (simp add: mesh_inv_def NewManager_Inr [OF assms(1)])

lemma Start_inv [inv_intros]: "mesh_inv m \<Longrightarrow> mesh_inv (fst (Start listen m))"
  by (auto simp: Start_def mesh_inv_def attached_def scheduled_def split: option.split)

end
