(* ===== verification/MeshSystem.thy ===== *)
theory MeshSystem
  imports MeshInv
begin

text \<open>
  The mesh manager as a system of goroutines: the discovery loops, the HTTP handlers, the pumps
  of every connection, the closes left to goroutines of their own, the senders, and one dial
  loop per peer (\<open>dialLoop\<close> of \<open>discovery.go\<close>).

  One step is one critical section or channel operation. What a goroutine still has to do after
  it has released a lock is kept in the state and done by a later step, so that everything else
  may happen in between: the wake-ups (\<open>triggerReconnect\<close>) that follow a lost connection or a
  service entry, the \<open>ensureDialLoop\<close> that follows an update of the peer table, and the closes
  that follow the loss, the refusal or the replacement of a connection. A dial is two steps,
  \<open>prepareDial\<close> and the outcome of \<open>dialPeer\<close>. Coarser than the critical sections are two steps:
  what \<open>handleWebSocket\<close> does to the tables (the peer's entry, its name, \<open>attachConnection\<close>, the
  close of a refused connection) is one, and so is what \<open>dialPeer\<close> does after the answer. \<open>Send\<close> and \<open>Broadcast\<close> are sequences of single
  enqueues, to connections that may have been replaced since they were looked up.
\<close>

section \<open>States and steps\<close>

text \<open>
  Where a dial loop stands: blocked on the outer \<open>select\<close>, at the head of the inner loop, in
  \<open>dialPeer\<close> with what \<open>prepareDial\<close> returned, in the inner \<open>select\<close> with a timer, or returned.
\<close>

datatype dial_pc =
    DialIdle
  | DialReady
  | DialCalling Peer string duration
  | DialWaiting duration
  | DialEnded

text \<open>
  The manager's tables, the dial loops, the peers for which a service entry is about to call
  \<open>ensureDialLoop\<close>, and those for which some goroutine is about to call \<open>triggerReconnect\<close>.
\<close>

record MeshState =
  ms_mgr :: Manager
  ms_loops :: "(string, dial_pc) fmap"
  ms_ensures :: "string list"
  ms_wakes :: "string list"

definition initial_state :: "Manager \<Rightarrow> MeshState" where
  "initial_state m = \<lparr>ms_mgr = m, ms_loops = fmempty, ms_ensures = [], ms_wakes = []\<rparr>"

text \<open>\<open>go m.dialLoop(ps)\<close>: what \<open>ensureDialLoop\<close> starts when it sets the flag.\<close>

definition loop_started :: "Manager \<Rightarrow> string \<Rightarrow> bool" where
  "loop_started m peerID =
     (case fmlookup (mg_peers m) peerID of None \<Rightarrow> False | Some ps \<Rightarrow> ps_dialLoopStarted ps)"

definition ensure_step :: "string \<Rightarrow> MeshState \<Rightarrow> MeshState" where
  "ensure_step peerID s =
     s\<lparr>ms_mgr := ensureDialLoop peerID (ms_mgr s),
       ms_loops := (if loop_started (ms_mgr s) peerID then ms_loops s
                    else fmupd peerID DialIdle (ms_loops s)),
       ms_wakes := peerID # ms_wakes s\<rparr>"

definition with_call :: "string option \<Rightarrow> string list \<Rightarrow> string list" where
  "with_call r calls = (case r of None \<Rightarrow> calls | Some peerID \<Rightarrow> peerID # calls)"

definition set_loop :: "string \<Rightarrow> dial_pc \<Rightarrow> Manager \<Rightarrow> MeshState \<Rightarrow> MeshState" where
  "set_loop peerID pc m s = s\<lparr>ms_mgr := m, ms_loops := fmupd peerID pc (ms_loops s)\<rparr>"

definition take_signal :: "peerState \<Rightarrow> peerState" where
  "take_signal ps = ps\<lparr>ps_reconnectCh := False\<rparr>"

definition signalled :: "Manager \<Rightarrow> string \<Rightarrow> bool" where
  "signalled m peerID =
     (case fmlookup (mg_peers m) peerID of None \<Rightarrow> False | Some ps \<Rightarrow> ps_reconnectCh ps)"

inductive mesh_step :: "MeshState \<Rightarrow> MeshState \<Rightarrow> bool" where
  start: "mesh_step s (s\<lparr>ms_mgr := fst (Start listen (ms_mgr s))\<rparr>)"
| create: "peerID \<noteq> mg_nodeID (ms_mgr s) \<Longrightarrow>
    mesh_step s (s\<lparr>ms_mgr := getOrCreatePeer peerID (ms_mgr s)\<rparr>)"
| service: "service_update now entry (ms_mgr s) = (m', r) \<Longrightarrow>
    mesh_step s (s\<lparr>ms_mgr := m', ms_ensures := with_call r (ms_ensures s)\<rparr>)"
| ensure: "ms_ensures s = xs @ peerID # ys \<Longrightarrow>
    mesh_step s ((ensure_step peerID s)\<lparr>ms_ensures := xs @ ys\<rparr>)"
| wake: "ms_wakes s = xs @ peerID # ys \<Longrightarrow>
    mesh_step s (s\<lparr>ms_mgr := update_peer peerID triggerReconnect (ms_mgr s), ms_wakes := xs @ ys\<rparr>)"
| prune: "mesh_step s (s\<lparr>ms_mgr :=
      update_peer peerID (prune_peer (o_PeerStaleAfter (mg_opts (ms_mgr s))) now) (ms_mgr s)\<rparr>)"
| inbound: "fmlookup (mg_conns (ms_mgr s)) cid = None \<Longrightarrow>
    mesh_step s (s\<lparr>ms_mgr := fst (handleWebSocket r upgraded cid (ms_mgr s))\<rparr>)"
| pump_ends: "fmlookup (mg_conns (ms_mgr s)) cid = Some c \<Longrightarrow> mc_started c \<Longrightarrow>
    pump_drop cid reason (ms_mgr s) = (m', r) \<Longrightarrow>
    mesh_step s (s\<lparr>ms_mgr := m', ms_wakes := with_call r (ms_wakes s)\<rparr>)"
| go_close: "mg_goClose (ms_mgr s) = xs @ (cid, reason) # ys \<Longrightarrow>
    mesh_step s (s\<lparr>ms_mgr := (close_cid cid reason (ms_mgr s))\<lparr>mg_goClose := xs @ ys\<rparr>\<rparr>)"
| enqueue: "int (length frame) \<le> o_MaxFrameBytes (mg_opts (ms_mgr s)) \<Longrightarrow>
    mesh_step s (s\<lparr>ms_mgr := fst (enqueue_to pick ctx_err cid frame (ms_mgr s))\<rparr>)"
| write_frame: "fmlookup (mg_conns (ms_mgr s)) cid = Some c \<Longrightarrow> mc_started c \<Longrightarrow>
    writePump_frame c = Some (frame, c') \<Longrightarrow>
    mesh_step s (s\<lparr>ms_mgr := set_conn cid c' (ms_mgr s)\<rparr>)"
| cancel: "mesh_step s (s\<lparr>ms_mgr := cancel_ctx (ms_mgr s)\<rparr>)"
| shutdown_close: "mg_ctxDone (ms_mgr s) \<Longrightarrow>
    mesh_step s (s\<lparr>ms_mgr := close_cid cid ''manager shutting down'' (ms_mgr s)\<rparr>)"
| dial_wake: "fmlookup (ms_loops s) peerID = Some DialIdle \<Longrightarrow> signalled (ms_mgr s) peerID \<Longrightarrow>
    mesh_step s (set_loop peerID DialReady (update_peer peerID take_signal (ms_mgr s)) s)"
| dial_end: "fmlookup (ms_loops s) peerID = Some pc \<Longrightarrow>
    pc = DialIdle \<or> (\<exists>delay. pc = DialWaiting delay) \<Longrightarrow> mg_ctxDone (ms_mgr s) \<Longrightarrow>
    mesh_step s (set_loop peerID DialEnded (ms_mgr s) s)"
| dial_none: "fmlookup (ms_loops s) peerID = Some DialReady \<Longrightarrow>
    prepareDial peerID (ms_mgr s) = (m', None) \<Longrightarrow>
    mesh_step s (set_loop peerID DialIdle m' s)"
| dial_go: "fmlookup (ms_loops s) peerID = Some DialReady \<Longrightarrow>
    prepareDial peerID (ms_mgr s) = (m', Some (peer, wsPath, delay)) \<Longrightarrow>
    mesh_step s (set_loop peerID (DialCalling peer wsPath delay) m' s)"
| dial_ok: "fmlookup (ms_loops s) peerID = Some (DialCalling peer wsPath delay) \<Longrightarrow>
    fmlookup (mg_conns (ms_mgr s)) cid = None \<Longrightarrow>
    dialPeer dialer peerID peer wsPath cid (ms_mgr s) = (m', None) \<Longrightarrow>
    mesh_step s (set_loop peerID DialIdle (update_peer peerID resetBackoff m') s)"
| dial_failed: "fmlookup (ms_loops s) peerID = Some (DialCalling peer wsPath delay) \<Longrightarrow>
    fmlookup (mg_conns (ms_mgr s)) cid = None \<Longrightarrow>
    dialPeer dialer peerID peer wsPath cid (ms_mgr s) = (m', Some e) \<Longrightarrow>
    mesh_step s (set_loop peerID (DialWaiting delay) m' s)"
| dial_kick: "fmlookup (ms_loops s) peerID = Some (DialWaiting delay) \<Longrightarrow>
    signalled (ms_mgr s) peerID \<Longrightarrow>
    mesh_step s (set_loop peerID DialReady (update_peer peerID take_signal (ms_mgr s)) s)"
| dial_timer: "fmlookup (ms_loops s) peerID = Some (DialWaiting delay) \<Longrightarrow>
    mesh_step s (set_loop peerID DialReady (ms_mgr s) s)"

inductive mesh_reachable :: "Manager \<Rightarrow> MeshState \<Rightarrow> bool" for m0 where
  init: "mesh_reachable m0 (initial_state m0)"
| step: "mesh_reachable m0 s \<Longrightarrow> mesh_step s s' \<Longrightarrow> mesh_reachable m0 s'"

section \<open>The invariant of the system\<close>

definition loop_inv :: "Options \<Rightarrow> string \<Rightarrow> dial_pc \<Rightarrow> bool" where
  "loop_inv opts peerID pc =
     (case pc of
        DialCalling peer wsPath delay \<Rightarrow>
          peer_ID peer = peerID \<and> has_prefix ''/'' wsPath \<and> peer_Addresses peer \<noteq> []
          \<and> 0 < delay \<and> delay \<le> o_ReconnectMaxBackoff opts
      | DialWaiting delay \<Rightarrow> 0 < delay \<and> delay \<le> o_ReconnectMaxBackoff opts
      | _ \<Rightarrow> True)"

text \<open>
  What is owed to a peer: a discovered peer this node should dial has a dial loop, or one is
  about to be started; and its loop does not sleep while the peer has no connection unless its
  wake-up signal is set or about to be set.
\<close>

definition wake_inv :: "string \<Rightarrow> string \<Rightarrow> peerState \<Rightarrow> dial_pc option \<Rightarrow> bool \<Rightarrow> bool \<Rightarrow> bool" where
  "wake_inv nodeID peerID ps loop ensure wake \<longleftrightarrow>
     (ps_dialLoopStarted ps \<longleftrightarrow> loop \<noteq> None)
     \<and> (ps_discovered ps \<and> shouldDial nodeID peerID \<longrightarrow> ps_dialLoopStarted ps \<or> ensure)
     \<and> (loop = Some DialIdle \<and> ps_discovered ps \<and> ps_conn ps = None \<longrightarrow>
          ps_reconnectCh ps \<or> ensure \<or> wake)"

abbreviation owed :: "MeshState \<Rightarrow> string \<Rightarrow> peerState \<Rightarrow> bool" where
  "owed s p ps \<equiv> wake_inv (mg_nodeID (ms_mgr s)) p ps (fmlookup (ms_loops s) p)
     (p \<in> set (ms_ensures s)) (p \<in> set (ms_wakes s))"

definition system_inv :: "MeshState \<Rightarrow> bool" where
  "system_inv s \<longleftrightarrow>
     mesh_inv (ms_mgr s)
     \<and> (\<forall>peerID pc. fmlookup (ms_loops s) peerID = Some pc \<longrightarrow>
          fmlookup (mg_peers (ms_mgr s)) peerID \<noteq> None
          \<and> loop_inv (mg_opts (ms_mgr s)) peerID pc
          \<and> (pc = DialEnded \<longrightarrow> mg_ctxDone (ms_mgr s)))
     \<and> (\<forall>peerID ps. fmlookup (mg_peers (ms_mgr s)) peerID = Some ps \<longrightarrow> owed s peerID ps)
     \<and> (\<forall>peerID \<in> set (ms_ensures s).
          fmlookup (mg_peers (ms_mgr s)) peerID \<noteq> None \<and> shouldDial (mg_nodeID (ms_mgr s)) peerID)"

lemma system_invD:
  assumes "system_inv s"
  shows "mesh_inv (ms_mgr s)"
    and "\<And>peerID pc. fmlookup (ms_loops s) peerID = Some pc \<Longrightarrow>
      fmlookup (mg_peers (ms_mgr s)) peerID \<noteq> None \<and> loop_inv (mg_opts (ms_mgr s)) peerID pc
      \<and> (pc = DialEnded \<longrightarrow> mg_ctxDone (ms_mgr s))"
    and "\<And>peerID ps. fmlookup (mg_peers (ms_mgr s)) peerID = Some ps \<Longrightarrow>
      owed s peerID ps"
    and "\<And>peerID. peerID \<in> set (ms_ensures s) \<Longrightarrow>
      fmlookup (mg_peers (ms_mgr s)) peerID \<noteq> None \<and> shouldDial (mg_nodeID (ms_mgr s)) peerID"
  using assms unfolding system_inv_def by blast+

section \<open>Operations that leave the dial loops in peace\<close>

text \<open>
  What a manager operation may do to a peer without breaking what is owed to it: it may
  forget the peer, set the signal, or attach a connection.
\<close>

definition calm :: "peerState \<Rightarrow> peerState \<Rightarrow> bool" where
  "calm ps ps' \<longleftrightarrow>
     ps_id ps' = ps_id ps \<and> ps_dialLoopStarted ps' = ps_dialLoopStarted ps
     \<and> (ps_discovered ps' \<longrightarrow> ps_discovered ps)
     \<and> (ps_reconnectCh ps \<longrightarrow> ps_reconnectCh ps')
     \<and> (ps_conn ps \<noteq> None \<longrightarrow> ps_conn ps' \<noteq> None)"

definition quiet :: "Manager \<Rightarrow> Manager \<Rightarrow> bool" where
  "quiet m m' \<longleftrightarrow>
     mg_opts m' = mg_opts m \<and> mg_nodeID m' = mg_nodeID m \<and> (mg_ctxDone m \<longrightarrow> mg_ctxDone m')
     \<and> (\<forall>p ps. fmlookup (mg_peers m) p = Some ps \<longrightarrow>
          (\<exists>ps'. fmlookup (mg_peers m') p = Some ps' \<and> calm ps ps'))
     \<and> (\<forall>p ps'. fmlookup (mg_peers m) p = None \<longrightarrow> fmlookup (mg_peers m') p = Some ps' \<longrightarrow>
          \<not> ps_dialLoopStarted ps' \<and> \<not> ps_discovered ps')"

named_theorems quiet_intros

lemma calm_refl [simp]: "calm ps ps"
  by (auto simp: calm_def)

lemma calm_trans: "calm a b \<Longrightarrow> calm b c \<Longrightarrow> calm a c"
  unfolding calm_def by auto

lemma quiet_refl [quiet_intros]: "quiet m m"
  by (simp add: quiet_def)

lemma quietD:
  assumes "quiet m m'"
  shows "mg_opts m' = mg_opts m" "mg_nodeID m' = mg_nodeID m" "mg_ctxDone m \<Longrightarrow> mg_ctxDone m'"
    and "\<And>p ps. fmlookup (mg_peers m) p = Some ps \<Longrightarrow>
      \<exists>ps'. fmlookup (mg_peers m') p = Some ps' \<and> calm ps ps'"
    and "\<And>p ps'. fmlookup (mg_peers m) p = None \<Longrightarrow> fmlookup (mg_peers m') p = Some ps' \<Longrightarrow>
      \<not> ps_dialLoopStarted ps' \<and> \<not> ps_discovered ps'"
  using assms unfolding quiet_def by blast+

lemma quiet_trans:
  assumes ab: "quiet a b" and bc: "quiet b c"
  shows "quiet a c"
proof -
  have "\<exists>ps''. fmlookup (mg_peers c) p = Some ps'' \<and> calm ps ps''"
    if "fmlookup (mg_peers a) p = Some ps" for p ps
    using quietD(4) [OF ab that] quietD(4) [OF bc] quietD(2) [OF ab] calm_trans by fastforce
  moreover have "\<not> ps_dialLoopStarted ps'' \<and> \<not> ps_discovered ps''"
    if "fmlookup (mg_peers a) p = None" "fmlookup (mg_peers c) p = Some ps''" for p ps''
  proof (cases "fmlookup (mg_peers b) p")
    case None
    then show ?thesis using quietD(5) [OF bc] that by blast
  next
    case (Some ps')
    then show ?thesis
      using quietD(5) [OF ab that(1) Some] quietD(4) [OF bc Some] that(2) by (auto simp: calm_def)
  qed
  ultimately show ?thesis
    using quietD(1-3) [OF ab] quietD(1-3) [OF bc] by (auto simp: quiet_def)
qed

lemma quiet_peers:
  assumes "mg_peers m' = mg_peers m" "mg_opts m' = mg_opts m" "mg_nodeID m' = mg_nodeID m"
    "mg_ctxDone m \<longrightarrow> mg_ctxDone m'"
  shows "quiet m m'"
  using assms by (auto simp: quiet_def)

lemma quiet_set_peer:
  assumes "fmlookup (mg_peers m) p = Some ps" and "calm ps ps'"
  shows "quiet m (set_peer p ps' m)"
  using assms by (auto simp: quiet_def)

lemma quiet_update [quiet_intros]:
  "(\<And>ps. calm ps (f ps)) \<Longrightarrow> quiet m (update_peer p f m)"
  by (auto simp: update_peer_def intro: quiet_set_peer quiet_refl split: option.split)

lemma quiet_getOrCreate [quiet_intros]: "quiet m (getOrCreatePeer p m)"
  by (auto simp: quiet_def new_peerState_def split: option.splits if_splits)

lemma quiet_close_cid [quiet_intros]: "quiet m (close_cid i r m)"
  by (rule quiet_peers) simp_all

lemma quiet_enqueue [quiet_intros]: "quiet m (fst (enqueue_to pick e cid frame m))"
  by (auto simp: enqueue_to_def case_prod_unfold intro!: quiet_peers split: option.split)

lemma broadcast_loop_tables:
  "mg_peers (fst (broadcast_loop pick e frame order m errs)) = mg_peers m
   \<and> mg_opts (fst (broadcast_loop pick e frame order m errs)) = mg_opts m
   \<and> mg_nodeID (fst (broadcast_loop pick e frame order m errs)) = mg_nodeID m
   \<and> mg_ctxDone (fst (broadcast_loop pick e frame order m errs)) = mg_ctxDone m"
proof (induction order arbitrary: m errs)
  case (Cons p order)
  have "mg_peers (fst (enqueue_to i e cid frame m)) = mg_peers m
      \<and> mg_opts (fst (enqueue_to i e cid frame m)) = mg_opts m
      \<and> mg_nodeID (fst (enqueue_to i e cid frame m)) = mg_nodeID m
      \<and> mg_ctxDone (fst (enqueue_to i e cid frame m)) = mg_ctxDone m" for i cid
    by (simp add: enqueue_to_def case_prod_unfold split: option.split)
  then show ?case
    using Cons.IH by (auto split: option.split prod.split) (metis fst_conv)+
qed simp

definition has_conn :: "Manager \<Rightarrow> string \<Rightarrow> bool" where
  "has_conn m p = (case fmlookup (mg_peers m) p of None \<Rightarrow> False | Some ps \<Rightarrow> ps_conn ps \<noteq> None)"

lemma quiet_attach:
  assumes inv: "mesh_inv m" and ps: "fmlookup (mg_peers m) p = Some ps"
  shows "quiet m (attach_or_close p cid conn m)"
    and "has_conn (attach_or_close p cid conn m) p"
proof -
  have name: "calm ps (name_peer conn ps)"
    and install: "calm ps (install_conn cid (name_peer conn ps))"
    by (auto simp: calm_def name_peer_def install_conn_def Let_def)
  show "quiet m (attach_or_close p cid conn m)"
  proof (cases rule: attach_cases [OF inv ps, of cid conn])
    case 1
    then show ?thesis
      using quiet_set_peer [OF ps install] by (auto simp: attach_or_close_def quiet_def)
  next
    case 2
    then show ?thesis
      using quiet_set_peer [OF ps install] by (auto simp: attach_or_close_def quiet_def Let_def)
  next
    case 3
    then show ?thesis
      using quiet_set_peer [OF ps name] by (auto simp: attach_or_close_def quiet_def)
  qed
  show "has_conn (attach_or_close p cid conn m) p"
    by (cases rule: attach_cases [OF inv ps, of cid conn])
      (simp_all add: attach_or_close_def has_conn_def Let_def)
qed

lemma quiet_handleWebSocket:
  assumes inv: "mesh_inv m"
  shows "quiet m (fst (handleWebSocket r upgraded cid m))"
proof (cases "wr_nodeID r = mg_nodeID m")
  case True
  then show ?thesis by (simp add: handleWebSocket_def quiet_refl)
next
  case False
  let ?rename = "\<lambda>ps. if wr_nodeName r \<noteq> ''''
      then ps\<lparr>ps_peer := (ps_peer ps)\<lparr>peer_Name := wr_nodeName r\<rparr>\<rparr> else ps"
  let ?m = "update_peer (wr_nodeID r) ?rename (getOrCreatePeer (wr_nodeID r) m)"
  have inv': "mesh_inv ?m"
    using False inv by (intro update_peer_inv getOrCreatePeer_inv) (auto intro: peer_inv_rename)
  obtain ps where ps: "fmlookup (mg_peers ?m) (wr_nodeID r) = Some ps"
    by (cases "fmlookup (mg_peers m) (wr_nodeID r)") simp_all
  have "quiet (getOrCreatePeer (wr_nodeID r) m) ?m"
    by (rule quiet_update) (auto simp: calm_def)
  then have "quiet m (attach_or_close (wr_nodeID r) cid conn ?m)" for conn
    by (rule quiet_trans [OF quiet_trans [OF quiet_getOrCreate] quiet_attach(1) [OF inv' ps]])
  then show ?thesis
    by (simp add: handleWebSocket_def Let_def quiet_refl)
qed

lemma dial_loop_outcome:
  assumes "mesh_inv m" "fmlookup (mg_peers m) p = Some ps"
  shows "quiet m (fst (dial_loop dialer p peer wsPath cid addrs lastErr m))
    \<and> (snd (dial_loop dialer p peer wsPath cid addrs lastErr m) = None \<longrightarrow>
         has_conn (fst (dial_loop dialer p peer wsPath cid addrs lastErr m)) p)"
  using assms
  by (induction dialer p peer wsPath cid addrs lastErr m rule: dial_loop.induct)
    (simp_all add: Let_def quiet_refl quiet_attach split: dial_result.split prod.split)

lemma quiet_prune [quiet_intros]: "quiet m (update_peer p (prune_peer d now) m)"
  by (rule quiet_update) (auto simp: calm_def prune_peer_def)

lemma quiet_resetBackoff [quiet_intros]: "quiet m (update_peer p resetBackoff m)"
  by (rule quiet_update) (auto simp: calm_def resetBackoff_def)

lemma quiet_prepareDial:
  assumes "mesh_inv m"
  shows "quiet m (fst (prepareDial p m))"
  using assms
proof (cases rule: prepareDial_cases [of m p])
  case (dial ps delay)
  then show ?thesis by (auto simp: calm_def intro: quiet_set_peer)
qed (simp add: quiet_refl)

lemma quiet_Start [quiet_intros]: "quiet m (fst (Start listen m))"
  by (auto simp: Start_def intro: quiet_peers split: option.split)

lemma quiet_cancel [quiet_intros]: "quiet m (cancel_ctx m)"
  by (rule quiet_peers) simp_all

section \<open>Every step keeps the invariant\<close>

text \<open>Every change of the state changes the peers, the loops and the pending calls; this is what is
left to show of such a change.\<close>

lemma system_invI:
  assumes "mesh_inv (ms_mgr s)"
    and "\<And>p pc. fmlookup (ms_loops s) p = Some pc \<Longrightarrow>
      fmlookup (mg_peers (ms_mgr s)) p \<noteq> None \<and> loop_inv (mg_opts (ms_mgr s)) p pc
      \<and> (pc = DialEnded \<longrightarrow> mg_ctxDone (ms_mgr s))"
    and "\<And>p ps. fmlookup (mg_peers (ms_mgr s)) p = Some ps \<Longrightarrow> owed s p ps"
    and "\<And>p. p \<in> set (ms_ensures s) \<Longrightarrow>
      fmlookup (mg_peers (ms_mgr s)) p \<noteq> None \<and> shouldDial (mg_nodeID (ms_mgr s)) p"
  shows "system_inv s"
  using assms unfolding system_inv_def by blast

lemma wake_inv_calm:
  "wake_inv n p ps loop e w \<Longrightarrow> calm ps ps' \<Longrightarrow> wake_inv n p ps' loop e w"
  unfolding wake_inv_def calm_def by blast

lemma system_inv_quiet:
  assumes inv: "system_inv s" and m': "mesh_inv m'" and q: "quiet (ms_mgr s) m'"
  shows "system_inv (s\<lparr>ms_mgr := m'\<rparr>)"
proof (rule system_invI)
  fix p ps' assume ps': "fmlookup (mg_peers (ms_mgr (s\<lparr>ms_mgr := m'\<rparr>))) p = Some ps'"
  show "owed (s\<lparr>ms_mgr := m'\<rparr>) p ps'"
  proof (cases "fmlookup (mg_peers (ms_mgr s)) p")
    case None
    then have "fmlookup (ms_loops s) p = None"
      using system_invD(2) [OF inv, of p] by (cases "fmlookup (ms_loops s) p") auto
    then show ?thesis
      using quietD(5) [OF q None] ps' by (simp add: wake_inv_def)
  next
    case (Some ps)
    then have "calm ps ps'" using quietD(4) [OF q Some] ps' by simp
    then show ?thesis
      using wake_inv_calm [OF system_invD(3) [OF inv Some]] quietD(2) [OF q] by simp
  qed
next
  fix p pc assume "fmlookup (ms_loops (s\<lparr>ms_mgr := m'\<rparr>)) p = Some pc"
  then have "fmlookup (mg_peers (ms_mgr s)) p \<noteq> None" "loop_inv (mg_opts (ms_mgr s)) p pc"
    "pc = DialEnded \<longrightarrow> mg_ctxDone (ms_mgr s)"
    using system_invD(2) [OF inv] by simp_all
  then show "fmlookup (mg_peers (ms_mgr (s\<lparr>ms_mgr := m'\<rparr>))) p \<noteq> None
      \<and> loop_inv (mg_opts (ms_mgr (s\<lparr>ms_mgr := m'\<rparr>))) p pc
      \<and> (pc = DialEnded \<longrightarrow> mg_ctxDone (ms_mgr (s\<lparr>ms_mgr := m'\<rparr>)))"
    using quietD(1,3,4) [OF q] by auto
next
  fix p assume "p \<in> set (ms_ensures (s\<lparr>ms_mgr := m'\<rparr>))"
  then have "fmlookup (mg_peers (ms_mgr s)) p \<noteq> None \<and> shouldDial (mg_nodeID (ms_mgr s)) p"
    using system_invD(4) [OF inv] by simp
  then show "fmlookup (mg_peers (ms_mgr (s\<lparr>ms_mgr := m'\<rparr>))) p \<noteq> None
      \<and> shouldDial (mg_nodeID (ms_mgr (s\<lparr>ms_mgr := m'\<rparr>))) p"
    using quietD(2,4) [OF q] by auto
qed (simp add: m')

lemma set_loop_mgr: "set_loop p pc m' s = (set_loop p pc (ms_mgr s) s)\<lparr>ms_mgr := m'\<rparr>"
  by (cases s) (simp add: set_loop_def)

lemma set_loop_sel [simp]:
  "ms_mgr (set_loop p pc m s) = m" "ms_ensures (set_loop p pc m s) = ms_ensures s"
  "ms_wakes (set_loop p pc m s) = ms_wakes s"
  "fmlookup (ms_loops (set_loop p pc m s)) q = (if q = p then Some pc else fmlookup (ms_loops s) q)"
  by (simp_all add: set_loop_def)

lemma system_inv_set_loop:
  assumes inv: "system_inv s" and loop: "fmlookup (ms_loops s) p = Some pc0"
    and pc: "loop_inv (mg_opts (ms_mgr s)) p pc" "pc = DialEnded \<longrightarrow> mg_ctxDone (ms_mgr s)"
    and idle: "\<And>ps. pc = DialIdle \<Longrightarrow> fmlookup (mg_peers (ms_mgr s)) p = Some ps \<Longrightarrow>
      ps_discovered ps \<Longrightarrow> ps_conn ps = None \<Longrightarrow> ps_reconnectCh ps"
  shows "system_inv (set_loop p pc (ms_mgr s) s)"
proof (rule system_invI)
  fix q ps assume ps: "fmlookup (mg_peers (ms_mgr (set_loop p pc (ms_mgr s) s))) q = Some ps"
  then have "owed s q ps" using system_invD(3) [OF inv] by simp
  then show "owed (set_loop p pc (ms_mgr s) s) q ps"
    using loop idle ps by (auto simp: wake_inv_def)
qed (use system_invD(1) [OF inv] system_invD(2) [OF inv] system_invD(4) [OF inv] loop pc in \<open>auto split: if_splits\<close>)

lemma system_inv_take_signal:
  assumes inv: "system_inv s" and loop: "fmlookup (ms_loops s) p = Some pc" and "pc \<noteq> DialIdle"
  shows "system_inv (s\<lparr>ms_mgr := update_peer p take_signal (ms_mgr s)\<rparr>)"
proof (rule system_invI)
  have "mesh_inv (update_peer p take_signal (ms_mgr s))"
    using system_invD(1) [OF inv]
    by (rule update_peer_inv) (simp add: take_signal_def peer_inv_def dialable_def)
  then show "mesh_inv (ms_mgr (s\<lparr>ms_mgr := update_peer p take_signal (ms_mgr s)\<rparr>))" by simp
next
  fix q ps' assume "fmlookup (mg_peers (ms_mgr (s\<lparr>ms_mgr := update_peer p take_signal (ms_mgr s)\<rparr>))) q = Some ps'"
  then obtain ps where ps: "fmlookup (mg_peers (ms_mgr s)) q = Some ps" "ps' = (if q = p then take_signal ps else ps)"
    by (auto split: if_splits)
  then show "owed (s\<lparr>ms_mgr := update_peer p take_signal (ms_mgr s)\<rparr>) q ps'"
    using system_invD(3) [OF inv ps(1)] loop assms(3) by (auto simp: wake_inv_def take_signal_def)
qed (use system_invD(2) [OF inv] system_invD(4) [OF inv] in \<open>auto split: if_splits\<close>)

subsection \<open>Service entries and wake-ups\<close>

lemma started_again: "ps_dialLoopStarted ps \<Longrightarrow> ps\<lparr>ps_dialLoopStarted := True\<rparr> = ps"
  by (cases ps) simp

lemma ensureDialLoop_eq:
  "ensureDialLoop p m = update_peer p (\<lambda>ps. ps\<lparr>ps_dialLoopStarted := True\<rparr>) m"
  by (auto simp: ensureDialLoop_def update_peer_def started_again split: option.split)

lemma in_with_call [simp]: "p \<in> set (with_call r calls) \<longleftrightarrow> r = Some p \<or> p \<in> set calls"
  by (auto simp: with_call_def split: option.split)

text \<open>What a service entry leaves in the peer table, and what is left to be done.\<close>

lemma service_update_cases:
  obtains (ignored) "service_update now entry m = (m, None)"
  | (found) peer meta where "peerFromEntry now entry = Inr (peer, meta)" "peer_ID peer \<noteq> mg_nodeID m"
      "\<And>q. fmlookup (mg_peers (fst (service_update now entry m))) q =
         (if q = peer_ID peer
          then Some (discover_peer peer meta
                 (case fmlookup (mg_peers m) q of Some ps \<Rightarrow> ps | None \<Rightarrow> new_peerState q))
          else fmlookup (mg_peers m) q)"
      "snd (service_update now entry m) =
         (if shouldDial (mg_nodeID m) (peer_ID peer) then Some (peer_ID peer) else None)"
proof (cases "\<exists>peer meta. peerFromEntry now entry = Inr (peer, meta) \<and> peer_ID peer \<noteq> mg_nodeID m")
  case False
  then have "service_update now entry m = (m, None)"
    by (auto simp: service_update_def split: sum.split prod.split)
  then show ?thesis by (rule ignored)
next
  case True
  then obtain peer meta where e: "peerFromEntry now entry = Inr (peer, meta)" "peer_ID peer \<noteq> mg_nodeID m"
    by blast
  show ?thesis
    by (rule found [OF e]) (simp_all add: service_update_def e Let_def split: option.split)
qed

lemma handleServiceEntry_lookup:
  assumes "peerFromEntry now entry = Inr (peer, meta)" and "peer_ID peer \<noteq> mg_nodeID m"
  shows "fmlookup (mg_peers (handleServiceEntry now entry m)) q =
    (if q = peer_ID peer
     then let ps = discover_peer peer meta
                (case fmlookup (mg_peers m) q of Some ps \<Rightarrow> ps | None \<Rightarrow> new_peerState q)
          in Some (if shouldDial (mg_nodeID m) q
                   then triggerReconnect (ps\<lparr>ps_dialLoopStarted := True\<rparr>) else ps)
     else fmlookup (mg_peers m) q)"
  using assms
  by (auto simp: handleServiceEntry_def service_update_def ensureDialLoop_eq Let_def split: option.split)

lemma handleServiceEntry_frame [simp]:
  "mg_opts (handleServiceEntry now entry m) = mg_opts m"
  "mg_nodeID (handleServiceEntry now entry m) = mg_nodeID m"
  by (simp_all add: handleServiceEntry_def service_update_def ensureDialLoop_def Let_def split: sum.split prod.split)

lemma service_inv:
  assumes inv: "system_inv s" and u: "service_update now entry (ms_mgr s) = (m', r)"
  shows "system_inv (s\<lparr>ms_mgr := m', ms_ensures := with_call r (ms_ensures s)\<rparr>)" (is "system_inv ?s")
proof (cases rule: service_update_cases [of now entry "ms_mgr s"])
  case ignored
  then show ?thesis using inv u by (simp add: with_call_def)
next
  case (found peer meta)
  let ?p = "peer_ID peer"
  have m': "m' = fst (service_update now entry (ms_mgr s))" and r: "r = snd (service_update now entry (ms_mgr s))"
    using u by simp_all
  note look = found(3) [folded m'] and frame = service_update_sel [of now entry "ms_mgr s", folded m']
  show ?thesis
  proof (rule system_invI)
    show "mesh_inv (ms_mgr ?s)" using service_update_inv [OF system_invD(1) [OF inv]] by (simp add: m')
  next
    fix q ps' assume ps': "fmlookup (mg_peers (ms_mgr ?s)) q = Some ps'"
    show "owed ?s q ps'"
    proof (cases "q = ?p")
      case False
      then show ?thesis using system_invD(3) [OF inv, of q ps'] ps' by (auto simp: look frame wake_inv_def)
    next
      case True
      let ?ps = "case fmlookup (mg_peers (ms_mgr s)) q of Some ps \<Rightarrow> ps | None \<Rightarrow> new_peerState q"
      have ps: "ps' = discover_peer peer meta ?ps" using ps' True by (auto simp: look)
      have "ps_dialLoopStarted ?ps \<longleftrightarrow> fmlookup (ms_loops s) q \<noteq> None"
        using system_invD(2,3) [OF inv, of q]
        by (cases "fmlookup (ms_loops s) q") (auto simp: wake_inv_def new_peerState_def split: option.splits)
      moreover have "shouldDial (mg_nodeID (ms_mgr s)) q" if "ps_dialLoopStarted ?ps"
        using that mesh_invD(2) [OF system_invD(1) [OF inv], of q]
        by (auto simp: new_peerState_def peer_inv_def split: option.splits)
      ultimately show ?thesis
        using True by (auto simp: ps wake_inv_def frame r found(4))
    qed
  next
    fix q assume "q \<in> set (ms_ensures ?s)"
    then show "fmlookup (mg_peers (ms_mgr ?s)) q \<noteq> None \<and> shouldDial (mg_nodeID (ms_mgr ?s)) q"
      using system_invD(4) [OF inv, of q] found(4) by (auto simp: look frame r split: if_splits)
  qed (use system_invD(2) [OF inv] in \<open>auto simp: look frame\<close>)
qed

lemma ensure_inv:
  assumes inv: "system_inv s" and calls: "ms_ensures s = xs @ p # ys"
  shows "system_inv ((ensure_step p s)\<lparr>ms_ensures := xs @ ys\<rparr>)" (is "system_inv ?s")
proof (rule system_invI)
  have p: "fmlookup (mg_peers (ms_mgr s)) p \<noteq> None" "shouldDial (mg_nodeID (ms_mgr s)) p"
    using system_invD(4) [OF inv, of p] calls by simp_all
  then show "mesh_inv (ms_mgr ?s)"
    using system_invD(1) [OF inv] by (simp add: ensure_step_def ensureDialLoop_inv)
  have flag: "loop_started (ms_mgr s) q \<longleftrightarrow> fmlookup (ms_loops s) q \<noteq> None" for q
    using system_invD(2,3) [OF inv, of q]
    by (cases "fmlookup (mg_peers (ms_mgr s)) q"; cases "fmlookup (ms_loops s) q")
      (auto simp: loop_started_def wake_inv_def)
  fix q
  show "fmlookup (mg_peers (ms_mgr ?s)) q \<noteq> None \<and> loop_inv (mg_opts (ms_mgr ?s)) q pc
      \<and> (pc = DialEnded \<longrightarrow> mg_ctxDone (ms_mgr ?s))" if "fmlookup (ms_loops ?s) q = Some pc" for pc
    using that p system_invD(2) [OF inv, of q pc]
    by (auto simp: ensure_step_def ensureDialLoop_eq loop_inv_def split: if_splits)
  show "owed ?s q ps'" if new: "fmlookup (mg_peers (ms_mgr ?s)) q = Some ps'" for ps'
  proof -
    obtain ps where ps: "fmlookup (mg_peers (ms_mgr s)) q = Some ps"
        "ps' = (if q = p then ps\<lparr>ps_dialLoopStarted := True\<rparr> else ps)"
      using new by (auto simp: ensure_step_def ensureDialLoop_eq split: if_splits)
    then show ?thesis
      using system_invD(3) [OF inv ps(1)] flag [of q] calls
      by (auto simp: ensure_step_def ensureDialLoop_eq wake_inv_def)
  qed
  show "fmlookup (mg_peers (ms_mgr ?s)) q \<noteq> None \<and> shouldDial (mg_nodeID (ms_mgr ?s)) q"
    if "q \<in> set (ms_ensures ?s)"
    using that system_invD(4) [OF inv, of q] calls
    by (auto simp: ensure_step_def ensureDialLoop_eq split: if_splits)
qed

lemma wake_step_inv:
  assumes inv: "system_inv s" and calls: "ms_wakes s = xs @ p # ys"
  shows "system_inv (s\<lparr>ms_mgr := update_peer p triggerReconnect (ms_mgr s), ms_wakes := xs @ ys\<rparr>)"
    (is "system_inv ?s")
proof (rule system_invI)
  show "mesh_inv (ms_mgr ?s)" using system_invD(1) [OF inv] by (simp add: trigger_inv)
  fix q
  show "owed ?s q ps'" if new: "fmlookup (mg_peers (ms_mgr ?s)) q = Some ps'" for ps'
  proof -
    obtain ps where ps: "fmlookup (mg_peers (ms_mgr s)) q = Some ps"
        "ps' = (if q = p then triggerReconnect ps else ps)"
      using new by (auto split: if_splits)
    then show ?thesis
      using system_invD(3) [OF inv ps(1)] calls by (auto simp: wake_inv_def triggerReconnect_def)
  qed
qed (use system_invD(2) [OF inv] system_invD(4) [OF inv] in \<open>auto split: if_splits\<close>)

text \<open>A pump that ends frees the peer's slot and owes the wake-up, if the peer is to be dialled.\<close>

lemma pump_inv:
  assumes inv: "system_inv s" and conn: "fmlookup (mg_conns (ms_mgr s)) cid = Some c"
    and drop: "pump_drop cid reason (ms_mgr s) = (m', r)"
  shows "system_inv (s\<lparr>ms_mgr := m', ms_wakes := with_call r (ms_wakes s)\<rparr>)" (is "system_inv ?s")
proof (rule system_invI)
  have m': "m' = fst (pump_drop cid reason (ms_mgr s))" using drop by simp
  then show "mesh_inv (ms_mgr ?s)" using pump_drop_inv [OF system_invD(1) [OF inv] conn] by simp
  note m = pump_drop_Some [OF conn, of reason, folded m']
  have wake: "r = Some (mc_peerID c)" if "fmlookup (mg_peers (ms_mgr s)) (mc_peerID c) = Some ps"
      "ps_conn ps = Some cid" "ps_discovered ps" "shouldDial (mg_nodeID (ms_mgr s)) (ps_id ps)" for ps
    using that drop conn by (auto simp: pump_drop_def drop_conn_def Let_def)
  fix q
  show "owed ?s q ps'" if new: "fmlookup (mg_peers (ms_mgr ?s)) q = Some ps'" for ps'
  proof -
    obtain ps where ps: "fmlookup (mg_peers (ms_mgr s)) q = Some ps" "ps' = (if q = mc_peerID c \<and> ps_conn ps = Some cid
        then ps\<lparr>ps_conn := None, ps_peer := (ps_peer ps)\<lparr>peer_Connected := False\<rparr>\<rparr> else ps)"
      using new by (auto simp: m drop_conn_lookup)
    have "ps_id ps = q \<and> (ps_dialLoopStarted ps \<longrightarrow> shouldDial (mg_nodeID (ms_mgr s)) q)"
      using mesh_invD(2) [OF system_invD(1) [OF inv] ps(1)] by (simp add: peer_inv_def)
    then show ?thesis
      using ps system_invD(3) [OF inv ps(1)] wake [of ps] by (auto simp: wake_inv_def m)
  qed
  show "fmlookup (mg_peers (ms_mgr ?s)) q \<noteq> None \<and> loop_inv (mg_opts (ms_mgr ?s)) q pc
      \<and> (pc = DialEnded \<longrightarrow> mg_ctxDone (ms_mgr ?s))" if "fmlookup (ms_loops ?s) q = Some pc" for pc
    using that system_invD(2) [OF inv, of q pc] by (auto simp: m drop_conn_lookup)
  show "fmlookup (mg_peers (ms_mgr ?s)) q \<noteq> None \<and> shouldDial (mg_nodeID (ms_mgr ?s)) q"
    if "q \<in> set (ms_ensures ?s)"
    using that system_invD(4) [OF inv, of q] by (auto simp: m drop_conn_lookup)
qed

subsection \<open>Steps of the dial loops\<close>

lemma loop_woken_inv:
  assumes inv: "system_inv s" and loop: "fmlookup (ms_loops s) p = Some pc"
  shows "system_inv (set_loop p DialReady (update_peer p take_signal (ms_mgr s)) s)"
proof -
  have "system_inv (set_loop p DialReady (ms_mgr s) s)"
    using system_inv_set_loop [OF inv loop, of DialReady] by (simp add: loop_inv_def)
  then show ?thesis
    by (subst set_loop_mgr) (use system_inv_take_signal [of "set_loop p DialReady (ms_mgr s) s" p DialReady] in simp)
qed

lemma loop_none_inv:
  assumes inv: "system_inv s" and loop: "fmlookup (ms_loops s) p = Some DialReady"
    and dial: "prepareDial p (ms_mgr s) = (m', None)"
  shows "system_inv (set_loop p DialIdle m' s)"
proof -
  note mgr = system_invD(1) [OF inv]
  have "m' = ms_mgr s" and idle: "\<And>ps. fmlookup (mg_peers (ms_mgr s)) p = Some ps \<Longrightarrow>
      ps_conn ps \<noteq> None \<or> \<not> ps_discovered ps \<or> \<not> shouldDial (mg_nodeID (ms_mgr s)) p"
    using dial by (cases rule: prepareDial_cases [OF mgr, of p]; simp)+
  moreover have "ps_discovered ps \<Longrightarrow> shouldDial (mg_nodeID (ms_mgr s)) p"
    if "fmlookup (mg_peers (ms_mgr s)) p = Some ps" for ps
    using mesh_invD(2) [OF mgr that] system_invD(3) [OF inv that] loop
    by (simp add: peer_inv_def wake_inv_def)
  ultimately show ?thesis
    using loop by (auto intro!: system_inv_set_loop [OF inv loop] simp: loop_inv_def)
qed

lemma loop_go_inv:
  assumes inv: "system_inv s" and loop: "fmlookup (ms_loops s) p = Some DialReady"
    and dial: "prepareDial p (ms_mgr s) = (m', Some (peer, wsPath, delay))"
  shows "system_inv (set_loop p (DialCalling peer wsPath delay) m' s)"
proof -
  note mgr = system_invD(1) [OF inv]
  have "m' = fst (prepareDial p (ms_mgr s))" using dial by simp
  then have "mesh_inv m'" "quiet (ms_mgr s) m'"
    using prepareDial_inv [OF mgr] quiet_prepareDial [OF mgr] by simp_all
  note inv' = system_inv_quiet [OF inv this]
  have "loop_inv (mg_opts m') p (DialCalling peer wsPath delay)"
    using dial
  proof (cases rule: prepareDial_cases [OF mgr, of p])
    case (2 ps d)
    then show ?thesis
      using dial mesh_invD(2) [OF mgr 2(1)]
      by (auto simp: loop_inv_def peer_inv_def dialable_def peerCopyLocked_def Let_def)
  qed simp
  then have "system_inv (set_loop p (DialCalling peer wsPath delay) m' (s\<lparr>ms_mgr := m'\<rparr>))"
    using system_inv_set_loop [OF inv', of p DialReady "DialCalling peer wsPath delay"] loop by simp
  then show ?thesis by (simp add: set_loop_def)
qed

text \<open>The outcome of \<open>dialPeer\<close>, in either case.\<close>

lemma dialled_inv:
  assumes inv: "system_inv s" and loop: "fmlookup (ms_loops s) p = Some (DialCalling peer wsPath delay)"
    and fresh: "fmlookup (mg_conns (ms_mgr s)) cid = None"
    and dial: "dialPeer dialer p peer wsPath cid (ms_mgr s) = (m', r)"
  shows "mesh_inv m'" "quiet (ms_mgr s) m'" "r = None \<Longrightarrow> has_conn m' p"
proof -
  obtain ps where ps: "fmlookup (mg_peers (ms_mgr s)) p = Some ps"
    using system_invD(2) [OF inv loop] by blast
  have "peer_ID peer = p" using system_invD(2) [OF inv loop] by (simp add: loop_inv_def)
  then show "mesh_inv m'"
    using dialPeer_inv [OF system_invD(1) [OF inv] fresh, of p peer dialer wsPath] ps dial by simp
  show "quiet (ms_mgr s) m'" "r = None \<Longrightarrow> has_conn m' p"
    using dial_loop_outcome [OF system_invD(1) [OF inv] ps, of dialer peer wsPath cid "peer_Addresses peer" None] dial
    by (simp_all add: dialPeer_def)
qed

lemma loop_ok_inv:
  assumes inv: "system_inv s" and loop: "fmlookup (ms_loops s) p = Some (DialCalling peer wsPath delay)"
    and fresh: "fmlookup (mg_conns (ms_mgr s)) cid = None"
    and dial: "dialPeer dialer p peer wsPath cid (ms_mgr s) = (m', None)"
  shows "system_inv (set_loop p DialIdle (update_peer p resetBackoff m') s)"
proof -
  let ?m = "update_peer p resetBackoff m'"
  note d = dialled_inv [OF assms]
  have "mesh_inv ?m" "quiet (ms_mgr s) ?m"
    using d(1) quiet_trans [OF d(2) quiet_resetBackoff] by (simp_all add: resetBackoff_inv)
  note inv' = system_inv_quiet [OF inv this]
  have "system_inv (set_loop p DialIdle ?m (s\<lparr>ms_mgr := ?m\<rparr>))"
    using system_inv_set_loop [OF inv', of p "DialCalling peer wsPath delay" DialIdle] loop d(3)
    by (auto simp: loop_inv_def has_conn_def resetBackoff_def split: option.splits)
  then show ?thesis by (simp add: set_loop_def)
qed

lemma loop_failed_inv:
  assumes inv: "system_inv s" and loop: "fmlookup (ms_loops s) p = Some (DialCalling peer wsPath delay)"
    and fresh: "fmlookup (mg_conns (ms_mgr s)) cid = None"
    and dial: "dialPeer dialer p peer wsPath cid (ms_mgr s) = (m', Some e)"
  shows "system_inv (set_loop p (DialWaiting delay) m' s)"
proof -
  note d = dialled_inv [OF assms]
  have "loop_inv (mg_opts (ms_mgr s)) p (DialCalling peer wsPath delay)"
    using system_invD(2) [OF inv loop] by simp
  then have "system_inv (set_loop p (DialWaiting delay) m' (s\<lparr>ms_mgr := m'\<rparr>))"
    using system_inv_set_loop [OF system_inv_quiet [OF inv d(1,2)], of p "DialCalling peer wsPath delay" "DialWaiting delay"]
      loop quietD(1) [OF d(2)]
    by (simp add: loop_inv_def)
  then show ?thesis by (simp add: set_loop_def)
qed

subsection \<open>All steps\<close>

lemma mesh_step_inv:
  assumes "mesh_step s s'" and inv: "system_inv s"
  shows "system_inv s'"
  using assms(1)
proof cases
  case (service now entry m' r)
  then show ?thesis using service_inv [OF inv] by simp
next
  case (ensure xs p ys)
  then show ?thesis using ensure_inv [OF inv] by simp
next
  case (wake xs p ys)
  then show ?thesis using wake_step_inv [OF inv] by simp
next
  case (pump_ends cid c reason m' r)
  then show ?thesis using pump_inv [OF inv] by simp
next
  case (create p)
  then show ?thesis
    using system_inv_quiet [OF inv getOrCreatePeer_inv [OF system_invD(1) [OF inv]] quiet_getOrCreate] by simp
next
  case (go_close xs cid reason ys)
  let ?m = "(close_cid cid reason (ms_mgr s))\<lparr>mg_goClose := xs @ ys\<rparr>"
  have "quiet (ms_mgr s) ?m" by (rule quiet_peers) simp_all
  then show ?thesis
    unfolding go_close(1)
    using go_close_inv [OF _ go_close(2)] system_inv_quiet [OF inv] system_invD(1) [OF inv] by blast
next
  case (dial_end p pc)
  then show ?thesis
    using system_inv_set_loop [OF inv dial_end(2), of DialEnded] by (simp add: loop_inv_def)
next
  case (dial_timer p d)
  then show ?thesis
    using system_inv_set_loop [OF inv dial_timer(2), of DialReady] by (simp add: loop_inv_def)
next
  case (inbound cid r upgraded)
  note mgr = system_invD(1) [OF inv]
  show ?thesis
    unfolding inbound(1)
    by (rule system_inv_quiet [OF inv handleWebSocket_inv [OF mgr inbound(2)] quiet_handleWebSocket [OF mgr]])
next
  case (write_frame cid c frame c')
  note mgr = system_invD(1) [OF inv]
  have "mesh_inv (set_conn cid c' (ms_mgr s))"
    using write_frame mesh_invD(4) [OF mgr write_frame(2)]
    by (intro set_conn_inv [OF mgr write_frame(2)]) (auto simp: writePump_frame_def conn_inv_def split: list.splits)
  then show ?thesis
    unfolding write_frame(1) by (rule system_inv_quiet [OF inv]) (simp add: quiet_peers)
qed (use system_invD(1) [OF inv] inv in \<open>auto intro!: system_inv_quiet [OF inv] intro: quiet_intros inv_intros
      loop_woken_inv loop_none_inv loop_go_inv loop_ok_inv loop_failed_inv\<close>)

text \<open>No step touches the options or the identity, and a context once done stays done.\<close>

lemma mesh_step_frame:
  assumes "mesh_step s s'" and inv: "system_inv s"
  shows "mg_opts (ms_mgr s') = mg_opts (ms_mgr s) \<and> mg_nodeID (ms_mgr s') = mg_nodeID (ms_mgr s)
    \<and> (mg_ctxDone (ms_mgr s) \<longrightarrow> mg_ctxDone (ms_mgr s'))"
  using assms(1)
proof cases
  case (start listen)
  then show ?thesis using quietD(1-3) [OF quiet_Start [of "ms_mgr s" listen]] by simp
next
  case (service now entry m' r)
  then show ?thesis by (auto simp: service_update_def Let_def split: option.splits sum.splits if_splits)
next
  case (inbound cid r upgraded)
  then show ?thesis using quietD(1-3) [OF quiet_handleWebSocket [OF system_invD(1) [OF inv], of r upgraded cid]] by simp
next
  case (pump_ends cid c reason m' r)
  then show ?thesis using pump_drop_Some [OF pump_ends(2), of reason] by (simp add: frame_simps)
next
  case (enqueue frame pick ctx_err cid)
  then show ?thesis using quietD(1-3) [OF quiet_enqueue [of "ms_mgr s" pick ctx_err cid frame]] by simp
next
  case (dial_none p m')
  then show ?thesis by (cases rule: prepareDial_cases [OF system_invD(1) [OF inv], of p]) (simp_all add: set_loop_def)
next
  case (dial_go p m' peer wsPath delay)
  then show ?thesis by (cases rule: prepareDial_cases [OF system_invD(1) [OF inv], of p]) (auto simp: set_loop_def)
next
  case (dial_ok p peer wsPath delay cid dialer m')
  then show ?thesis using quietD(1-3) [OF dialled_inv(2) [OF inv dial_ok(2-4)]] by (simp add: set_loop_def)
next
  case (dial_failed p peer wsPath delay cid dialer m' e)
  then show ?thesis using quietD(1-3) [OF dialled_inv(2) [OF inv dial_failed(2-4)]] by (simp add: set_loop_def)
qed (simp_all add: set_loop_def ensure_step_def ensureDialLoop_def frame_simps)

lemma initial_inv:
  "mesh_inv m \<Longrightarrow> mg_peers m = fmempty \<Longrightarrow> system_inv (initial_state m)"
  by (simp add: system_inv_def initial_state_def)

lemma mesh_reachable_inv:
  "mesh_reachable m0 s \<Longrightarrow> mesh_inv m0 \<Longrightarrow> mg_peers m0 = fmempty \<Longrightarrow> system_inv s"
  by (induction rule: mesh_reachable.induct) (auto intro: initial_inv mesh_step_inv)


section \<open>Whole calls are runs of steps\<close>

abbreviation mesh_run :: "MeshState \<Rightarrow> MeshState \<Rightarrow> bool" where
  "mesh_run \<equiv> mesh_step\<^sup>*\<^sup>*"

lemma mesh_run_inv: "mesh_run s s' \<Longrightarrow> system_inv s \<Longrightarrow> system_inv s'"
  by (induction rule: rtranclp_induct) (auto intro: mesh_step_inv)

lemma mesh_run_reachable: "mesh_run s s' \<Longrightarrow> mesh_reachable m0 s \<Longrightarrow> mesh_reachable m0 s'"
  by (induction rule: rtranclp_induct) (auto intro: mesh_reachable.step)

text \<open>A broadcast is a run of enqueues, one to each active connection.\<close>

lemma broadcast_loop_run:
  "int (length frame) \<le> o_MaxFrameBytes (mg_opts (ms_mgr s)) \<Longrightarrow>
     mesh_run s (s\<lparr>ms_mgr := fst (broadcast_loop pick e frame order (ms_mgr s) errs)\<rparr>)"
proof (induction order arbitrary: s errs)
  case (Cons p order)
  show ?case
  proof (cases "\<exists>ps cid. fmlookup (mg_peers (ms_mgr s)) p = Some ps \<and> ps_conn ps = Some cid")
    case False
    then show ?thesis using Cons.IH [OF Cons.prems] by (auto split: option.split)
  next
    case True
    then obtain ps cid where ps: "fmlookup (mg_peers (ms_mgr s)) p = Some ps" "ps_conn ps = Some cid" by blast
    obtain m' r where enq: "enqueue_to (pick p) e cid frame (ms_mgr s) = (m', r)" by fastforce
    have step: "mesh_step s (s\<lparr>ms_mgr := m'\<rparr>)"
      using mesh_step.enqueue [OF Cons.prems, of "pick p" e cid] by (simp add: enq)
    have "mg_opts m' = mg_opts (ms_mgr s)"
      using quietD(1) [OF quiet_enqueue, of "pick p" e cid frame "ms_mgr s"] by (simp add: enq)
    then have "mesh_run (s\<lparr>ms_mgr := m'\<rparr>)
        (s\<lparr>ms_mgr := fst (broadcast_loop pick e frame order m' errs')\<rparr>)" for errs'
      using Cons.IH [of "s\<lparr>ms_mgr := m'\<rparr>" errs'] Cons.prems by simp
    then show ?thesis
      using converse_rtranclp_into_rtranclp [of mesh_step, OF step] by (simp add: ps enq split: option.split)
  qed
qed simp

lemma Broadcast_run: "mesh_run s (s\<lparr>ms_mgr := fst (Broadcast pick order e frame (ms_mgr s))\<rparr>)"
  using broadcast_loop_run [of frame s pick e order "[]"] by (auto simp: Broadcast_def case_prod_unfold)

lemma Send_run: "mesh_run s (s\<lparr>ms_mgr := fst (Send pick e p frame (ms_mgr s))\<rparr>)"
  using mesh_step.enqueue [of frame s pick e]
  by (auto simp: Send_def split: sum.split option.split)

lemma goClose_frame:
  "update_peer p f (m\<lparr>mg_goClose := g\<rparr>) = (update_peer p f m)\<lparr>mg_goClose := g\<rparr>"
  "close_cid i r (m\<lparr>mg_goClose := g\<rparr>) = (close_cid i r m)\<lparr>mg_goClose := g\<rparr>"
  by (simp_all add: update_peer_def set_peer_def close_cid_def set_conn_def split: option.split)

text \<open>A pump's exit, undisturbed: the slot, the wake-up, the close.\<close>

lemma pump_exit_run:
  assumes conn: "fmlookup (mg_conns (ms_mgr s)) cid = Some c" "mc_started c"
  shows "mesh_run s (s\<lparr>ms_mgr := pump_exit cid reason (ms_mgr s)\<rparr>)"
proof -
  let ?g = "mg_goClose (ms_mgr s)"
  obtain m1 wake where drop: "drop_conn (mc_peerID c) cid (ms_mgr s) = (m1, wake)" by fastforce
  have g: "mg_goClose m1 = ?g" "fmlookup (mg_conns m1) cid = Some c"
    using drop_conn_sel(3,4) [of "mc_peerID c" cid "ms_mgr s"] conn(1) by (simp_all add: drop)
  let ?m2 = "m1\<lparr>mg_goClose := ?g @ [(cid, reason)]\<rparr>"
  let ?m3 = "(if wake then update_peer (mc_peerID c) triggerReconnect m1 else m1)"
  have "mesh_step s (s\<lparr>ms_mgr := ?m2, ms_wakes := with_call (if wake then Some (mc_peerID c) else None) (ms_wakes s)\<rparr>)"
    by (rule mesh_step.pump_ends [OF conn]) (simp add: pump_drop_def conn drop g)
  moreover have "mesh_run (s\<lparr>ms_mgr := ?m2, ms_wakes := with_call (if wake then Some (mc_peerID c) else None) (ms_wakes s)\<rparr>)
      (s\<lparr>ms_mgr := ?m3\<lparr>mg_goClose := ?g @ [(cid, reason)]\<rparr>\<rparr>)"
  proof (cases wake)
    case True
    let ?s = "s\<lparr>ms_mgr := ?m2, ms_wakes := mc_peerID c # ms_wakes s\<rparr>"
    have "mesh_step ?s (?s\<lparr>ms_mgr := update_peer (mc_peerID c) triggerReconnect (ms_mgr ?s), ms_wakes := [] @ ms_wakes s\<rparr>)"
      by (rule mesh_step.wake) simp
    then show ?thesis using True by (simp add: with_call_def goClose_frame)
  qed (simp add: with_call_def)
  moreover have "mesh_step (s\<lparr>ms_mgr := ?m3\<lparr>mg_goClose := ?g @ [(cid, reason)]\<rparr>\<rparr>)
      (s\<lparr>ms_mgr := pump_exit cid reason (ms_mgr s)\<rparr>)"
  proof -
    have "mg_goClose (close_cid cid reason ?m3) = ?g" by (simp add: g)
    then have "(close_cid cid reason ?m3)\<lparr>mg_goClose := ?g @ []\<rparr> = pump_exit cid reason (ms_mgr s)"
      using g by (simp add: pump_exit_def conn handleConnectionClosed_def drop)
    then show ?thesis
      using mesh_step.go_close [of "s\<lparr>ms_mgr := ?m3\<lparr>mg_goClose := ?g @ [(cid, reason)]\<rparr>\<rparr>" ?g cid reason "[]"]
      by (simp add: goClose_frame)
  qed
  ultimately show ?thesis
    by (meson converse_rtranclp_into_rtranclp rtranclp.rtrancl_into_rtrancl)
qed


section \<open>A discovered peer is dialled\<close>

text \<open>A discovered peer that this node should dial and is not connected to.\<close>

definition pursued :: "MeshState \<Rightarrow> string \<Rightarrow> bool" where
  "pursued s p \<longleftrightarrow> shouldDial (mg_nodeID (ms_mgr s)) p \<and>
     (\<exists>ps. fmlookup (mg_peers (ms_mgr s)) p = Some ps \<and> ps_discovered ps \<and> ps_conn ps = None)"

definition calling :: "MeshState \<Rightarrow> string \<Rightarrow> bool" where
  "calling s p \<longleftrightarrow> (\<exists>peer wsPath delay. fmlookup (ms_loops s) p = Some (DialCalling peer wsPath delay))"

lemma ready_calls:
  assumes "system_inv s" and "pursued s p" and "fmlookup (ms_loops s) p = Some DialReady"
  shows "\<exists>s'. mesh_run s s' \<and> calling s' p"
  using system_invD(1) [OF assms(1)]
proof (cases rule: prepareDial_cases [of "ms_mgr s" p])
  case no
  then show ?thesis using assms(2) by (auto simp: pursued_def)
next
  case (dial ps delay)
  show ?thesis
    using mesh_step.dial_go [OF assms(3) dial(8)] by (auto simp: calling_def)
qed

lemma woken_calls:
  assumes inv: "system_inv s" and "pursued s p" and loop: "fmlookup (ms_loops s) p = Some DialIdle"
    and "signalled (ms_mgr s) p"
  shows "\<exists>s'. mesh_run s s' \<and> calling s' p"
proof -
  let ?s = "set_loop p DialReady (update_peer p take_signal (ms_mgr s)) s"
  have step: "mesh_step s ?s" by (rule mesh_step.dial_wake [OF loop assms(4)])
  have "pursued ?s p" using assms(2) by (auto simp: pursued_def take_signal_def)
  then obtain s' where "mesh_run ?s s'" "calling s' p"
    using ready_calls [OF mesh_step_inv [OF step inv], of p] by auto
  then show ?thesis using converse_rtranclp_into_rtranclp [of mesh_step, OF step] by blast
qed

lemma wake_calls:
  assumes inv: "system_inv s" and "pursued s p" and loop: "fmlookup (ms_loops s) p = Some DialIdle"
    and "p \<in> set (ms_wakes s)"
  shows "\<exists>s'. mesh_run s s' \<and> calling s' p"
proof -
  obtain xs ys where calls: "ms_wakes s = xs @ p # ys" using assms(4) by (auto dest: split_list)
  let ?s = "s\<lparr>ms_mgr := update_peer p triggerReconnect (ms_mgr s), ms_wakes := xs @ ys\<rparr>"
  have step: "mesh_step s ?s" by (rule mesh_step.wake [OF calls])
  have "pursued ?s p" "signalled (ms_mgr ?s) p"
    using assms(2) by (auto simp: pursued_def signalled_def)
  then obtain s' where "mesh_run ?s s'" "calling s' p"
    using woken_calls [OF mesh_step_inv [OF step inv], of p] loop by auto
  then show ?thesis using converse_rtranclp_into_rtranclp [of mesh_step, OF step] by blast
qed

lemma ensure_calls:
  assumes inv: "system_inv s" and "pursued s p"
    and loop: "fmlookup (ms_loops s) p = None \<or> fmlookup (ms_loops s) p = Some DialIdle"
    and "p \<in> set (ms_ensures s)"
  shows "\<exists>s'. mesh_run s s' \<and> calling s' p"
proof -
  obtain xs ys where calls: "ms_ensures s = xs @ p # ys" using assms(4) by (auto dest: split_list)
  let ?s = "(ensure_step p s)\<lparr>ms_ensures := xs @ ys\<rparr>"
  have step: "mesh_step s ?s" by (rule mesh_step.ensure [OF calls])
  obtain ps where ps: "fmlookup (mg_peers (ms_mgr s)) p = Some ps" using assms(2) by (auto simp: pursued_def)
  then have "loop_started (ms_mgr s) p \<longleftrightarrow> fmlookup (ms_loops s) p \<noteq> None"
    using system_invD(3) [OF inv ps] by (simp add: wake_inv_def loop_started_def)
  then have "fmlookup (ms_loops ?s) p = Some DialIdle" using loop by (auto simp: ensure_step_def)
  moreover have "pursued ?s p" using assms(2) by (auto simp: pursued_def ensure_step_def ensureDialLoop_eq)
  moreover have "p \<in> set (ms_wakes ?s)" by (simp add: ensure_step_def)
  ultimately obtain s' where "mesh_run ?s s'" "calling s' p"
    using wake_calls [OF mesh_step_inv [OF step inv]] by blast
  then show ?thesis using converse_rtranclp_into_rtranclp [of mesh_step, OF step] by blast
qed

lemma pursued_calls:
  assumes inv: "system_inv s" and pursued: "pursued s p" and running: "\<not> mg_ctxDone (ms_mgr s)"
  shows "\<exists>s'. mesh_run s s' \<and> calling s' p"
proof -
  obtain ps where ps: "fmlookup (mg_peers (ms_mgr s)) p = Some ps" "ps_discovered ps" "ps_conn ps = None"
    using pursued by (auto simp: pursued_def)
  have owed: "owed s p ps" by (rule system_invD(3) [OF inv ps(1)])
  show ?thesis
  proof (cases "fmlookup (ms_loops s) p")
    case None
    then show ?thesis
      using ensure_calls [OF inv pursued] owed ps pursued by (auto simp: wake_inv_def pursued_def)
  next
    case (Some pc)
    show ?thesis
    proof (cases pc)
      case DialIdle
      then show ?thesis
        using owed ps Some woken_calls [OF inv pursued] wake_calls [OF inv pursued] ensure_calls [OF inv pursued]
        by (auto simp: wake_inv_def signalled_def)
    next
      case DialReady
      then show ?thesis using ready_calls [OF inv pursued] Some by simp
    next
      case (DialCalling peer wsPath delay)
      then show ?thesis using Some by (intro exI [of _ s]) (simp add: calling_def)
    next
      case (DialWaiting delay)
      let ?s = "set_loop p DialReady (ms_mgr s) s"
      have step: "mesh_step s ?s" using Some DialWaiting by (intro mesh_step.dial_timer) simp
      have "pursued ?s p" using pursued by (simp add: pursued_def)
      then show ?thesis
        using ready_calls [OF mesh_step_inv [OF step inv]] converse_rtranclp_into_rtranclp [of mesh_step, OF step]
        by fastforce
    qed (use system_invD(2) [OF inv Some] running in simp)
  qed
qed


section \<open>A service entry as a run\<close>

lemma service_run:
  "\<exists>loops. mesh_run s (s\<lparr>ms_mgr := handleServiceEntry now entry (ms_mgr s), ms_loops := loops\<rparr>)"
proof -
  obtain m' r where u: "service_update now entry (ms_mgr s) = (m', r)" by fastforce
  have step: "mesh_step s (s\<lparr>ms_mgr := m', ms_ensures := with_call r (ms_ensures s)\<rparr>)"
    by (rule mesh_step.service [OF u])
  show ?thesis
  proof (cases r)
    case None
    then show ?thesis
      using step u by (intro exI [of _ "ms_loops s"]) (simp add: handleServiceEntry_def with_call_def)
  next
    case (Some p)
    let ?s1 = "s\<lparr>ms_mgr := m', ms_ensures := p # ms_ensures s\<rparr>"
    let ?s2 = "(ensure_step p ?s1)\<lparr>ms_ensures := [] @ ms_ensures s\<rparr>"
    let ?s3 = "?s2\<lparr>ms_mgr := update_peer p triggerReconnect (ms_mgr ?s2), ms_wakes := [] @ ms_wakes s\<rparr>"
    have "mesh_step s ?s1" using step Some by (simp add: with_call_def)
    moreover have "mesh_step ?s1 ?s2" by (rule mesh_step.ensure) simp
    moreover have "mesh_step ?s2 ?s3" by (rule mesh_step.wake) (simp add: ensure_step_def)
    ultimately have "mesh_run s ?s3" by (meson converse_rtranclp_into_rtranclp rtranclp.rtrancl_refl)
    moreover have "?s3 = s\<lparr>ms_mgr := handleServiceEntry now entry (ms_mgr s), ms_loops := ms_loops ?s3\<rparr>"
      by (simp add: ensure_step_def handleServiceEntry_def u Some)
    ultimately show ?thesis by metis
  qed
qed

end
