(* ===== verification/Runtime.thy ===== *)
theory Runtime
  imports Reassembler OsClipSystem MeshSystem
begin

text \<open>
  \<open>internal/app/runtime.go\<close>: the runtime that sends local clipboard payloads to the mesh and
  applies payloads that arrive from it, and its view of the peers. The two Go interfaces it
  works through, \<open>clipboardManager\<close> and \<open>meshManager\<close>, are function arguments of its operations,
  with their contracts as locales, interpreted on the models of \<open>osclip\<close> and \<open>netmesh\<close>. The
  coders of \<open>PayloadChunk\<close>, \<open>proto.Marshal\<close> and \<open>proto.Unmarshal\<close>, are parameters.
\<close>

section \<open>State\<close>

text \<open>The lines of the log, each with the values it prints.\<close>

datatype 'e log_entry =
    DaemonStarted string string
  | ClipboardEvent PayloadType uint64
  | BroadcastFailed 'e
  | PeerDiscovered string string string int bool
  | PeerStateChanged string bool
  | PeerExpired string
  | DroppedFrame string string
  | DroppedChunk string wire_error
  | ApplyFailed string clip_error
  | Applied string PayloadType uint64

datatype runtime_error =
    ErrWire wire_error
  | ErrMarshalChunk string
  | ErrMesh mesh_error

record 'c Runtime =
  rt_clipboard :: 'c
  rt_reassembler :: Reassembler
  rt_startedAt :: time
  rt_ran :: bool
  rt_waitClosed :: bool
  rt_waitErr :: "mesh_error option"
  rt_loops :: bool
  rt_peerSeen :: "(string, bool) fmap"
  rt_log :: "runtime_error log_entry list"

definition newRuntime :: "'c \<Rightarrow> 'c Runtime" where
  "newRuntime clipboard =
     \<lparr>rt_clipboard = clipboard, rt_reassembler = NewReassembler, rt_startedAt = 0, rt_ran = False,
      rt_waitClosed = False, rt_waitErr = None, rt_loops = False, rt_peerSeen = fmempty,
      rt_log = []\<rparr>"

definition log_line :: "runtime_error log_entry \<Rightarrow> 'c Runtime \<Rightarrow> 'c Runtime" where
  "log_line x r = r\<lparr>rt_log := rt_log r @ [x]\<rparr>"

section \<open>Starting\<close>

text \<open>
  \<open>Start\<close>: the body runs once. \<open>clip_start\<close> is \<open>clipboard.Start\<close>; \<open>mesh_err\<close> is what
  \<open>mesh.Start\<close> returned.
\<close>

definition Runtime_Start ::
    "time \<Rightarrow> ('c \<Rightarrow> 'c) \<Rightarrow> mesh_error option \<Rightarrow> string \<Rightarrow> string \<Rightarrow> 'c Runtime
     \<Rightarrow> 'c Runtime \<times> mesh_error option" where
  "Runtime_Start now clip_start mesh_err name nodeID r =
     (if rt_ran r then (r, None)
      else
        let r = r\<lparr>rt_ran := True, rt_startedAt := now, rt_clipboard := clip_start (rt_clipboard r)\<rparr>
        in case mesh_err of
             Some e \<Rightarrow> (r\<lparr>rt_waitErr := Some e, rt_waitClosed := True\<rparr>, Some e)
           | None \<Rightarrow> ((log_line (DaemonStarted name nodeID) r)\<lparr>rt_loops := True\<rparr>, None))"

section \<open>Sending\<close>

text \<open>
  The loop of \<open>broadcastPayload\<close>. \<open>broadcast\<close> is \<open>mesh.Broadcast\<close>; its first argument stands for
  what the environment decides during the call, the \<open>i\<close>-th call taking \<open>env i\<close>.
\<close>

fun broadcast_chunks ::
    "(PayloadChunk \<Rightarrow> string + bytes) \<Rightarrow> ('env \<Rightarrow> bytes \<Rightarrow> 'm \<Rightarrow> 'm \<times> mesh_error option)
     \<Rightarrow> (nat \<Rightarrow> 'env) \<Rightarrow> nat \<Rightarrow> PayloadChunk list \<Rightarrow> 'm \<Rightarrow> 'm \<times> runtime_error option" where
  "broadcast_chunks marshal_chunk broadcast env i [] m = (m, None)"
| "broadcast_chunks marshal_chunk broadcast env i (chunk # chunks) m =
     (case marshal_chunk chunk of
        Inl e \<Rightarrow> (m, Some (ErrMarshalChunk e))
      | Inr frame \<Rightarrow>
          (case broadcast (env i) frame m of
             (m, Some e) \<Rightarrow> (m, Some (ErrMesh e))
           | (m, None) \<Rightarrow> broadcast_chunks marshal_chunk broadcast env (Suc i) chunks m))"

definition broadcastPayload ::
    "(ClipboardPayload \<Rightarrow> string + bytes) \<Rightarrow> (PayloadChunk \<Rightarrow> string + bytes)
     \<Rightarrow> ('env \<Rightarrow> bytes \<Rightarrow> 'm \<Rightarrow> 'm \<times> mesh_error option) \<Rightarrow> (nat \<Rightarrow> 'env)
     \<Rightarrow> ClipboardPayload option \<Rightarrow> 'm \<Rightarrow> 'm \<times> runtime_error option" where
  "broadcastPayload marshal marshal_chunk broadcast env payload m =
     (case ChunkPayload marshal payload DefaultChunkSize of
        Inl e \<Rightarrow> (m, Some (ErrWire e))
      | Inr chunks \<Rightarrow> broadcast_chunks marshal_chunk broadcast env 0 chunks m)"

text \<open>\<open>errors.Is(err, context.Canceled)\<close>; \<open>canceled\<close> is the text of that error.\<close>

fun is_canceled :: "string \<Rightarrow> mesh_error \<Rightarrow> bool" where
  "is_canceled canceled (ErrContext e) \<longleftrightarrow> e = canceled"
| "is_canceled canceled (ErrJoined es) \<longleftrightarrow> (\<exists>e \<in> set es. is_canceled canceled (snd e))"
| "is_canceled canceled _ \<longleftrightarrow> False"

fun runtime_canceled :: "string \<Rightarrow> runtime_error \<Rightarrow> bool" where
  "runtime_canceled canceled (ErrMesh e) \<longleftrightarrow> is_canceled canceled e"
| "runtime_canceled canceled _ \<longleftrightarrow> False"

text \<open>One payload received from \<open>clipboard.Events()\<close> in \<open>runClipboardLoop\<close>.\<close>

definition clipboard_event ::
    "string \<Rightarrow> (ClipboardPayload option \<Rightarrow> 'm \<Rightarrow> 'm \<times> runtime_error option)
     \<Rightarrow> ClipboardPayload option \<Rightarrow> 'c Runtime \<times> 'm \<Rightarrow> 'c Runtime \<times> 'm" where
  "clipboard_event canceled send payload rm =
     (case rm of (r, m) \<Rightarrow>
        if payload = None then (r, m)
        else
          let r = log_line (ClipboardEvent (GetType payload) (GetSizeBytes payload)) r in
          case send payload m of
            (m, None) \<Rightarrow> (r, m)
          | (m, Some e) \<Rightarrow>
              (if \<not> runtime_canceled canceled e then log_line (BroadcastFailed e) r else r, m))"

section \<open>Receiving\<close>

definition handleFrame ::
    "(bytes \<Rightarrow> string + PayloadChunk) \<Rightarrow> (bytes \<Rightarrow> string + ClipboardPayload)
     \<Rightarrow> (ClipboardPayload option \<Rightarrow> 'c \<Rightarrow> 'c \<times> clip_error option)
     \<Rightarrow> Peer \<Rightarrow> bytes \<Rightarrow> 'c Runtime \<Rightarrow> string option \<times> 'c Runtime" where
  "handleFrame unmarshal_chunk unmarshal apply_remote from frame r =
     (case unmarshal_chunk frame of
        Inl e \<Rightarrow> (None, log_line (DroppedFrame (peer_ID from) e) r)
      | Inr chunk \<Rightarrow>
          (case Add unmarshal (rt_reassembler r) (Some chunk) of
             (ra, result) \<Rightarrow>
               let r = r\<lparr>rt_reassembler := ra\<rparr> in
               case result of
                 Inl e \<Rightarrow> (None, log_line (DroppedChunk (peer_ID from) e) r)
               | Inr None \<Rightarrow> (None, r)
               | Inr (Some payload) \<Rightarrow>
                   (case apply_remote (Some payload) (rt_clipboard r) of
                      (c, Some e) \<Rightarrow>
                        (None, log_line (ApplyFailed (peer_ID from) e) (r\<lparr>rt_clipboard := c\<rparr>))
                    | (c, None) \<Rightarrow>
                        (None, log_line (Applied (peer_ID from) (GetType (Some payload))
                                           (GetSizeBytes (Some payload)))
                                 (r\<lparr>rt_clipboard := c\<rparr>)))))"

text \<open>What a run of received frames leaves.\<close>

definition receive_frames ::
    "(bytes \<Rightarrow> string + PayloadChunk) \<Rightarrow> (bytes \<Rightarrow> string + ClipboardPayload)
     \<Rightarrow> (ClipboardPayload option \<Rightarrow> 'c \<Rightarrow> 'c \<times> clip_error option)
     \<Rightarrow> (Peer \<times> bytes) list \<Rightarrow> 'c Runtime \<Rightarrow> 'c Runtime" where
  "receive_frames unmarshal_chunk unmarshal apply_remote frames r =
     fold (\<lambda>(from, frame) r. snd (handleFrame unmarshal_chunk unmarshal apply_remote from frame r)) frames r"

section \<open>Peers and status\<close>

record PeerStatus =
  pst_ID :: string
  pst_Name :: string
  pst_Host :: string
  pst_Port :: int
  pst_Connected :: bool
  pst_LastSeen :: time

record Status =
  st_Running :: bool
  st_Name :: string
  st_NodeID :: string
  st_StartedAt :: time
  st_Peers :: "PeerStatus list"

definition peer_status :: "Peer \<Rightarrow> PeerStatus" where
  "peer_status peer =
     \<lparr>pst_ID = peer_ID peer, pst_Name = peer_Name peer, pst_Host = peer_Host peer,
      pst_Port = peer_Port peer, pst_Connected = peer_Connected peer,
      pst_LastSeen = peer_LastSeen peer\<rparr>"

definition Runtime_Status :: "string \<Rightarrow> string \<Rightarrow> Peer list \<Rightarrow> 'c Runtime \<Rightarrow> Status" where
  "Runtime_Status name nodeID peers r =
     \<lparr>st_Running = True, st_Name = name, st_NodeID = nodeID, st_StartedAt = rt_startedAt r,
      st_Peers = map peer_status peers\<rparr>"

text \<open>
  \<open>logPeerChanges\<close>: the peers in the order of \<open>Peers\<close>, then the peers that are gone, in the
  order \<open>range\<close> yields the keys of the old table.
\<close>

definition log_peer :: "(string, bool) fmap \<Rightarrow> Peer \<Rightarrow> runtime_error log_entry list" where
  "log_peer peerSeen peer =
     (case fmlookup peerSeen (peer_ID peer) of
        None \<Rightarrow> [PeerDiscovered (peer_ID peer) (peer_Name peer) (peer_Host peer) (peer_Port peer)
                   (peer_Connected peer)]
      | Some prev \<Rightarrow>
          if prev \<noteq> peer_Connected peer then [PeerStateChanged (peer_ID peer) (peer_Connected peer)]
          else [])"

definition current_peers :: "Peer list \<Rightarrow> (string, bool) fmap" where
  "current_peers peers =
     fold (\<lambda>peer current. fmupd (peer_ID peer) (peer_Connected peer) current) peers fmempty"

definition log_expired :: "(string, bool) fmap \<Rightarrow> string \<Rightarrow> runtime_error log_entry list" where
  "log_expired current peerID =
     (if fmlookup current peerID = None then [PeerExpired peerID] else [])"

definition logPeerChanges :: "string list \<Rightarrow> Peer list \<Rightarrow> 'c Runtime \<Rightarrow> 'c Runtime" where
  "logPeerChanges order peers r =
     (let current = current_peers peers
      in r\<lparr>rt_log := rt_log r @ concat (map (log_peer (rt_peerSeen r)) peers)
                        @ concat (map (log_expired current) order),
           rt_peerSeen := current\<rparr>)"


section \<open>The clipboard interface\<close>

text \<open>
  What the runtime relies on when it hands a payload to the clipboard: an invalid payload is
  refused and leaves the clipboard alone, and every call keeps the clipboard's invariant.
\<close>

locale clipboard_sink =
  fixes apply_remote :: "ClipboardPayload option \<Rightarrow> 'c \<Rightarrow> 'c \<times> clip_error option"
    and inv :: "'c \<Rightarrow> bool"
  assumes apply_inv: "inv c \<Longrightarrow> inv (fst (apply_remote payload c))"
    and invalid_refused: "ValidatePayload payload = Some e \<Longrightarrow>
      fst (apply_remote payload c) = c \<and> snd (apply_remote payload c) \<noteq> None"
begin

abbreviation handle :: "(bytes \<Rightarrow> string + PayloadChunk) \<Rightarrow> (bytes \<Rightarrow> string + ClipboardPayload)
    \<Rightarrow> Peer \<Rightarrow> bytes \<Rightarrow> 'c Runtime \<Rightarrow> string option \<times> 'c Runtime" where
  "handle uc up \<equiv> handleFrame uc up apply_remote"

definition runtime_inv :: "'c Runtime \<Rightarrow> bool" where
  "runtime_inv r \<longleftrightarrow> inv (rt_clipboard r) \<and> reassembler_inv (rt_reassembler r)"

text \<open>The clipboard is touched by a frame only when it completes a valid payload.\<close>

lemma handle_clipboard:
  assumes "reassembler_inv (rt_reassembler r)"
  shows "rt_clipboard (snd (handle uc up from frame r)) = rt_clipboard r
    \<or> (\<exists>p. valid_payload p
         \<and> rt_clipboard (snd (handle uc up from frame r)) = fst (apply_remote (Some p) (rt_clipboard r)))"
proof (cases "\<exists>chunk p. uc frame = Inr chunk
    \<and> snd (Add up (rt_reassembler r) (Some chunk)) = Inr (Some p)")
  case True
  then obtain chunk p where cp: "uc frame = Inr chunk"
      "snd (Add up (rt_reassembler r) (Some chunk)) = Inr (Some p)" by blast
  then have "valid_payload p" using assms by (auto elim: Add_emits)
  moreover have "rt_clipboard (snd (handle uc up from frame r)) = fst (apply_remote (Some p) (rt_clipboard r))"
    using cp by (simp add: handleFrame_def case_prod_unfold Let_def log_line_def split: option.split)
  ultimately show ?thesis by blast
next
  case False
  then have "rt_clipboard (snd (handle uc up from frame r)) = rt_clipboard r"
    by (auto simp: handleFrame_def case_prod_unfold Let_def log_line_def split: sum.split option.split)
  then show ?thesis by blast
qed

lemma handle_reassembler:
  "rt_reassembler (snd (handle uc up from frame r)) =
     (case uc frame of Inl e \<Rightarrow> rt_reassembler r
      | Inr chunk \<Rightarrow> fst (Add up (rt_reassembler r) (Some chunk)))"
  by (auto simp: handleFrame_def case_prod_unfold Let_def log_line_def split: sum.split option.split)

lemma handle_inv: "runtime_inv r \<Longrightarrow> runtime_inv (snd (handle uc up from frame r))"
  using handle_clipboard [of r uc up "from" frame]
  by (auto simp: runtime_inv_def handle_reassembler apply_inv Add_inv split: sum.split)

lemma receive_inv: "runtime_inv r \<Longrightarrow> runtime_inv (receive_frames uc up apply_remote frames r)"
  unfolding receive_frames_def
  by (induction frames arbitrary: r) (auto simp: handle_inv)

end

lemma handleFrame_nil: "fst (handleFrame uc up apply_remote from frame r) = None"
  by (auto simp: handleFrame_def case_prod_unfold Let_def split: sum.split option.split)

text \<open>The read loop of a connection with the runtime's handler never stops at a frame.\<close>

interpretation runtime_frames: frame_handler "handleFrame uc up apply_remote" for uc up apply_remote
  by unfold_locales (rule handleFrame_nil)

text \<open>\<open>ApplyRemote\<close> on the pair of the ledger and the native clipboard.\<close>

definition apply_to_clipboard ::
    "(bytes \<Rightarrow> string + 'img) \<Rightarrow> ('img \<Rightarrow> string + bytes)
     \<Rightarrow> (clipFormat \<Rightarrow> bytes \<Rightarrow> 'os \<Rightarrow> string option \<times> 'os) \<Rightarrow> string option \<Rightarrow> time
     \<Rightarrow> ClipboardPayload option \<Rightarrow> pendingLedger \<times> 'os \<Rightarrow> (pendingLedger \<times> 'os) \<times> clip_error option" where
  "apply_to_clipboard jd pe w ctx_err now payload c =
     (case ApplyRemote jd pe w ctx_err now (fst c) (snd c) payload of
        (pending, os, e) \<Rightarrow> ((pending, os), e))"

lemma apply_to_clipboard_inv:
  "ledger_inv (fst c) \<Longrightarrow> ledger_inv (fst (fst (apply_to_clipboard jd pe w ctx_err now payload c)))"
  by (auto simp: apply_to_clipboard_def ApplyRemote_def Let_def intro: remember_inv' forget_inv'
      split: option.split sum.split prod.split)


interpretation clip: clipboard_sink "apply_to_clipboard jd pe w ctx_err now" "\<lambda>c. ledger_inv (fst c)"
  for jd pe w ctx_err now
  by unfold_locales
    (auto simp: apply_to_clipboard_inv, auto simp: apply_to_clipboard_def ApplyRemote_def split: option.split)

section \<open>The transport interface\<close>

text \<open>
  What \<open>broadcastPayload\<close> relies on: a frame above the transport's limit is refused with its own
  error and sends nothing, any other frame is not refused for its size, the limit never moves,
  and the transport's invariant is kept.
\<close>

locale frame_transport =
  fixes broadcast :: "'env \<Rightarrow> bytes \<Rightarrow> 'm \<Rightarrow> 'm \<times> mesh_error option"
    and inv :: "'m \<Rightarrow> bool"
    and limit :: "'m \<Rightarrow> int"
    and too_big :: mesh_error
  assumes broadcast_inv: "inv m \<Longrightarrow> inv (fst (broadcast env frame m))"
    and limit_same: "limit (fst (broadcast env frame m)) = limit m"
    and oversize: "limit m < int (length frame) \<Longrightarrow> broadcast env frame m = (m, Some too_big)"
    and fits: "int (length frame) \<le> limit m \<Longrightarrow> snd (broadcast env frame m) \<noteq> Some too_big"
begin

lemma chunks_inv: "inv m \<Longrightarrow> inv (fst (broadcast_chunks mc broadcast env i chunks m))"
proof (induction chunks arbitrary: i m)
  case (Cons chunk chunks)
  show ?case
  proof (cases "mc chunk")
    case (Inr frame)
    then show ?thesis
      using Cons broadcast_inv [of m "env i" frame]
      by (cases "broadcast (env i) frame m"; cases "snd (broadcast (env i) frame m)") auto
  qed (use Cons in simp)
qed simp

lemma payload_inv: "inv m \<Longrightarrow> inv (fst (broadcastPayload mp mc broadcast env payload m))"
  by (auto simp: broadcastPayload_def intro: chunks_inv split: sum.split)

lemma chunks_fit:
  assumes "\<And>chunk frame. chunk \<in> set chunks \<Longrightarrow> mc chunk = Inr frame \<Longrightarrow> int (length frame) \<le> limit m"
  shows "snd (broadcast_chunks mc broadcast env i chunks m) \<noteq> Some (ErrMesh too_big)"
  using assms
proof (induction chunks arbitrary: i m)
  case (Cons chunk chunks)
  show ?case
  proof (cases "mc chunk")
    case (Inr frame)
    then have "snd (broadcast (env i) frame m) \<noteq> Some too_big"
      by (intro fits Cons.prems [of chunk]) simp_all
    moreover have "limit (fst (broadcast (env i) frame m)) = limit m" by (rule limit_same)
    ultimately show ?thesis
      using Cons.IH [of "fst (broadcast (env i) frame m)" "Suc i"] Cons.prems Inr
      by (cases "broadcast (env i) frame m"; cases "snd (broadcast (env i) frame m)") auto
  qed simp
qed simp

end

text \<open>
  What the environment decides in one \<open>Broadcast\<close>: the choices of the \<open>select\<close>s, the order of
  the peers, and the error of the caller's context.
\<close>

type_synonym broadcast_env = "(string \<Rightarrow> nat) \<times> string list \<times> string option"

definition mesh_broadcast :: "broadcast_env \<Rightarrow> bytes \<Rightarrow> Manager \<Rightarrow> Manager \<times> mesh_error option" where
  "mesh_broadcast env frame m =
     (case env of (pick, order, ctx_err) \<Rightarrow> Broadcast pick order ctx_err frame m)"

lemma mesh_broadcast_frame:
  "mg_opts (fst (mesh_broadcast env frame m)) = mg_opts m"
  by (cases env) (simp add: mesh_broadcast_def Broadcast_def case_prod_unfold broadcast_loop_tables)

interpretation transport: frame_transport mesh_broadcast mesh_inv "\<lambda>m. o_MaxFrameBytes (mg_opts m)"
    ErrInvalidFrame
proof
  fix m env frame
  show "mesh_inv m \<Longrightarrow> mesh_inv (fst (mesh_broadcast env frame m))"
    by (cases env) (simp add: mesh_broadcast_def Broadcast_inv)
  show "o_MaxFrameBytes (mg_opts (fst (mesh_broadcast env frame m))) = o_MaxFrameBytes (mg_opts m)"
    by (simp add: mesh_broadcast_frame)
  show "o_MaxFrameBytes (mg_opts m) < int (length frame) \<Longrightarrow>
      mesh_broadcast env frame m = (m, Some ErrInvalidFrame)"
    by (cases env) (simp add: mesh_broadcast_def Broadcast_def)
  show "int (length frame) \<le> o_MaxFrameBytes (mg_opts m) \<Longrightarrow>
      snd (mesh_broadcast env frame m) \<noteq> Some ErrInvalidFrame"
    by (cases env) (simp add: mesh_broadcast_def Broadcast_def case_prod_unfold)
qed

end
