(* ===== verification/Delivery.thy ===== *)
theory Delivery
  imports Runtime
begin

text \<open>
  What crosses the mesh: a successful broadcast puts the frame at the end of the queue of every
  active connection, a successful \<open>broadcastPayload\<close> puts all the chunk frames there in order,
  and a runtime that receives these frames, in any order and among others, hands exactly the
  payload to its clipboard when the last missing one arrives.
\<close>

section \<open>Sending to every active connection\<close>

lemma enqueue_to_conns:
  assumes "fmlookup (mg_conns m) cid = Some c"
  shows "enqueue_to pick e cid frame m =
    (set_conn cid (snd (enqueue pick e c frame)) m, fst (enqueue pick e c frame))"
  using assms by (simp add: enqueue_to_def case_prod_unfold)

text \<open>\<open>activeConn\<close>, and the active connections of the peers in a list.\<close>

definition active_conn :: "Manager \<Rightarrow> string \<Rightarrow> nat option" where
  "active_conn m p = Option.bind (fmlookup (mg_peers m) p) ps_conn"

lemma active_conn_Some:
  "active_conn m p = Some cid \<longleftrightarrow> (\<exists>ps. fmlookup (mg_peers m) p = Some ps \<and> ps_conn ps = Some cid)"
  by (simp add: active_conn_def bind_eq_Some_conv)

definition active_cids :: "Manager \<Rightarrow> string list \<Rightarrow> nat list" where
  "active_cids m order = map (\<lambda>p. the (active_conn m p)) (filter (\<lambda>p. active_conn m p \<noteq> None) order)"

lemma in_active_cids:
  "cid \<in> set (active_cids m order) \<longleftrightarrow> (\<exists>q \<in> set order. active_conn m q = Some cid)"
  by (force simp: active_cids_def)

lemma active_cids_cong: "mg_peers m' = mg_peers m \<Longrightarrow> active_cids m' order = active_cids m order"
  by (simp add: active_cids_def active_conn_def)

lemma active_cids_Cons:
  "active_cids m (p # order) =
     (case active_conn m p of None \<Rightarrow> [] | Some cid \<Rightarrow> [cid]) @ active_cids m order"
  by (simp add: active_cids_def split: option.split)

lemma active_conn_inj:
  assumes inv: "mesh_inv m" and "active_conn m p = Some cid" "active_conn m q = Some cid"
  shows "p = q"
proof -
  obtain ps qs where "fmlookup (mg_peers m) p = Some ps" "ps_conn ps = Some cid"
      "fmlookup (mg_peers m) q = Some qs" "ps_conn qs = Some cid"
    using assms(2,3) unfolding active_conn_Some by blast
  then show ?thesis using mesh_invD(3) [OF inv] by (metis option.inject)
qed

lemma active_cids_distinct:
  assumes inv: "mesh_inv m" and "distinct order"
  shows "distinct (active_cids m order)"
  using assms(2)
proof (induction order)
  case (Cons p order)
  have "cid \<notin> set (active_cids m order)" if "active_conn m p = Some cid" for cid
    using active_conn_inj [OF inv that] Cons.prems by (auto simp: in_active_cids)
  then show ?case
    using Cons by (auto simp: active_cids_Cons split: option.split)
qed (simp add: active_cids_def)

text \<open>One round of the broadcast loop: a peer without a connection, and one with.\<close>

lemma broadcast_loop_skip:
  assumes "active_conn m p = None"
  shows "broadcast_loop pick e frame (p # order) m errs = broadcast_loop pick e frame order m errs"
  using assms by (cases "fmlookup (mg_peers m) p") (auto simp: active_conn_def)

lemma broadcast_loop_turn:
  assumes inv: "mesh_inv m" and "active_conn m p = Some i"
  obtains c errs' where "fmlookup (mg_conns m) i = Some c" "mc_peerID c = p"
    "mesh_inv (set_conn i (snd (enqueue (pick p) e c frame)) m)"
    "broadcast_loop pick e frame (p # order) m errs
      = broadcast_loop pick e frame order (set_conn i (snd (enqueue (pick p) e c frame)) m) errs'"
proof -
  obtain ps where ps: "fmlookup (mg_peers m) p = Some ps" "ps_conn ps = Some i"
    using assms(2) unfolding active_conn_Some by blast
  then obtain c where c: "fmlookup (mg_conns m) i = Some c" "mc_peerID c = p"
    using mesh_invD(3) [OF inv] by blast
  moreover have "mesh_inv (set_conn i (snd (enqueue (pick p) e c frame)) m)"
    using enqueue_to_inv [OF inv] enqueue_to_conns [OF c(1)] by (metis fst_conv)
  moreover have "\<exists>errs'. broadcast_loop pick e frame (p # order) m errs
      = broadcast_loop pick e frame order (set_conn i (snd (enqueue (pick p) e c frame)) m) errs'"
    using ps enqueue_to_conns [OF c(1), of "pick p" e frame]
    by (cases "fst (enqueue (pick p) e c frame)") auto
  ultimately show thesis using that by blast
qed

text \<open>
  The broadcast loop, connection by connection: an error for each queue that could not take the
  frame, the others one frame longer.
\<close>

lemma broadcast_loop_conns:
  assumes inv: "mesh_inv m" and "distinct (active_cids m order)"
  shows "fmlookup (mg_conns (fst (broadcast_loop pick e frame order m errs))) cid =
     (case fmlookup (mg_conns m) cid of
        None \<Rightarrow> None
      | Some c \<Rightarrow>
          if cid \<in> set (active_cids m order)
          then Some (snd (enqueue (pick (mc_peerID c)) e c frame)) else Some c)"
  using assms
proof (induction order arbitrary: m errs)
  case Nil
  then show ?case by (simp add: active_cids_def split: option.split)
next
  case (Cons p order)
  show ?case
  proof (cases "active_conn m p")
    case None
    moreover have "active_cids m (p # order) = active_cids m order"
      using None by (simp add: active_cids_Cons)
    ultimately show ?thesis
      using Cons.IH [OF Cons.prems(1)] Cons.prems(2) broadcast_loop_skip [OF None] by presburger
  next
    case (Some i)
    obtain c errs' where c: "fmlookup (mg_conns m) i = Some c" "mc_peerID c = p"
      and inv': "mesh_inv (set_conn i (snd (enqueue (pick p) e c frame)) m)"
      and turn: "broadcast_loop pick e frame (p # order) m errs
        = broadcast_loop pick e frame order (set_conn i (snd (enqueue (pick p) e c frame)) m) errs'"
      using broadcast_loop_turn [OF Cons.prems(1) Some] by metis
    have act: "active_cids m (p # order) = i # active_cids m order"
      using Some by (simp add: active_cids_Cons)
    moreover have act': "active_cids (set_conn i c' m) order = active_cids m order" for c'
      by (intro active_cids_cong) simp
    ultimately show ?thesis
      using Cons.IH [OF inv'] Cons.prems(2) c unfolding turn by (auto split: option.split)
  qed
qed

text \<open>The errors the loop collects: the peers whose queue refused the frame, each with why.\<close>

definition send_result ::
    "(string \<Rightarrow> nat) \<Rightarrow> string option \<Rightarrow> bytes \<Rightarrow> Manager \<Rightarrow> string \<Rightarrow> mesh_error option" where
  "send_result pick e frame m p =
     (case active_conn m p of
        None \<Rightarrow> None
      | Some cid \<Rightarrow> fst (enqueue (pick p) e (the (fmlookup (mg_conns m) cid)) frame))"

definition send_errors ::
    "(string \<Rightarrow> nat) \<Rightarrow> string option \<Rightarrow> bytes \<Rightarrow> Manager \<Rightarrow> string list \<Rightarrow> (string \<times> mesh_error) list" where
  "send_errors pick e frame m order =
     concat (map (\<lambda>p. case send_result pick e frame m p of None \<Rightarrow> [] | Some x \<Rightarrow> [(p, x)]) order)"

lemma broadcast_loop_errs:
  assumes inv: "mesh_inv m" and "distinct order"
  shows "snd (broadcast_loop pick e frame order m errs) = errs @ send_errors pick e frame m order"
  using assms
proof (induction order arbitrary: m errs)
  case Nil
  then show ?case by (simp add: send_errors_def)
next
  case (Cons p order)
  show ?case
  proof (cases "active_conn m p")
    case None
    then have "broadcast_loop pick e frame (p # order) m errs = broadcast_loop pick e frame order m errs"
      by (cases "fmlookup (mg_peers m) p") (auto simp: active_conn_def)
    then show ?thesis using Cons None by (simp add: send_errors_def send_result_def)
  next
    case (Some i)
    then obtain ps where ps: "fmlookup (mg_peers m) p = Some ps" "ps_conn ps = Some i"
      unfolding active_conn_Some by blast
    then obtain c where c: "fmlookup (mg_conns m) i = Some c"
      using mesh_invD(3) [OF Cons.prems(1)] by blast
    let ?m = "set_conn i (snd (enqueue (pick p) e c frame)) m"
    have inv': "mesh_inv ?m"
      using enqueue_to_inv [OF Cons.prems(1)] enqueue_to_conns [OF c] by (metis fst_conv)
    have "send_result pick e frame ?m q = send_result pick e frame m q" if "q \<in> set order" for q
      using that active_conn_inj [OF Cons.prems(1) Some, of q] Cons.prems(2)
      by (auto simp: send_result_def active_conn_def split: option.split)
    then have "send_errors pick e frame ?m order = send_errors pick e frame m order"
      unfolding send_errors_def by (intro arg_cong [where f = concat] map_cong) simp_all
    moreover have "send_result pick e frame m p = fst (enqueue (pick p) e c frame)"
      using Some c by (simp add: send_result_def)
    ultimately show ?thesis
      using ps enqueue_to_conns [OF c, of "pick p" e frame] Cons.IH [OF inv'] Cons.prems(2)
      by (cases "fst (enqueue (pick p) e c frame)") (simp_all add: send_errors_def)
  qed
qed

text \<open>
  \<open>Broadcast\<close> over an enumeration of the peer table: it fails exactly if some active queue
  refuses the frame, and every queue that does not refuse it has got it, whatever the order.
\<close>

lemma Broadcast_result:
  assumes inv: "mesh_inv m" and "distinct order" and "set order = fset (fmdom (mg_peers m))"
    and "int (length frame) \<le> o_MaxFrameBytes (mg_opts m)"
  shows "snd (Broadcast pick order e frame m) = None \<longleftrightarrow> (\<forall>p. send_result pick e frame m p = None)"
    and "active_conn m p = Some cid \<Longrightarrow> fmlookup (mg_conns m) cid = Some c \<Longrightarrow>
      fmlookup (mg_conns (fst (Broadcast pick order e frame m))) cid = Some
        (if send_result pick e frame m p = None then c\<lparr>mc_sendQ := mc_sendQ c @ [frame]\<rparr> else c)"
    and "(\<And>p. active_conn m p \<noteq> Some cid) \<Longrightarrow>
      fmlookup (mg_conns (fst (Broadcast pick order e frame m))) cid = fmlookup (mg_conns m) cid"
proof -
  have fst_eq: "fst (Broadcast pick order e frame m) = fst (broadcast_loop pick e frame order m [])"
    using assms(4) by (simp add: Broadcast_def case_prod_unfold)
  have in_order: "p \<in> set order" if "active_conn m p \<noteq> None" for p
    using that fmdomI [of "mg_peers m" p] unfolding assms(3)
    by (cases "fmlookup (mg_peers m) p") (simp_all add: active_conn_def)
  note conns = broadcast_loop_conns [OF inv active_cids_distinct [OF inv assms(2)],
      of pick e frame "[]", folded fst_eq]
  have "send_errors pick e frame m order = [] \<longleftrightarrow> (\<forall>p. send_result pick e frame m p = None)"
  proof -
    have "send_errors pick e frame m order = [] \<longleftrightarrow> (\<forall>p \<in> set order. send_result pick e frame m p = None)"
      by (auto simp: send_errors_def split: option.split)
    moreover have "send_result pick e frame m p = None" if "p \<notin> set order" for p
      using in_order that by (cases "active_conn m p") (auto simp: send_result_def)
    ultimately show ?thesis by blast
  qed
  then show "snd (Broadcast pick order e frame m) = None \<longleftrightarrow> (\<forall>p. send_result pick e frame m p = None)"
    using assms(4) broadcast_loop_errs [OF inv assms(2), of pick e frame "[]"]
    by (simp add: Broadcast_def case_prod_unfold)
  { assume a: "active_conn m p = Some cid" and c: "fmlookup (mg_conns m) cid = Some c"
    then have "mc_peerID c = p" "cid \<in> set (active_cids m order)"
      using mesh_invD(3) [OF inv, of p _ cid] in_order [of p]
      by (auto simp: active_conn_Some in_active_cids)
    then show "fmlookup (mg_conns (fst (Broadcast pick order e frame m))) cid = Some
        (if send_result pick e frame m p = None then c\<lparr>mc_sendQ := mc_sendQ c @ [frame]\<rparr> else c)"
      using conns [of cid] a c enqueue_cases [of "pick p" e c frame]
      by (cases "enqueue (pick p) e c frame") (auto simp: send_result_def) }
  { assume "\<And>p. active_conn m p \<noteq> Some cid"
    then show "fmlookup (mg_conns (fst (Broadcast pick order e frame m))) cid = fmlookup (mg_conns m) cid"
      using conns [of cid] by (simp add: in_active_cids split: option.split) }
qed


section \<open>Sending a payload\<close>

definition enumerates :: "string list \<Rightarrow> Manager \<Rightarrow> bool" where
  "enumerates order m \<longleftrightarrow> distinct order \<and> set order = fset (fmdom (mg_peers m))"

lemma mesh_broadcast_ok:
  assumes inv: "mesh_inv m" and ord: "enumerates (fst (snd env)) m"
    and ok: "mesh_broadcast env frame m = (m', None)"
    and a: "active_conn m p = Some cid" and c: "fmlookup (mg_conns m) cid = Some c"
  shows "mesh_inv m'" "mg_peers m' = mg_peers m"
    "fmlookup (mg_conns m') cid = Some (c\<lparr>mc_sendQ := mc_sendQ c @ [frame]\<rparr>)"
proof -
  obtain pick order e where env: "env = (pick, order, e)" by (cases env)
  have b: "Broadcast pick order e frame m = (m', None)"
    using ok by (simp add: env mesh_broadcast_def)
  then have len: "int (length frame) \<le> o_MaxFrameBytes (mg_opts m)"
    by (auto simp: Broadcast_def split: if_splits)
  note result = Broadcast_result [where order = order and pick = pick and e = e, OF inv _ _ len]
  show "mesh_inv m'" using Broadcast_inv [OF inv, of pick order e frame] b by simp
  show "mg_peers m' = mg_peers m"
    using b broadcast_loop_tables [of pick e frame order m "[]"] len
    by (auto simp: Broadcast_def case_prod_unfold)
  show "fmlookup (mg_conns m') cid = Some (c\<lparr>mc_sendQ := mc_sendQ c @ [frame]\<rparr>)"
    using result(1) result(2) [OF _ _ a c] ord b env by (simp add: enumerates_def)
qed

lemma broadcast_chunks_ok:
  assumes "mesh_inv m" and "\<And>i. enumerates (fst (snd (env i))) m"
    and "broadcast_chunks mc mesh_broadcast env i chunks m = (m', None)"
    and "active_conn m p = Some cid" and "fmlookup (mg_conns m) cid = Some c"
  shows "\<exists>frames. map mc chunks = map Inr frames
    \<and> fmlookup (mg_conns m') cid = Some (c\<lparr>mc_sendQ := mc_sendQ c @ frames\<rparr>)"
  using assms
proof (induction chunks arbitrary: i m c)
  case Nil
  then show ?case by simp
next
  case (Cons chunk chunks)
  obtain frame m1 where step: "mc chunk = Inr frame" "mesh_broadcast (env i) frame m = (m1, None)"
      "broadcast_chunks mc mesh_broadcast env (Suc i) chunks m1 = (m', None)"
    using Cons.prems(3) by (auto split: sum.splits prod.splits option.splits)
  note one = mesh_broadcast_ok [OF Cons.prems(1,2) step(2) Cons.prems(4,5)]
  have "\<exists>frames. map mc chunks = map Inr frames \<and> fmlookup (mg_conns m') cid = Some
      ((c\<lparr>mc_sendQ := mc_sendQ c @ [frame]\<rparr>)
        \<lparr>mc_sendQ := mc_sendQ (c\<lparr>mc_sendQ := mc_sendQ c @ [frame]\<rparr>) @ frames\<rparr>)"
    using Cons.prems(2,4) one(2)
    by (intro Cons.IH [OF one(1) _ step(3) _ one(3)]) (simp_all add: enumerates_def active_conn_def)
  then obtain frames where "map mc chunks = map Inr frames" "fmlookup (mg_conns m') cid =
      Some (c\<lparr>mc_sendQ := mc_sendQ c @ [frame] @ frames\<rparr>)" by auto
  then show ?case using step(1) by (intro exI [of _ "frame # frames"]) simp
qed

section \<open>Coders\<close>

text \<open>
  What the program relies on of protobuf: decoding an encoded message gives it back, an encoded
  message is shorter than 2 GiB, and the empty encoding is the message with no field set.
\<close>

definition payload_codec ::
    "(ClipboardPayload \<Rightarrow> string + bytes) \<Rightarrow> (bytes \<Rightarrow> string + ClipboardPayload) \<Rightarrow> bool" where
  "payload_codec marshal unmarshal \<longleftrightarrow>
     (\<forall>p s. marshal p = Inr s \<longrightarrow> unmarshal s = Inr p \<and> length s < 2 ^ 31)
     \<and> unmarshal [] = Inr zero_ClipboardPayload"

definition chunk_codec ::
    "(PayloadChunk \<Rightarrow> string + bytes) \<Rightarrow> (bytes \<Rightarrow> string + PayloadChunk) \<Rightarrow> bool" where
  "chunk_codec marshal_chunk unmarshal_chunk \<longleftrightarrow>
     (\<forall>c f. marshal_chunk c = Inr f \<longrightarrow> unmarshal_chunk f = Inr c)"

lemma marshalled_payload:
  assumes "payload_codec marshal unmarshal" and "valid_payload p" and "marshal p = Inr s"
  shows "unmarshal s = Inr p" "s \<noteq> []" "length s < 2 ^ 31"
  using assms zero_ClipboardPayload_invalid by (auto simp: payload_codec_def)

text \<open>A successful \<open>ChunkPayload\<close>: the pieces of the serialised payload, a chunkable transfer.\<close>

lemma piece_count_le: "0 < c \<Longrightarrow> piece_count c n \<le> n"
proof -
  assume c: "0 < c"
  have "(n + c - 1) div c \<le> n"
  proof (cases "n = 0")
    case True
    then show ?thesis using c by simp
  next
    case False
    then obtain k where "n = Suc k" by (cases n) auto
    then have "(n + c - 1) div c = k div c + 1" using c by simp
    also have "\<dots> \<le> n" using \<open>n = Suc k\<close> by (simp add: div_le_dividend)
    finally show ?thesis .
  qed
  then show ?thesis by (simp add: piece_count_def)
qed

lemma ChunkPayload_ok:
  assumes codec: "payload_codec marshal unmarshal" and size: "0 < n" "n < 2 ^ 62"
    and ok: "ChunkPayload marshal (Some p) (int n) = Inr chunks"
  obtains s where "marshal p = Inr s" "valid_payload p" "unmarshal s = Inr p"
    "chunkable (cp_Sha256 p) s n" "chunks = chunks_of (cp_Sha256 p) s n"
proof -
  have v: "ValidatePayload (Some p) = None"
    using ok by (auto simp: ChunkPayload_def split: option.splits)
  then obtain s where s: "marshal p = Inr s"
    using ok size by (auto simp: ChunkPayload_def validateChunkSize_def split: sum.splits)
  have vp: "valid_payload p" using v by (simp add: ValidatePayload_valid)
  note m = marshalled_payload [OF codec vp s]
  have "piece_count n (length s) < 2 ^ 32"
    using piece_count_le [OF size(1), of "length s"] m(3) by simp
  then have "chunkable (cp_Sha256 p) s n"
    using m size valid_payloadD(3) [OF vp] by (simp add: chunkable_def)
  moreover have "chunks = chunks_of (cp_Sha256 p) s n"
    using ChunkPayload_eq [where marshal = marshal, OF v size(1) s] ok m(3) size by simp
  ultimately show thesis using that s vp m(1) by blast
qed


section \<open>Receiving a payload\<close>

text \<open>The chunks in a run of frames; a frame that does not decode is dropped.\<close>

definition decoded :: "(bytes \<Rightarrow> string + PayloadChunk) \<Rightarrow> (Peer \<times> bytes) list \<Rightarrow> PayloadChunk option list" where
  "decoded uc frames =
     concat (map (\<lambda>x. case uc (snd x) of Inl e \<Rightarrow> [] | Inr c \<Rightarrow> [Some c]) frames)"

lemma decoded_simps [simp]:
  "decoded uc [] = []"
  "decoded uc (x # xs) = (case uc (snd x) of Inl e \<Rightarrow> [] | Inr c \<Rightarrow> [Some c]) @ decoded uc xs"
  "decoded uc (xs @ ys) = decoded uc xs @ decoded uc ys"
  by (simp_all add: decoded_def)

lemma receive_simps [simp]:
  "receive_frames uc up ar [] r = r"
  "receive_frames uc up ar (x # xs) r =
     receive_frames uc up ar xs (snd (handleFrame uc up ar (fst x) (snd x) r))"
  "receive_frames uc up ar (xs @ ys) r = receive_frames uc up ar ys (receive_frames uc up ar xs r)"
  by (simp_all add: receive_frames_def case_prod_unfold)

lemma handleFrame_cases:
  obtains (garbage) e where "uc frame = Inl e"
      "snd (handleFrame uc up ar src frame r) = log_line (DroppedFrame (peer_ID src) e) r"
  | (chunk) c where "uc frame = Inr c"
      "rt_reassembler (snd (handleFrame uc up ar src frame r)) = fst (Add up (rt_reassembler r) (Some c))"
      "\<And>p. snd (Add up (rt_reassembler r) (Some c)) = Inr (Some p) \<Longrightarrow>
        rt_clipboard (snd (handleFrame uc up ar src frame r)) = fst (ar (Some p) (rt_clipboard r))"
      "(\<And>p. snd (Add up (rt_reassembler r) (Some c)) \<noteq> Inr (Some p)) \<Longrightarrow>
        rt_clipboard (snd (handleFrame uc up ar src frame r)) = rt_clipboard r"
proof (cases "uc frame")
  case (Inl e)
  then show thesis using garbage by (simp add: handleFrame_def)
next
  case (Inr c)
  then show thesis
    by (intro chunk [OF Inr])
      (auto simp: handleFrame_def case_prod_unfold Let_def log_line_def split: sum.splits option.splits)
qed

lemma receive_reassembler:
  "rt_reassembler (receive_frames uc up ar frames r) =
     fst (feed up (rt_reassembler r) (decoded uc frames))"
proof (induction frames arbitrary: r)
  case (Cons x frames)
  show ?case
    by (cases rule: handleFrame_cases [of uc "snd x" up ar "fst x" r])
      (simp_all add: Cons.IH log_line_def Let_def case_prod_unfold)
qed simp

lemma receive_clipboard_same:
  assumes "\<And>p. Inr (Some p) \<notin> set (snd (feed up (rt_reassembler r) (decoded uc frames)))"
  shows "rt_clipboard (receive_frames uc up ar frames r) = rt_clipboard r"
  using assms
proof (induction frames arbitrary: r)
  case (Cons x frames)
  show ?case
  proof (cases rule: handleFrame_cases [of uc "snd x" up ar "fst x" r])
    case (garbage e)
    then show ?thesis using Cons by (simp add: log_line_def)
  next
    case (chunk c)
    have *: "snd (Add up (rt_reassembler r) (Some c)) \<noteq> Inr (Some p)"
      "Inr (Some p) \<notin> set (snd (feed up (fst (Add up (rt_reassembler r) (Some c))) (decoded uc frames)))"
      for p
      using Cons.prems [of p] chunk(1) by (auto simp: Let_def case_prod_unfold)
    show ?thesis
      using Cons.IH [of "snd (handleFrame uc up ar (fst x) (snd x) r)"] *(2) chunk(4) [OF *(1)]
      unfolding chunk(2) by simp
  qed
qed simp

text \<open>The frame with the last missing chunk of a payload makes the runtime apply it.\<close>

lemma receive_completes:
  assumes codec: "payload_codec marshal up" and size: "0 < n" "n < 2 ^ 62"
    and chunks: "ChunkPayload marshal (Some p) (int n) = Inr chunks"
    and inv: "reassembler_inv (rt_reassembler r)"
    and new: "fmlookup (ra_inflight (rt_reassembler r)) (cp_Sha256 p) = None"
    and genuine: "\<And>c. Some c \<in> set (decoded uc frames) \<Longrightarrow> pc_TransferId c = cp_Sha256 p \<Longrightarrow> c \<in> set chunks"
    and missing: "last_chunk \<in> set chunks" "Some last_chunk \<notin> set (decoded uc frames)"
      "set chunks - {last_chunk} \<subseteq> {c. Some c \<in> set (decoded uc frames)}"
    and arrives: "uc frame = Inr last_chunk"
  shows "rt_clipboard (snd (handleFrame uc up ar src frame (receive_frames uc up ar frames r)))
      = fst (ar (Some p) (rt_clipboard (receive_frames uc up ar frames r)))"
proof -
  obtain s where s: "valid_payload p" "up s = Inr p" "chunkable (cp_Sha256 p) s n"
      "chunks = chunks_of (cp_Sha256 p) s n"
    using ChunkPayload_ok [OF codec size chunks] by metis
  let ?t = "cp_Sha256 p" and ?ys = "decoded uc frames" and ?k = "piece_count n (length s)"
  obtain i where i: "i < ?k" "last_chunk = chunk_of ?t s n i"
    using missing(1) s(4) by (auto simp: chunks_of_def)
  have mem: "chunk_of ?t s n j \<in> set chunks" if "j < ?k" for j
    using that s(4) by (auto simp: chunks_of_def)
  have "genuine ?t s n ?ys"
    unfolding genuine_def
  proof (intro ballI impI)
    fix y assume y: "y \<in> set ?ys" "GetTransferId y = ?t"
    then obtain c where "y = Some c" by (auto simp: decoded_def split: sum.splits)
    then show "y \<in> Some ` set (chunks_of ?t s n)" using genuine y s(4) by auto
  qed
  moreover have "got ?t s n ?ys = {..<?k} - {i}"
    using missing(2,3) i mem chunk_of_inj [OF s(3)] by (auto simp: got_def)
  ultimately have add: "Add up (fst (feed up (rt_reassembler r) ?ys)) (Some (chunk_of ?t s n i)) =
      (delete_transfer ?t (fst (feed up (rt_reassembler r) ?ys)), finish_transfer up ?t s)"
    by (intro feed_completes [OF s(3) inv new] i)
  moreover have "finish_transfer up ?t s = Inr (Some p)"
    using s by (simp add: finish_transfer_Some)
  ultimately have result: "snd (Add up (rt_reassembler (receive_frames uc up ar frames r)) (Some last_chunk))
      = Inr (Some p)"
    by (simp add: receive_reassembler i(2))
  show ?thesis
  proof (cases rule: handleFrame_cases [of uc frame up ar src "receive_frames uc up ar frames r"])
    case (garbage e)
    then show ?thesis using arrives by simp
  next
    case (chunk c)
    then show ?thesis using arrives result by simp
  qed
qed


text \<open>The frames of a chunkable transfer, as the receiver decodes them.\<close>

lemma sent_frames:
  assumes ok: "chunkable t s n" and codec: "chunk_codec mc uc"
    and frames: "map mc (chunks_of t s n) = map Inr frames"
  shows "length frames = piece_count n (length s)" "0 < piece_count n (length s)"
    and "\<And>j. j < piece_count n (length s) \<Longrightarrow> uc (frames ! j) = Inr (chunk_of t s n j)"
    and "\<And>j. j \<le> piece_count n (length s) \<Longrightarrow>
      decoded uc (map (Pair src) (take j frames)) = map (\<lambda>i. Some (chunk_of t s n i)) [0..<j]"
proof -
  show len: "length frames = piece_count n (length s)" and "0 < piece_count n (length s)"
    using map_eq_imp_length_eq [OF frames] ok piece_count_step [of n "length s"]
    by (auto simp: chunks_of_def chunkable_def)
  show uc: "uc (frames ! j) = Inr (chunk_of t s n j)" if "j < piece_count n (length s)" for j
  proof -
    have "mc (chunks_of t s n ! j) = Inr (frames ! j)"
      using arg_cong [OF frames, of "\<lambda>xs. xs ! j"] that len by (simp add: chunks_of_def)
    then show ?thesis using codec that by (simp add: chunk_codec_def chunks_of_def)
  qed
  show "decoded uc (map (Pair src) (take j frames)) = map (\<lambda>i. Some (chunk_of t s n i)) [0..<j]"
    if "j \<le> piece_count n (length s)" for j
    using that
  proof (induction j)
    case (Suc j)
    then show ?case using uc [of j] len by (simp add: take_Suc_conv_app_nth)
  qed simp
qed

text \<open>As long as one genuine chunk is missing, the clipboard is left alone.\<close>

lemma incomplete_quiet:
  assumes ok: "chunkable t s n" and inv: "reassembler_inv (rt_reassembler r)"
    and new: "fmlookup (ra_inflight (rt_reassembler r)) t = None"
    and dec: "decoded uc frames = map (\<lambda>i. Some (chunk_of t s n i)) [0..<j]"
    and j: "j < piece_count n (length s)"
  shows "rt_clipboard (receive_frames uc up ar frames r) = rt_clipboard r"
proof (rule receive_clipboard_same)
  fix q
  have gen: "genuine t s n (decoded uc frames)"
    unfolding dec genuine_def using j by (force simp: chunks_of_def)
  have "j \<notin> got t s n (decoded uc frames)"
  proof
    assume "j \<in> got t s n (decoded uc frames)"
    then obtain i where "i < j" "chunk_of t s n j = chunk_of t s n i"
      unfolding dec got_def by auto
    then show False using chunk_of_inj [OF ok j, of i] j by simp
  qed
  then have "got t s n (decoded uc frames) \<noteq> {..<piece_count n (length s)}"
    using j by auto
  then have "\<forall>k < length (decoded uc frames). snd (feed up (rt_reassembler r) (decoded uc frames)) ! k = Inr None"
    using feed_holds [OF ok inv new gen] by (auto simp: dec)
  then show "Inr (Some q) \<notin> set (snd (feed up (rt_reassembler r) (decoded uc frames)))"
    by (metis in_set_conv_nth length_feed option.distinct(1) sum.inject(2))
qed

text \<open>All chunks of a transfer but the last, and the last.\<close>

lemma chunks_of_init:
  assumes ok: "chunkable t s n" and k: "piece_count n (length s) = Suc l"
    and init: "xs = map (\<lambda>i. Some (chunk_of t s n i)) [0..<l]"
  shows "set (chunks_of t s n) = insert (chunk_of t s n l) {c. Some c \<in> set xs}"
    and "Some (chunk_of t s n l) \<notin> set xs"
proof -
  have "set (chunks_of t s n) = chunk_of t s n ` {..<Suc l}"
    by (simp add: chunks_of_def k atLeast0LessThan del: upt_Suc)
  moreover have "{c. Some c \<in> set xs} = chunk_of t s n ` {..<l}" by (auto simp: init)
  ultimately show "set (chunks_of t s n) = insert (chunk_of t s n l) {c. Some c \<in> set xs}"
    by (simp add: lessThan_Suc)
  have ne: "chunk_of t s n l \<noteq> chunk_of t s n i" if "i < l" for i
    using chunk_of_inj [OF ok, of l i] k that by auto
  show "Some (chunk_of t s n l) \<notin> set xs" by (auto simp: init dest!: ne [THEN notE, rotated])
qed

text \<open>
  A payload whose frames arrive in the order they were sent, on their own, is applied once, when
  the last frame arrives.
\<close>

lemma receive_in_order:
  assumes codec: "payload_codec marshal up" "chunk_codec mc uc" and size: "0 < n" "n < 2 ^ 62"
    and chunks: "ChunkPayload marshal (Some p) (int n) = Inr chunks"
    and inv: "reassembler_inv (rt_reassembler r)"
    and new: "fmlookup (ra_inflight (rt_reassembler r)) (cp_Sha256 p) = None"
    and frames: "map mc chunks = map Inr frames"
  shows "rt_clipboard (receive_frames uc up ar (map (Pair src) frames) r)
      = fst (ar (Some p) (rt_clipboard r))"
proof -
  obtain s where s: "valid_payload p" "up s = Inr p" "chunkable (cp_Sha256 p) s n"
      "chunks = chunks_of (cp_Sha256 p) s n"
    using ChunkPayload_ok [OF codec(1) size chunks] by metis
  note sent = sent_frames [OF s(3) codec(2) frames [unfolded s(4)]]
  then obtain l where l: "piece_count n (length s) = Suc l" "length frames = Suc l"
    by (metis not0_implies_Suc not_gr_zero)
  let ?t = "cp_Sha256 p" and ?init = "map (Pair src) (take l frames)"
  have "frames = take l frames @ [frames ! l]"
    using l(2) take_Suc_conv_app_nth [of l frames] by simp
  then have frames': "map (Pair src) frames = ?init @ [(src, frames ! l)]"
    by (metis list.simps(8,9) map_append)
  have dec: "decoded uc ?init = map (\<lambda>i. Some (chunk_of ?t s n i)) [0..<l]"
    by (rule sent(4)) (simp add: l)
  note split = chunks_of_init [OF s(3) l(1) dec]
  have "rt_clipboard (snd (handleFrame uc up ar src (frames ! l) (receive_frames uc up ar ?init r)))
      = fst (ar (Some p) (rt_clipboard (receive_frames uc up ar ?init r)))"
    by (rule receive_completes [OF codec(1) size chunks inv new _ _ split(2)])
      (use sent l split(1) s(4) in auto)
  moreover have "rt_clipboard (receive_frames uc up ar ?init r) = rt_clipboard r"
    by (rule incomplete_quiet [OF s(3) inv new dec]) (simp add: l)
  ultimately show ?thesis
    unfolding frames' by simp
qed

section \<open>Frames fit\<close>

text \<open>
  The size of an encoded chunk: the five fields of the message need at most 64 bytes of tags,
  lengths and numbers beside the transfer identifier and the data.
\<close>

definition chunk_overhead :: "(PayloadChunk \<Rightarrow> string + bytes) \<Rightarrow> bool" where
  "chunk_overhead mc \<longleftrightarrow>
     (\<forall>c f. mc c = Inr f \<longrightarrow> length f \<le> length (pc_TransferId c) + length (pc_Data c) + 64)"

lemma chunk_frames_fit:
  assumes codec: "payload_codec marshal up" and over: "chunk_overhead mc"
    and chunks: "ChunkPayload marshal payload DefaultChunkSize = Inr chunks"
    and c: "c \<in> set chunks" "mc c = Inr f"
  shows "int (length f) \<le> defaultMaxFrameBytes"
proof -
  obtain p where "payload = Some p"
    using chunks by (cases payload) (auto simp: ChunkPayload_def ValidatePayload_def)
  then have ok: "ChunkPayload marshal (Some p) (int 1048576) = Inr chunks"
    using chunks by (simp add: DefaultChunkSize_def)
  obtain s where s: "chunkable (cp_Sha256 p) s 1048576" "chunks = chunks_of (cp_Sha256 p) s 1048576"
    using ChunkPayload_ok [OF codec _ _ ok] by auto
  then have "pc_TransferId c = cp_Sha256 p" "length (pc_Data c) \<le> 1048576"
    using c(1) by (auto simp: chunks_of_def chunk_of_def)
  moreover have "length f \<le> length (pc_TransferId c) + length (pc_Data c) + 64"
    using over c(2) unfolding chunk_overhead_def by blast
  moreover have "length (cp_Sha256 p) = 32"
    using s(1) by (simp add: chunkable_def sha256_Size_def)
  ultimately show ?thesis by (simp add: defaultMaxFrameBytes_def)
qed

end
