(* ===== verification/Samples.thy ===== *)
theory Samples
  imports Delivery
begin

text \<open>
  Concrete inputs for the properties that have hypotheses: a text payload with coders for it,
  its chunks with coders for them, and a mesh with two connected peers.
\<close>

section \<open>A payload and its coders\<close>

definition sample_payload :: ClipboardPayload where
  "sample_payload =
     \<lparr>cp_TimestampUnixMs = 0, cp_Type = PAYLOAD_TYPE_TEXT, cp_Sha256 = ComputeContentSHA256 ''hello'',
      cp_Data = ''hello'', cp_MimeType = '''', cp_SizeBytes = 5\<rparr>"

definition sample_marshal :: "ClipboardPayload \<Rightarrow> string + bytes" where
  "sample_marshal p = (if p = sample_payload then Inr ''0123456789'' else Inl ''unsupported'')"

definition sample_unmarshal :: "bytes \<Rightarrow> string + ClipboardPayload" where
  "sample_unmarshal s =
     (if s = ''0123456789'' then Inr sample_payload
      else if s = '''' then Inr zero_ClipboardPayload else Inl ''malformed'')"

lemma hello_utf8: "utf8_valid ''hello''"
  by code_simp

lemma sample_valid: "valid_payload sample_payload"
  by (simp add: valid_payload_def sample_payload_def payload_types MaxPayloadBytes_def hello_utf8
      del: utf8_valid.simps)

lemma sample_payload_codec: "payload_codec sample_marshal sample_unmarshal"
  by (simp add: payload_codec_def sample_marshal_def sample_unmarshal_def)

text \<open>The transfer identifier, and the chunks for a chunk size of 4: three of them.\<close>

abbreviation sample_id :: bytes where
  "sample_id \<equiv> ComputeContentSHA256 ''hello''"

lemma sample_id [simp]: "cp_Sha256 sample_payload = sample_id"
  by (simp add: sample_payload_def)

lemma sample_id_nonempty [simp]: "sample_id \<noteq> []" "[] \<noteq> sample_id"
proof -
  have "length sample_id = 32" by (simp add: sha256_Size_def)
  then show "sample_id \<noteq> []" "[] \<noteq> sample_id"
    by (metis list.size(3) zero_neq_numeral)+
qed

definition sample_chunk :: "nat \<Rightarrow> bytes \<Rightarrow> PayloadChunk" where
  "sample_chunk i d =
     \<lparr>pc_TransferId = sample_id, pc_Sequence = of_nat i, pc_TotalChunks = 3, pc_TotalSize = 10,
      pc_Data = d\<rparr>"

lemma sample_chunks:
  "ChunkPayload sample_marshal (Some sample_payload) (int 4) =
     Inr [sample_chunk 0 ''0123'', sample_chunk 1 ''4567'', sample_chunk 2 ''89'']"
proof -
  have "sample_marshal sample_payload = Inr ''0123456789''"
    by (simp add: sample_marshal_def)
  then have "ChunkPayload sample_marshal (Some sample_payload) (int 4) =
      Inr (chunks_of sample_id ''0123456789'' 4)"
    using ChunkPayload_eq [of sample_payload 4 sample_marshal "''0123456789''"] sample_valid
    by (simp add: ValidatePayload_valid)
  then show ?thesis
    by (simp add: chunks_of_def chunk_of_def sample_chunk_def piece_count_def upt_rec)
qed

text \<open>With the default size there is one chunk; its coder is the one for frames.\<close>

definition whole_chunk :: PayloadChunk where
  "whole_chunk =
     \<lparr>pc_TransferId = sample_id, pc_Sequence = 0, pc_TotalChunks = 1, pc_TotalSize = 10,
      pc_Data = ''0123456789''\<rparr>"

lemma whole_chunks:
  "ChunkPayload sample_marshal (Some sample_payload) DefaultChunkSize = Inr [whole_chunk]"
proof -
  have "sample_marshal sample_payload = Inr ''0123456789''"
    by (simp add: sample_marshal_def)
  then have "ChunkPayload sample_marshal (Some sample_payload) (int 1048576) =
      Inr (chunks_of sample_id ''0123456789'' 1048576)"
    using ChunkPayload_eq [of sample_payload 1048576 sample_marshal "''0123456789''"] sample_valid
    by (simp add: ValidatePayload_valid)
  then show ?thesis
    by (simp add: chunks_of_def chunk_of_def whole_chunk_def piece_count_def DefaultChunkSize_def)
qed

definition frame_encode :: "PayloadChunk \<Rightarrow> string + bytes" where
  "frame_encode c =
     (if c = whole_chunk then Inr ''whole''
      else if c = sample_chunk 0 ''0123'' then Inr ''first''
      else if c = sample_chunk 1 ''4567'' then Inr ''second''
      else if c = sample_chunk 2 ''89'' then Inr ''third'' else Inl ''unsupported'')"

definition frame_decode :: "bytes \<Rightarrow> string + PayloadChunk" where
  "frame_decode f =
     (if f = ''whole'' then Inr whole_chunk
      else if f = ''first'' then Inr (sample_chunk 0 ''0123'')
      else if f = ''second'' then Inr (sample_chunk 1 ''4567'')
      else if f = ''third'' then Inr (sample_chunk 2 ''89'') else Inl ''malformed'')"

lemma frame_codec: "chunk_codec frame_encode frame_decode"
  by (simp add: chunk_codec_def frame_encode_def frame_decode_def)

lemma frame_overhead: "chunk_overhead frame_encode"
  by (simp add: chunk_overhead_def frame_encode_def)

section \<open>A mesh\<close>

definition sample_options :: Options where
  "sample_options =
     \<lparr>o_NodeID = ''m'', o_Name = ''here'', o_ServiceName = defaultServiceName, o_Domain = defaultDomain,
      o_WebSocketPath = ''/ws'', o_ListenAddr = '''', o_Port = 0, o_HeartbeatInterval = 10,
      o_PongTimeout = 30, o_PeerStaleAfter = 90, o_BrowseCycle = 30, o_ReconnectMinBackoff = 1,
      o_ReconnectMaxBackoff = 30, o_MaxFrameBytes = defaultMaxFrameBytes, o_SendQueueSize = 2\<rparr>"

definition sample_conn :: "connectionDirection \<Rightarrow> string \<Rightarrow> managedConn" where
  "sample_conn d p =
     \<lparr>mc_direction = d, mc_peerID = p, mc_peerName = p, mc_cancelled = False, mc_started = True,
      mc_sendQ = [], mc_sendCap = 2, mc_closed = None\<rparr>"

definition sample_peer :: "string \<Rightarrow> nat option \<Rightarrow> peerState" where
  "sample_peer p cid =
     (new_peerState p)\<lparr>ps_peer := zero_Peer\<lparr>peer_ID := p, peer_Connected := (cid \<noteq> None)\<rparr>, ps_conn := cid\<rparr>"

definition sample_mesh :: Manager where
  "sample_mesh =
     \<lparr>mg_opts = sample_options, mg_nodeID = ''m'', mg_name = ''here'',
      mg_peers = fmupd ''a'' (sample_peer ''a'' (Some 7)) (fmupd ''z'' (sample_peer ''z'' (Some 8)) fmempty),
      mg_started = True, mg_ctxDone = False,
      mg_conns = fmupd 7 (sample_conn connectionDirectionInbound ''a'')
                   (fmupd 8 (sample_conn connectionDirectionOutbound ''z'') fmempty),
      mg_goClose = []\<rparr>"

lemma sample_mesh_inv: "mesh_inv sample_mesh"
  by (auto simp: mesh_inv_def sample_mesh_def sample_options_def options_ok_def backoff_bounds_def
      peer_inv_def sample_peer_def new_peerState_def sample_conn_def attached_def conn_inv_def
      split: if_splits)

lemma sample_mesh_order: "enumerates [''a'', ''z''] sample_mesh"
  by (auto simp: enumerates_def sample_mesh_def)

lemma sample_mesh_active:
  "active_conn sample_mesh ''a'' = Some 7"
  "fmlookup (mg_conns sample_mesh) 7 = Some (sample_conn connectionDirectionInbound ''a'')"
  by (simp_all add: active_conn_def sample_mesh_def sample_peer_def)


text \<open>A clipboard that is the list of the payloads it was given.\<close>

definition collect_payloads ::
    "ClipboardPayload option \<Rightarrow> ClipboardPayload list \<Rightarrow> ClipboardPayload list \<times> clip_error option" where
  "collect_payloads p ps = (case p of None \<Rightarrow> (ps, None) | Some p \<Rightarrow> (ps @ [p], None))"

end
