(* ===== verification/WireProperties.thy ===== *)
theory WireProperties
  imports Samples
begin

text \<open>
  The properties of \<open>internal/clipwire\<close>: payload construction and validation, chunking, and
  reassembly from any sequence of chunks.
\<close>

section \<open>Payloads\<close>

text \<open>C27: \<open>NewPayload\<close> returns a payload exactly for the requests that satisfy the payload
contract (known kind, content within the budget, MIME type exactly for images and an allowed
one, UTF-8 for text), whatever the order of the checks; the payload then carries the content,
its true digest and length and the timestamp in milliseconds, and passes \<open>ValidatePayload\<close>.\<close>

theorem new_payload_spec:
  "NewPayload ts kind data mime = Inr p \<longleftrightarrow>
     cp_TimestampUnixMs p = unix_milli ts \<and> cp_Type p = kind \<and> cp_Data p = data
     \<and> cp_MimeType p = mime \<and> cp_Sha256 p = sha256_Sum256 data
     \<and> unat (cp_SizeBytes p) = length data
     \<and> length data \<le> 20000000
     \<and> (if kind = PAYLOAD_TYPE_IMAGE then mime = ''image/png'' \<or> mime = ''image/jpeg''
        else (kind = PAYLOAD_TYPE_TEXT \<or> kind = PAYLOAD_TYPE_URL) \<and> mime = '''' \<and> utf8_valid data)
     \<and> ValidatePayload (Some p) = None"
proof -
  have "cp_SizeBytes p = of_nat (length data) \<longleftrightarrow> unat (cp_SizeBytes p) = length data"
    if "length data \<le> 20000000"
  proof -
    have "unat (of_nat (length data) :: uint64) = length data"
      using that by (simp add: unat_of_nat)
    then show ?thesis by (simp add: word_unat_eq_iff)
  qed
  then show ?thesis
    by (cases p) (auto simp: NewPayload_Inr ValidatePayload_valid valid_payload_def MaxPayloadBytes_def
        allowedImageMIMETypes_def ComputeContentSHA256_def split: if_splits)
qed

text \<open>An accepted payload whose content is replaced, its length field adjusted but its digest
kept, is accepted again exactly if the new content has the same digest and still fits the
budget and, for text, is UTF-8; otherwise the error names the first rule broken.\<close>

lemma tampering_detected:
  assumes "ValidatePayload (Some p) = None"
  shows "ValidatePayload (Some (p\<lparr>cp_Data := data, cp_SizeBytes := of_nat (length data)\<rparr>)) =
    (if 20000000 < length data then Some ErrPayloadTooLarge
     else if cp_Type p \<noteq> PAYLOAD_TYPE_IMAGE \<and> \<not> utf8_valid data then Some ErrInvalidUTF8
     else if sha256_Sum256 data \<noteq> sha256_Sum256 (cp_Data p) then Some ErrHashMismatch
     else None)"
proof -
  have v: "valid_payload p" using assms by (simp only: ValidatePayload_valid)
  have "cp_Type p = PAYLOAD_TYPE_TEXT \<or> cp_Type p = PAYLOAD_TYPE_URL \<or> cp_Type p = PAYLOAD_TYPE_IMAGE"
    using v by (auto simp: valid_payload_def split: if_splits)
  then show ?thesis
    using v valid_payloadD(2) [OF v]
    by (elim disjE) (simp_all add: ValidatePayload_def valid_payload_def payload_types MaxPayloadBytes_def
        ComputeContentSHA256_def allowedImageMIMETypes_def sha256_Size_def del: utf8_valid.simps)
qed

section \<open>Chunking\<close>

text \<open>C23: For a valid payload that serialises, and a chunk size for which the index arithmetic
does not overflow, \<open>ChunkPayload\<close> succeeds: the data of the chunks in order concatenate to the
serialisation, every chunk carries 1 to \<open>chunkSize\<close> bytes, all but the last exactly
\<open>chunkSize\<close>, and chunk \<open>i\<close> has the payload's digest as transfer identifier, sequence number \<open>i\<close>,
the number of chunks and the total size.\<close>

theorem chunking_correct:
  assumes "ValidatePayload (Some p) = None" and "marshal p = Inr s"
    and "0 < chunkSize" and "int (length s) + chunkSize \<le> 2 ^ 63"
  shows "\<exists>chunks. ChunkPayload marshal (Some p) chunkSize = Inr chunks
    \<and> concat (map pc_Data chunks) = s
    \<and> (\<forall>c \<in> set chunks. pc_Data c \<noteq> [] \<and> int (length (pc_Data c)) \<le> chunkSize)
    \<and> (\<forall>i < length chunks. Suc i < length chunks \<longrightarrow> int (length (pc_Data (chunks ! i))) = chunkSize)
    \<and> (\<forall>i < length chunks.
         pc_TransferId (chunks ! i) = cp_Sha256 p \<and> pc_Sequence (chunks ! i) = of_nat i
         \<and> pc_TotalChunks (chunks ! i) = of_nat (length chunks)
         \<and> pc_TotalSize (chunks ! i) = of_nat (length s))"
proof -
  obtain n where n: "chunkSize = int n" "0 < n"
    using assms(3) by (metis of_nat_0_less_iff zero_less_imp_eq_int)
  let ?cs = "chunks_of (cp_Sha256 p) s n"
  have eq: "ChunkPayload marshal (Some p) chunkSize = Inr ?cs"
    using assms n by (simp add: ChunkPayload_eq)
  have data: "map pc_Data ?cs = pieces n s" using n(2) by (rule chunks_of_data)
  have "concat (map pc_Data ?cs) = s" using data n(2) by (simp add: concat_pieces)
  moreover have "\<forall>c \<in> set ?cs. pc_Data c \<noteq> [] \<and> int (length (pc_Data c)) \<le> chunkSize"
    using pieces_nonempty [OF n(2), of _ s] n(1) unfolding data [symmetric] by auto
  moreover have "int (length (pc_Data (?cs ! i))) = chunkSize" if "Suc i < length ?cs" for i
  proof -
    have "Suc i * n < length s" using piece_start [OF n(2), of "Suc i" "length s"] that by (simp add: chunks_of_def)
    then show ?thesis using that n by (simp add: chunks_of_def chunk_of_def)
  qed
  ultimately show ?thesis
    using eq by (intro exI [of _ ?cs]) (simp add: chunks_of_def chunk_of_def)
qed

theorem chunking_correct_witness:
  "\<exists>chunks. ChunkPayload sample_marshal (Some sample_payload) 4 = Inr chunks
    \<and> concat (map pc_Data chunks) = ''0123456789''
    \<and> (\<forall>c \<in> set chunks. pc_Data c \<noteq> [] \<and> int (length (pc_Data c)) \<le> 4)
    \<and> (\<forall>i < length chunks. Suc i < length chunks \<longrightarrow> int (length (pc_Data (chunks ! i))) = 4)
    \<and> (\<forall>i < length chunks.
         pc_TransferId (chunks ! i) = cp_Sha256 sample_payload \<and> pc_Sequence (chunks ! i) = of_nat i
         \<and> pc_TotalChunks (chunks ! i) = of_nat (length chunks)
         \<and> pc_TotalSize (chunks ! i) = of_nat (length ''0123456789''))"
  by (rule chunking_correct)
    (use sample_valid in \<open>simp_all add: ValidatePayload_valid sample_marshal_def\<close>)

text \<open>A chunk size so large that the size of the payload plus the chunk size leaves the range of
Go's \<open>int\<close> breaks the number of chunks: the call panics in \<open>make\<close>, or, for the largest chunk
sizes, returns no chunk at all and no error, so the payload is silently not sent.\<close>

lemma chunking_overflow:
  assumes "ValidatePayload (Some p) = None" and "marshal p = Inr s"
    and "chunkSize < 2 ^ 63" and "2 ^ 63 < int (length s) + chunkSize" and "int (length s) < 2 ^ 63"
  shows "ChunkPayload marshal (Some p) chunkSize =
    (if 2 * chunkSize + int (length s) \<le> 2 ^ 64 + 1 then Inl PanicMakeSlice else Inr [])"
  by (rule ChunkPayload_overflow_eq [where marshal = marshal, OF assms])

section \<open>Reassembly\<close>

lemma fresh_lookup: "fmlookup (ra_inflight NewReassembler) key = None"
  by (simp add: NewReassembler_def)

text \<open>C15: The chunks of one payload may arrive in any order, any number of times each, between
malformed chunks and chunks of other transfers. As long as one is missing, every one of them
that arrives is taken without error and without a result; when the last missing one arrives,
\<open>Add\<close> returns exactly the payload that was sent and forgets the transfer.\<close>

theorem reassembly_any_order:
  assumes codec: "payload_codec marshal unmarshal" and size: "0 < n" "n < 2 ^ 62"
    and sent: "ChunkPayload marshal (Some p) (int n) = Inr chunks"
    and inv: "reassembler_inv r" and new: "fmlookup (ra_inflight r) (cp_Sha256 p) = None"
    and genuine: "\<And>y. y \<in> set ys \<Longrightarrow> GetTransferId y = cp_Sha256 p \<Longrightarrow> y \<in> Some ` set chunks"
    and missing: "c \<in> set chunks" "Some c \<notin> set ys" "Some ` (set chunks - {c}) \<subseteq> set ys"
  shows "(\<forall>k < length ys. GetTransferId (ys ! k) = cp_Sha256 p \<longrightarrow> snd (feed unmarshal r ys) ! k = Inr None)
    \<and> snd (Add unmarshal (fst (feed unmarshal r ys)) (Some c)) = Inr (Some p)
    \<and> fmlookup (ra_inflight (fst (Add unmarshal (fst (feed unmarshal r ys)) (Some c)))) (cp_Sha256 p) = None"
proof -
  obtain s where s: "valid_payload p" "unmarshal s = Inr p" "chunkable (cp_Sha256 p) s n"
      "chunks = chunks_of (cp_Sha256 p) s n"
    using ChunkPayload_ok [OF codec size sent] by metis
  let ?t = "cp_Sha256 p" and ?k = "piece_count n (length s)"
  obtain i where i: "i < ?k" "c = chunk_of ?t s n i"
    using missing(1) s(4) by (auto simp: chunks_of_def)
  have gen: "genuine ?t s n ys" using genuine s(4) by (simp add: genuine_def)
  have other: "Some (chunk_of ?t s n j) \<in> set ys" if "j < ?k" "j \<noteq> i" for j
    using that i missing(3) chunk_of_inj [OF s(3)] s(4) by (auto simp: chunks_of_def)
  then have got: "got ?t s n ys = {..<?k} - {i}"
    using missing(2) i by (auto simp: got_def)
  have "Add unmarshal (fst (feed unmarshal r ys)) (Some c) =
      (delete_transfer ?t (fst (feed unmarshal r ys)), finish_transfer unmarshal ?t s)"
    unfolding i(2) by (rule feed_completes [OF s(3) inv new gen i(1) got])
  moreover have "finish_transfer unmarshal ?t s = Inr (Some p)"
    using s by (simp add: finish_transfer_Some)
  moreover have "got ?t s n ys \<noteq> {..<?k}" using got i(1) by blast
  ultimately show ?thesis
    using feed_holds [OF s(3) inv new gen] by (simp add: delete_transfer_def)
qed

theorem reassembly_any_order_witness:
  "snd (Add sample_unmarshal
      (fst (feed sample_unmarshal NewReassembler
         [Some (sample_chunk 2 ''89''), None, Some (sample_chunk 0 ''0123''), Some (sample_chunk 2 ''89'')]))
      (Some (sample_chunk 1 ''4567''))) = Inr (Some sample_payload)"
  by (rule reassembly_any_order [THEN conjunct2, THEN conjunct1, OF sample_payload_codec _ _ sample_chunks])
    (auto simp: reassembler_inv_New fresh_lookup sample_chunk_def)

text \<open>C16: Whatever chunks have arrived, genuine or forged, a payload that \<open>Add\<close> returns passes
\<open>ValidatePayload\<close>, its digest is the transfer identifier of the chunk that completed it, and it
is the decoding of some byte string.\<close>

theorem reassembly_emits_verified:
  assumes "snd (Add unmarshal (fst (feed unmarshal NewReassembler cs)) chunk) = Inr (Some p)"
  shows "ValidatePayload (Some p) = None \<and> sha256_Sum256 (cp_Data p) = GetTransferId chunk
    \<and> (\<exists>s. unmarshal s = Inr p)"
proof -
  let ?r = "fst (feed unmarshal NewReassembler cs)"
  have inv: "reassembler_inv ?r"
    by (intro feed_inv reassembler_inv_New)
  obtain c where c: "chunk = Some c" "valid_payload p" "cp_Sha256 p = pc_TransferId c"
    using Add_emits [OF inv assms] by blast
  have "\<exists>s. unmarshal s = Inr p"
    using assms by (cases rule: Add_cases [OF inv, of chunk unmarshal]) (auto simp: finish_transfer_Some)
  then show ?thesis
    using c valid_payloadD(2) [OF c(2)] by (simp add: ValidatePayload_valid ComputeContentSHA256_def)
qed

theorem reassembly_emits_verified_witness:
  "ValidatePayload (Some sample_payload) = None
    \<and> sha256_Sum256 (cp_Data sample_payload) = GetTransferId (Some whole_chunk)
    \<and> (\<exists>s. sample_unmarshal s = Inr sample_payload)"
proof (rule reassembly_emits_verified [of sample_unmarshal "[]"])
  have "chunks_of sample_id ''0123456789'' 10 = [whole_chunk]"
    by (simp add: chunks_of_def chunk_of_def whole_chunk_def piece_count_def)
  moreover have "chunkable sample_id ''0123456789'' 10"
    by (simp add: chunkable_def piece_count_def)
  ultimately show "snd (Add sample_unmarshal (fst (feed sample_unmarshal NewReassembler [])) (Some whole_chunk))
      = Inr (Some sample_payload)"
    using feed_completes [of sample_id "''0123456789''" 10 NewReassembler "[]" 0 sample_unmarshal] sample_valid
    by (simp add: genuine_def got_def piece_count_def chunks_of_def reassembler_inv_New fresh_lookup
        finish_transfer_Some sample_unmarshal_def lessThan_Suc)
qed

text \<open>Transfers do not disturb each other: a chunk leaves the state of every other transfer as
it was, so the outcome of one transfer does not depend on chunks of another that arrive in
between, even when these are malformed or conflicting.\<close>

lemma reassembly_isolates:
  assumes "GetTransferId chunk \<noteq> key"
  shows "fmlookup (ra_inflight (fst (Add unmarshal (fst (feed unmarshal NewReassembler cs)) chunk))) key =
    fmlookup (ra_inflight (fst (feed unmarshal NewReassembler cs))) key"
  using assms by (intro Add_frame feed_inv reassembler_inv_New)

text \<open>C26: An error costs at most the transfer it concerns: a malformed chunk, a chunk whose
metadata contradicts its transfer and a chunk that repeats a sequence number with other bytes
leave the reassembler exactly as it was, and the errors of a completed transfer remove that
transfer and nothing else.\<close>

theorem reassembly_errors_harmless:
  assumes "reassembler_inv r" and "Add unmarshal r chunk = (r', Inl e)"
  shows "r' = r \<or> r' = delete_transfer (GetTransferId chunk) r
      \<and> (e = ErrChunkSetSizeMismatch \<or> e = ErrTransferHashMismatch
         \<or> (\<exists>text. e = ErrUnmarshalPayload text) \<or> (\<exists>p. ValidatePayload (Some p) = Some e))"
  using assms(2)
  by (cases rule: Add_cases [OF assms(1), of chunk unmarshal])
    (auto simp: finish_transfer_def split: sum.splits option.splits if_splits)

theorem reassembly_errors_harmless_witness:
  "fst (Add sample_unmarshal NewReassembler None) = NewReassembler"
  using reassembly_errors_harmless [OF reassembler_inv_New, of sample_unmarshal None NewReassembler ErrNilChunk]
  by (simp add: Add_def validateChunk_def)

text \<open>What the reassembler keeps of a transfer, after any sequence of chunks: at least one
and fewer than the announced number of parts, each of them non-empty and with a sequence number
below that number, and the received bytes are the sum of their lengths (modulo 2 to the 64).\<close>

lemma reassembly_invariant:
  assumes "fmlookup (ra_inflight (fst (feed unmarshal NewReassembler cs))) key = Some st"
  shows "rs_chunks st \<noteq> fmempty \<and> fcard (fmdom (rs_chunks st)) < unat (rs_totalChunks st)
    \<and> rs_receivedBytes st = of_nat (stored_bytes (rs_chunks st))
    \<and> (\<forall>i d. fmlookup (rs_chunks st) i = Some d \<longrightarrow> i < rs_totalChunks st \<and> d \<noteq> [])"
  using assms feed_inv [OF reassembler_inv_New, of unmarshal cs]
  by (auto simp: reassembler_inv_def state_inv_def)

text \<open>After one of three chunks the transfer is in flight with that part.\<close>

lemma first_chunk_stored:
  "fmlookup (ra_inflight (fst (feed sample_unmarshal NewReassembler [Some (sample_chunk 0 ''0123'')]))) sample_id
    = Some \<lparr>rs_totalChunks = 3, rs_totalSize = 10, rs_chunks = fmupd 0 ''0123'' fmempty, rs_receivedBytes = 4\<rparr>"
  by (simp add: Add_def validateChunk_def find_transfer_def fresh_lookup sample_chunk_def store_part_def
      put_transfer_def Let_def word_less_nat_alt sha256_Size_def fcard_finsert_if)

lemma feed_Cons:
  "fst (feed unmarshal r (c # cs)) = fst (feed unmarshal (fst (Add unmarshal r c)) cs)"
  "snd (feed unmarshal r (c # cs)) = snd (Add unmarshal r c) # snd (feed unmarshal (fst (Add unmarshal r c)) cs)"
  by (simp_all add: case_prod_unfold Let_def)

text \<open>A transfer in flight with other metadata than its chunks: they are refused, and nothing changes that.\<close>

lemma poisoned_feed:
  assumes genuine: "\<And>c. c \<in> C \<Longrightarrow> validateChunk (Some c) = None \<and> pc_TransferId c = t
      \<and> (rs_totalChunks st \<noteq> pc_TotalChunks c \<or> rs_totalSize st \<noteq> pc_TotalSize c)"
  shows "reassembler_inv r \<Longrightarrow> fmlookup (ra_inflight r) t = Some st \<Longrightarrow>
      (\<And>y. y \<in> set ys \<Longrightarrow> GetTransferId y = t \<Longrightarrow> y \<in> Some ` C) \<Longrightarrow>
    fmlookup (ra_inflight (fst (feed unmarshal r ys))) t = Some st
    \<and> (\<forall>k < length ys. GetTransferId (ys ! k) = t \<longrightarrow> snd (feed unmarshal r ys) ! k = Inl ErrChunkMetadataMismatch)"
proof (induction ys arbitrary: r)
  case (Cons y ys)
  let ?r = "fst (Add unmarshal r y)"
  have y: "Add unmarshal r y = (r, Inl ErrChunkMetadataMismatch)" if "GetTransferId y = t"
  proof -
    obtain c where c: "y = Some c" "c \<in> C" using Cons.prems(3) [of y] \<open>GetTransferId y = t\<close> by auto
    have "find_transfer r y = None"
      unfolding c(1) find_transfer_None using genuine [OF c(2)] Cons.prems(2) by auto
    then show ?thesis using genuine [OF c(2)] c(1) by (simp add: Add_def)
  qed
  have "fmlookup (ra_inflight ?r) t = Some st"
    using y Add_frame [OF Cons.prems(1), of y t unmarshal] Cons.prems(2) by (cases "GetTransferId y = t") simp_all
  then have "fmlookup (ra_inflight (fst (feed unmarshal ?r ys))) t = Some st
    \<and> (\<forall>k < length ys. GetTransferId (ys ! k) = t \<longrightarrow> snd (feed unmarshal ?r ys) ! k = Inl ErrChunkMetadataMismatch)"
    using Cons.prems(3) by (intro Cons.IH Add_inv [OF Cons.prems(1)]) auto
  then show ?case
    using y by (auto simp: feed_Cons nth_Cons simp del: feed.simps split: nat.split)
qed simp

text \<open>C34: One forged chunk blocks a payload. Let a valid chunk with the transfer identifier of a
payload, which announces more than one chunk and another number of chunks or another total size than
the payload's own, arrive before any of them. It is taken without error. After it, in every
sequence of the payload's own chunks, in any order and number, of malformed ones and of those of other transfers,
each of the payload's own chunks is refused, and the reassembler still holds just the forged
one: however long the sequence, nothing expires.\<close>

theorem reassembly_poisoned:
  assumes codec: "payload_codec marshal unmarshal" and size: "0 < n" "n < 2 ^ 62"
    and sent: "ChunkPayload marshal (Some p) (int n) = Inr chunks"
    and inv: "reassembler_inv r" and new: "fmlookup (ra_inflight r) (cp_Sha256 p) = None"
    and forged: "validateChunk (Some f) = None" "pc_TransferId f = cp_Sha256 p" "1 < pc_TotalChunks f"
      "\<And>c. c \<in> set chunks \<Longrightarrow> pc_TotalChunks f \<noteq> pc_TotalChunks c \<or> pc_TotalSize f \<noteq> pc_TotalSize c"
    and arrive: "\<And>y. y \<in> set ys \<Longrightarrow> GetTransferId y = cp_Sha256 p \<Longrightarrow> y \<in> Some ` set chunks"
  shows "snd (feed unmarshal r (Some f # ys)) ! 0 = Inr None
    \<and> (\<forall>k < length ys. GetTransferId (ys ! k) = cp_Sha256 p \<longrightarrow>
         snd (feed unmarshal r (Some f # ys)) ! Suc k = Inl ErrChunkMetadataMismatch)
    \<and> fmlookup (ra_inflight (fst (feed unmarshal r (Some f # ys)))) (cp_Sha256 p)
        = Some (store_part (Some f) (open_state f))"
proof -
  obtain s where s: "chunkable (cp_Sha256 p) s n" "chunks = chunks_of (cp_Sha256 p) s n"
    using ChunkPayload_ok [OF codec size sent] by metis
  have "find_transfer r (Some f) = Some (open_state f)"
    using forged(2) new by (simp add: find_transfer_def open_state_def)
  moreover have "Suc 0 \<noteq> unat (pc_TotalChunks f)"
    using forged(3) by (simp add: word_less_nat_alt)
  ultimately have add: "Add unmarshal r (Some f)
      = (put_transfer (cp_Sha256 p) (store_part (Some f) (open_state f)) r, Inr None)"
    using Add_new_part [OF inv forged(1), of "open_state f" unmarshal] by (simp add: forged(2) open_state_def)
  have "validateChunk (Some c) = None \<and> pc_TransferId c = cp_Sha256 p
      \<and> (pc_TotalChunks f \<noteq> pc_TotalChunks c \<or> pc_TotalSize f \<noteq> pc_TotalSize c)" if "c \<in> set chunks" for c
    using that s forged(4) [OF that] chunk_of_valid [OF s(1)] by (auto simp: chunks_of_def)
  moreover have "reassembler_inv (fst (Add unmarshal r (Some f)))" by (rule Add_inv [OF inv])
  ultimately have "fmlookup (ra_inflight (fst (feed unmarshal (fst (Add unmarshal r (Some f))) ys))) (cp_Sha256 p)
        = Some (store_part (Some f) (open_state f))
    \<and> (\<forall>k < length ys. GetTransferId (ys ! k) = cp_Sha256 p \<longrightarrow>
         snd (feed unmarshal (fst (Add unmarshal r (Some f))) ys) ! k = Inl ErrChunkMetadataMismatch)"
    by (intro poisoned_feed [where C = "set chunks"])
      (use arrive in \<open>simp_all add: add put_transfer_def open_state_def\<close>)
  then show ?thesis by (simp add: feed_Cons add del: feed.simps)
qed

text \<open>A forgery that announces two chunks arrives before the three of a payload.\<close>

theorem reassembly_poisoned_witness:
  "snd (feed sample_unmarshal NewReassembler [Some ((sample_chunk 0 ''0123'')\<lparr>pc_TotalChunks := 2\<rparr>),
      Some (sample_chunk 0 ''0123''), None, Some (sample_chunk 1 ''4567''), Some (sample_chunk 2 ''89'')]) ! 4
    = Inl ErrChunkMetadataMismatch"
proof -
  let ?f = "(sample_chunk 0 ''0123'')\<lparr>pc_TotalChunks := 2\<rparr>"
  let ?ys = "[Some (sample_chunk 0 ''0123''), None, Some (sample_chunk 1 ''4567''), Some (sample_chunk 2 ''89'')]"
  have len: "length (pc_TransferId ?f) = sha256_Size"
    by (simp add: sample_chunk_def sha256_Size_def)
  have id: "GetTransferId (Some (sample_chunk 2 ''89'')) = cp_Sha256 sample_payload"
    using sample_valid by (simp add: sample_chunk_def)
  have f: "validateChunk (Some ?f) = None" "pc_TransferId ?f = cp_Sha256 sample_payload" "1 < pc_TotalChunks ?f"
    using len id by (simp_all add: validateChunk_None) (simp_all add: sample_chunk_def word_le_nat_alt)
  have "snd (feed sample_unmarshal NewReassembler (Some ?f # ?ys)) ! Suc 3 = Inl ErrChunkMetadataMismatch"
    by (rule reassembly_poisoned [OF sample_payload_codec _ _ sample_chunks reassembler_inv_New _ f,
          THEN conjunct2, THEN conjunct1, rule_format])
      (use id in \<open>auto simp: fresh_lookup sample_chunk_def simp del: feed.simps\<close>)
  moreover have "Suc 3 = 4" by simp
  ultimately show ?thesis by (simp only:)
qed

end
