(* ===== verification/NodeSystem.thy ===== *)
theory NodeSystem
  imports Delivery "HOL-Library.Sublist"
begin

text \<open>
  One node as a whole: the runtime of \<open>internal/app/runtime.go\<close> as goroutines that tie the
  clipboard manager (\<open>clip_step\<close>) and the mesh manager (\<open>mesh_step\<close>) together. The clipboard
  loop takes payloads from \<open>Events()\<close>, chunks them and broadcasts frame after frame; the
  connections' read pumps hand frames to \<open>handleFrame\<close>, any number of them at the same time;
  the peer log loop reads the peer table; and the goroutine that \<open>Start\<close> leaves waits for the
  context and for the mesh before it closes \<open>waitCh\<close>. Everything happens one atomic action at a
  time, so that all of it interleaves with the steps of the two managers.
\<close>

section \<open>State\<close>

text \<open>
  Where \<open>runClipboardLoop\<close> is: at its \<open>select\<close>, about to chunk a payload, at the head of the loop
  of \<open>broadcastPayload\<close> with the chunks that are left, inside \<open>mesh.Broadcast\<close>, or returned. Inside
  \<open>Broadcast\<close> it has a frame, the connection it is about to enqueue to, the peers that are left,
  the errors so far, and the chunks for later.
\<close>

datatype clip_loop =
    ClipSelect
  | ClipEncode ClipboardPayload
  | ClipSending "PayloadChunk list"
  | ClipBroadcast bytes "(string \<times> nat) option" "string list" "(string \<times> mesh_error) list"
      "PayloadChunk list"
  | ClipEnded

record ('img, 'os) node_deps =
  nd_clip :: "('img, 'os) clip_deps"
  nd_marshal :: "ClipboardPayload \<Rightarrow> string + bytes"
  nd_marshal_chunk :: "PayloadChunk \<Rightarrow> string + bytes"
  nd_unmarshal :: "bytes \<Rightarrow> string + ClipboardPayload"
  nd_unmarshal_chunk :: "bytes \<Rightarrow> string + PayloadChunk"
  nd_canceled :: string

text \<open>
  The clipboard of the \<^typ>\<open>unit Runtime\<close> is not used; it is \<open>n_clip\<close>. \<open>n_completed\<close> are the pumps
  that hold a payload \<open>Add\<close> has completed, \<open>n_calls\<close> those inside \<open>ApplyRemote\<close>, in the order of
  \<open>cl_applying\<close>. \<open>n_emitted\<close> and \<open>n_batches\<close> are history: what was put on \<open>Events()\<close>, and the payloads
  taken from it, each with the frames that were handed to \<open>Broadcast\<close> for it.
\<close>

record 'os node =
  n_clip :: "'os clip_sys"
  n_mesh :: MeshState
  n_rt :: "unit Runtime"
  n_loop :: clip_loop
  n_logLoop :: bool
  n_completed :: "(string \<times> ClipboardPayload) list"
  n_calls :: "(string \<times> ClipboardPayload) list"
  n_ctxDone :: bool
  n_meshDone :: bool
  n_emitted :: "ClipboardPayload list"
  n_batches :: "(ClipboardPayload \<times> bytes list) list"

abbreviation n_mgr :: "'os node \<Rightarrow> Manager" where
  "n_mgr s \<equiv> ms_mgr (n_mesh s)"

text \<open>After \<open>Start\<close>: the clipboard manager and the mesh manager started, the two loops running.\<close>

definition started_clip :: "int \<Rightarrow> time \<Rightarrow> 'os \<Rightarrow> 'os clip_sys" where
  "started_clip eventBuffer now os =
     (newManagerWithBackend eventBuffer now os)
       \<lparr>cl_started := True, cl_watch := (\<lambda>_. WatchReceiving), cl_proc := ProcWaiting\<rparr>"

definition started_node :: "int \<Rightarrow> time \<Rightarrow> 'os \<Rightarrow> Manager \<Rightarrow> 'os node" where
  "started_node eventBuffer now os m =
     (let r = fst (Runtime_Start now id None (mg_name m) (mg_nodeID m) (newRuntime ())) in
      \<lparr>n_clip = started_clip eventBuffer now os, n_mesh = initial_state (fst (Start None m)),
       n_rt = r, n_loop = ClipSelect, n_logLoop = rt_loops r, n_completed = [], n_calls = [],
       n_ctxDone = False, n_meshDone = False, n_emitted = [], n_batches = []\<rparr>)"

section \<open>Steps\<close>

text \<open>The frames in the send queues of all connections.\<close>

definition queued :: "Manager \<Rightarrow> bytes set" where
  "queued m = {frame. \<exists>cid c. fmlookup (mg_conns m) cid = Some c \<and> frame \<in> set (mc_sendQ c)}"

text \<open>\<open>broadcastPayload\<close> returns an error: it is logged unless it is the context's.\<close>

definition loop_failed :: "string \<Rightarrow> runtime_error \<Rightarrow> 'os node \<Rightarrow> 'os node" where
  "loop_failed canceled e s =
     s\<lparr>n_loop := ClipSelect,
       n_rt := (if \<not> runtime_canceled canceled e then log_line (BroadcastFailed e) (n_rt s) else n_rt s)\<rparr>"

text \<open>A frame is handed to \<open>Broadcast\<close>: it belongs to the payload taken last.\<close>

definition add_frame :: "bytes \<Rightarrow> (ClipboardPayload \<times> bytes list) list \<Rightarrow> (ClipboardPayload \<times> bytes list) list" where
  "add_frame frame bs = butlast bs @ [(fst (last bs), snd (last bs) @ [frame])]"

text \<open>\<open>handleFrame\<close> up to the call of \<open>ApplyRemote\<close>.\<close>

definition receive_chunk ::
    "(bytes \<Rightarrow> string + PayloadChunk) \<Rightarrow> (bytes \<Rightarrow> string + ClipboardPayload)
     \<Rightarrow> Peer \<Rightarrow> bytes \<Rightarrow> 'c Runtime \<Rightarrow> 'c Runtime \<times> ClipboardPayload option" where
  "receive_chunk unmarshal_chunk unmarshal from frame r =
     (case unmarshal_chunk frame of
        Inl e \<Rightarrow> (log_line (DroppedFrame (peer_ID from) e) r, None)
      | Inr chunk \<Rightarrow>
          (case Add unmarshal (rt_reassembler r) (Some chunk) of
             (ra, result) \<Rightarrow>
               let r = r\<lparr>rt_reassembler := ra\<rparr> in
               case result of
                 Inl e \<Rightarrow> (log_line (DroppedChunk (peer_ID from) e) r, None)
               | Inr payload \<Rightarrow> (r, payload)))"

text \<open>
  One step of a node. The second argument says which frames the connections may deliver from
  which peers: \<open>any_frame\<close> for a node among peers that send what they like.
\<close>

abbreviation any_frame :: "Peer \<Rightarrow> bytes \<Rightarrow> bool" where
  "any_frame from frame \<equiv> True"

inductive node_step ::
    "('img, 'os) node_deps \<Rightarrow> (Peer \<Rightarrow> bytes \<Rightarrow> bool) \<Rightarrow> 'os node \<Rightarrow> 'os node \<Rightarrow> bool"
  for D :: "('img, 'os) node_deps" and R :: "Peer \<Rightarrow> bytes \<Rightarrow> bool" where
  clip: "clip_step (nd_clip D) (n_clip s) c \<Longrightarrow> cl_applying c = cl_applying (n_clip s) \<Longrightarrow>
    cl_events c = cl_events (n_clip s) @ ps \<Longrightarrow>
    node_step D R s (s\<lparr>n_clip := c, n_emitted := n_emitted s @ ps\<rparr>)"
| mesh: "mesh_step (n_mesh s) m \<Longrightarrow> queued (ms_mgr m) \<subseteq> queued (n_mgr s) \<Longrightarrow>
    node_step D R s (s\<lparr>n_mesh := m\<rparr>)"
| cancelled: "node_step D R s
    (s\<lparr>n_ctxDone := True, n_mesh := (n_mesh s)\<lparr>ms_mgr := cancel_ctx (n_mgr s)\<rparr>\<rparr>)"
| mesh_done: "mg_ctxDone (n_mgr s) \<Longrightarrow> node_step D R s (s\<lparr>n_meshDone := True\<rparr>)"
| stop: "n_ctxDone s \<Longrightarrow> n_meshDone s \<Longrightarrow> \<not> rt_waitClosed (n_rt s) \<Longrightarrow>
    node_step D R s (s\<lparr>n_rt := (n_rt s)\<lparr>rt_waitClosed := True\<rparr>\<rparr>)"
| take: "n_loop s = ClipSelect \<Longrightarrow> cl_events (n_clip s) = p # rest \<Longrightarrow>
    node_step D R s (s\<lparr>n_clip := (n_clip s)\<lparr>cl_events := rest\<rparr>, n_loop := ClipEncode p,
      n_rt := log_line (ClipboardEvent (GetType (Some p)) (GetSizeBytes (Some p))) (n_rt s),
      n_batches := n_batches s @ [(p, [])]\<rparr>)"
| encode_failed: "n_loop s = ClipEncode p \<Longrightarrow>
    ChunkPayload (nd_marshal D) (Some p) DefaultChunkSize = Inl e \<Longrightarrow>
    node_step D R s (loop_failed (nd_canceled D) (ErrWire e) s)"
| encode: "n_loop s = ClipEncode p \<Longrightarrow>
    ChunkPayload (nd_marshal D) (Some p) DefaultChunkSize = Inr chunks \<Longrightarrow>
    node_step D R s (s\<lparr>n_loop := ClipSending chunks\<rparr>)"
| sent: "n_loop s = ClipSending [] \<Longrightarrow> node_step D R s (s\<lparr>n_loop := ClipSelect\<rparr>)"
| marshal_failed: "n_loop s = ClipSending (chunk # chunks) \<Longrightarrow> nd_marshal_chunk D chunk = Inl e \<Longrightarrow>
    node_step D R s (loop_failed (nd_canceled D) (ErrMarshalChunk e) s)"
| too_big: "n_loop s = ClipSending (chunk # chunks) \<Longrightarrow> nd_marshal_chunk D chunk = Inr frame \<Longrightarrow>
    o_MaxFrameBytes (mg_opts (n_mgr s)) < int (length frame) \<Longrightarrow>
    node_step D R s (loop_failed (nd_canceled D) (ErrMesh ErrInvalidFrame) s)"
| broadcast: "n_loop s = ClipSending (chunk # chunks) \<Longrightarrow> nd_marshal_chunk D chunk = Inr frame \<Longrightarrow>
    int (length frame) \<le> o_MaxFrameBytes (mg_opts (n_mgr s)) \<Longrightarrow> enumerates order (n_mgr s) \<Longrightarrow>
    node_step D R s (s\<lparr>n_loop := ClipBroadcast frame None order [] chunks,
      n_batches := add_frame frame (n_batches s)\<rparr>)"
| peer_conn: "n_loop s = ClipBroadcast frame None (q # qs) errs chunks \<Longrightarrow>
    node_step D R s (s\<lparr>n_loop :=
      ClipBroadcast frame (map_option (Pair q) (active_conn (n_mgr s) q)) qs errs chunks\<rparr>)"
| enqueue: "n_loop s = ClipBroadcast frame (Some (q, cid)) qs errs chunks \<Longrightarrow>
    ctx_err = None \<or> n_ctxDone s \<Longrightarrow> enqueue_to pick ctx_err cid frame (n_mgr s) = (m, r) \<Longrightarrow>
    node_step D R s (s\<lparr>n_mesh := (n_mesh s)\<lparr>ms_mgr := m\<rparr>,
      n_loop := ClipBroadcast frame None qs (case r of None \<Rightarrow> errs | Some e \<Rightarrow> errs @ [(q, e)]) chunks\<rparr>)"
| joined: "n_loop s = ClipBroadcast frame None [] errs chunks \<Longrightarrow>
    node_step D R s (if errs = [] then s\<lparr>n_loop := ClipSending chunks\<rparr>
                   else loop_failed (nd_canceled D) (ErrMesh (ErrJoined errs)) s)"
| loop_end: "n_loop s = ClipSelect \<Longrightarrow>
    n_ctxDone s \<or> cl_events (n_clip s) = [] \<and> cl_closed (n_clip s) \<Longrightarrow>
    node_step D R s (s\<lparr>n_loop := ClipEnded\<rparr>)"
| log_tick: "n_logLoop s \<Longrightarrow> enumerates porder (n_mgr s) \<Longrightarrow> distinct order \<Longrightarrow>
    set order = fset (fmdom (rt_peerSeen (n_rt s))) \<Longrightarrow>
    node_step D R s (s\<lparr>n_rt := logPeerChanges order (Peers porder (n_mgr s)) (n_rt s)\<rparr>)"
| log_end: "n_logLoop s \<Longrightarrow> n_ctxDone s \<Longrightarrow> node_step D R s (s\<lparr>n_logLoop := False\<rparr>)"
| frame: "R from frame \<Longrightarrow> receive_chunk (nd_unmarshal_chunk D) (nd_unmarshal D) from frame (n_rt s) = (r, result) \<Longrightarrow>
    node_step D R s (s\<lparr>n_rt := r,
      n_completed := (case result of None \<Rightarrow> n_completed s
                      | Some p \<Rightarrow> (peer_ID from, p) # n_completed s)\<rparr>)"
| apply_refused: "n_completed s = xs @ (from, p) # ys \<Longrightarrow>
    (\<exists>x. e = CtxErr x) \<or> (\<exists>x. ValidatePayload (Some p) = Some x \<and> e = WireErr x)
      \<or> normalizeWritePayload (cd_jpeg_decode (nd_clip D)) (cd_png_encode (nd_clip D)) (Some p) = Inl e \<Longrightarrow>
    node_step D R s (s\<lparr>n_completed := xs @ ys, n_rt := log_line (ApplyFailed from e) (n_rt s)\<rparr>)"
| apply_begin: "n_completed s = xs @ (from, p) # ys \<Longrightarrow> ValidatePayload (Some p) = None \<Longrightarrow>
    normalizeWritePayload (cd_jpeg_decode (nd_clip D)) (cd_png_encode (nd_clip D)) (Some p) = Inr (f, b, d) \<Longrightarrow>
    node_step D R s (s\<lparr>n_completed := xs @ ys, n_calls := (from, p) # n_calls s,
      n_clip := (n_clip s)
        \<lparr>cl_pending := remember (cl_pending (n_clip s)) b (ComputeContentSHA256 d) (cl_now (n_clip s)),
         cl_applying := BeforeWrite f b d # cl_applying (n_clip s)\<rparr>\<rparr>)"
| apply_written: "cl_applying (n_clip s) = xs @ BeforeWrite f b d # ys \<Longrightarrow>
    n_calls s = us @ (from, p) # vs \<Longrightarrow> length us = length xs \<Longrightarrow>
    cd_write (nd_clip D) f d (cl_os (n_clip s)) = (None, os') \<Longrightarrow>
    node_step D R s (s\<lparr>n_clip := (n_clip s)\<lparr>cl_os := os', cl_applying := xs @ ys\<rparr>, n_calls := us @ vs,
      n_rt := log_line (Applied from (GetType (Some p)) (GetSizeBytes (Some p))) (n_rt s)\<rparr>)"
| apply_failed: "cl_applying (n_clip s) = xs @ BeforeWrite f b d # ys \<Longrightarrow>
    cd_write (nd_clip D) f d (cl_os (n_clip s)) = (Some e, os') \<Longrightarrow>
    node_step D R s (s\<lparr>n_clip := (n_clip s)\<lparr>cl_os := os', cl_applying := xs @ WriteFailed b d # ys\<rparr>\<rparr>)"
| apply_forget: "cl_applying (n_clip s) = xs @ WriteFailed b d # ys \<Longrightarrow>
    n_calls s = us @ (from, p) # vs \<Longrightarrow> length us = length xs \<Longrightarrow>
    node_step D R s (s\<lparr>n_clip := (n_clip s)
        \<lparr>cl_pending := forget (cl_pending (n_clip s)) b (ComputeContentSHA256 d), cl_applying := xs @ ys\<rparr>,
      n_calls := us @ vs, n_rt := log_line (ApplyFailed from (ErrWriteClipboard e)) (n_rt s)\<rparr>)"

inductive_cases node_stepE: "node_step D R s s'"

abbreviation node_run :: "('img, 'os) node_deps \<Rightarrow> (Peer \<Rightarrow> bytes \<Rightarrow> bool) \<Rightarrow> 'os node \<Rightarrow> 'os node \<Rightarrow> bool" where
  "node_run D R \<equiv> (node_step D R)\<^sup>*\<^sup>*"


section \<open>The managers inside the node\<close>

lemma log_line_sel [simp]:
  "rt_reassembler (log_line x r) = rt_reassembler r" "rt_waitClosed (log_line x r) = rt_waitClosed r"
  "rt_peerSeen (log_line x r) = rt_peerSeen r"
  by (simp_all add: log_line_def)

lemma loop_failed_sel [simp]:
  "n_clip (loop_failed x e s) = n_clip s" "n_mesh (loop_failed x e s) = n_mesh s"
  "n_loop (loop_failed x e s) = ClipSelect" "n_logLoop (loop_failed x e s) = n_logLoop s"
  "n_completed (loop_failed x e s) = n_completed s" "n_calls (loop_failed x e s) = n_calls s"
  "n_ctxDone (loop_failed x e s) = n_ctxDone s" "n_meshDone (loop_failed x e s) = n_meshDone s"
  "n_emitted (loop_failed x e s) = n_emitted s" "n_batches (loop_failed x e s) = n_batches s"
  "rt_reassembler (n_rt (loop_failed x e s)) = rt_reassembler (n_rt s)"
  "rt_waitClosed (n_rt (loop_failed x e s)) = rt_waitClosed (n_rt s)"
  by (simp_all add: loop_failed_def)

text \<open>
  Every step of the node is, for each of the two managers, one of its own steps or nothing. So
  whatever holds in every reachable state of \<open>clip_step\<close> and of \<open>mesh_step\<close> holds in the node.
\<close>

lemma node_step_clip: "node_step D R s s' \<Longrightarrow> (clip_step (nd_clip D))\<^sup>=\<^sup>= (n_clip s) (n_clip s')"
proof (induction rule: node_step.induct)
  case (take s p rest)
  then show ?case using clip_step.receive [of "n_clip s" p rest "nd_clip D"] by simp
next
  case (apply_begin s xs "from" p ys f b d)
  then show ?case using clip_step.apply_begin [of p "nd_clip D" f b d "n_clip s"] by simp
next
  case (apply_written s xs f b d ys us "from" p vs os')
  then show ?case using clip_step.apply_written [of "n_clip s" xs f b d ys "nd_clip D" os'] by simp
next
  case (apply_failed s xs f b d ys e os')
  then show ?case using clip_step.apply_failed [of "n_clip s" xs f b d ys "nd_clip D" e os'] by simp
next
  case (apply_forget s xs b d ys us "from" p vs e)
  then show ?case using clip_step.apply_forget [of "n_clip s" xs b d ys "nd_clip D"] by simp
qed (simp_all)

lemma node_step_mesh:
  "node_step D R s s' \<Longrightarrow>
     (\<forall>frame t qs errs chunks. n_loop s = ClipBroadcast frame t qs errs chunks \<longrightarrow>
        int (length frame) \<le> o_MaxFrameBytes (mg_opts (n_mgr s))) \<Longrightarrow>
     mesh_step\<^sup>=\<^sup>= (n_mesh s) (n_mesh s')"
proof (induction rule: node_step.induct)
  case (cancelled s)
  then show ?case using mesh_step.cancel [of "n_mesh s"] by simp
next
  case (enqueue s frame q cid qs errs chunks ctx_err pick m r)
  then show ?case using mesh_step.enqueue [of frame "n_mesh s" pick ctx_err cid] by simp
qed simp_all


section \<open>The invariant of the node\<close>

text \<open>The frames \<open>broadcastPayload\<close> produces, up to the first chunk that cannot be marshalled.\<close>

fun marshalled :: "(PayloadChunk \<Rightarrow> string + bytes) \<Rightarrow> PayloadChunk list \<Rightarrow> bytes list" where
  "marshalled mc [] = []"
| "marshalled mc (chunk # chunks) =
     (case mc chunk of Inl e \<Rightarrow> [] | Inr frame \<Rightarrow> frame # marshalled mc chunks)"

definition payload_frames :: "('img, 'os) node_deps \<Rightarrow> ClipboardPayload \<Rightarrow> bytes list" where
  "payload_frames D p =
     (case ChunkPayload (nd_marshal D) (Some p) DefaultChunkSize of
        Inl e \<Rightarrow> [] | Inr chunks \<Rightarrow> marshalled (nd_marshal_chunk D) chunks)"

text \<open>
  Where the loop stands in the payload taken last: what it has sent and what is left make up
  the payload's frames, and the frame inside \<open>Broadcast\<close> is one that was sent and fits.
\<close>

definition last_sent :: "('img, 'os) node_deps \<Rightarrow> PayloadChunk list \<Rightarrow> (ClipboardPayload \<times> bytes list) list \<Rightarrow> bool" where
  "last_sent D chunks bs \<longleftrightarrow> bs \<noteq> []
     \<and> payload_frames D (fst (last bs)) = snd (last bs) @ marshalled (nd_marshal_chunk D) chunks"

fun loop_ok :: "('img, 'os) node_deps \<Rightarrow> int \<Rightarrow> clip_loop \<Rightarrow> (ClipboardPayload \<times> bytes list) list \<Rightarrow> bool" where
  "loop_ok D limit (ClipEncode p) bs \<longleftrightarrow> bs \<noteq> [] \<and> last bs = (p, [])"
| "loop_ok D limit (ClipSending chunks) bs \<longleftrightarrow> last_sent D chunks bs"
| "loop_ok D limit (ClipBroadcast frame t qs errs chunks) bs \<longleftrightarrow>
     last_sent D chunks bs \<and> frame \<in> set (snd (last bs)) \<and> int (length frame) \<le> limit"
| "loop_ok D limit _ bs \<longleftrightarrow> True"

text \<open>A call of \<open>ApplyRemote\<close> writes what its payload normalises to.\<close>

fun call_ok :: "('img, 'os) node_deps \<Rightarrow> string \<times> ClipboardPayload \<Rightarrow> applying \<Rightarrow> bool" where
  "call_ok D (from, p) (BeforeWrite f b d) \<longleftrightarrow> valid_payload p
     \<and> normalizeWritePayload (cd_jpeg_decode (nd_clip D)) (cd_png_encode (nd_clip D)) (Some p) = Inr (f, b, d)"
| "call_ok D (from, p) (WriteFailed b d) \<longleftrightarrow> valid_payload p \<and> (\<exists>f.
     normalizeWritePayload (cd_jpeg_decode (nd_clip D)) (cd_png_encode (nd_clip D)) (Some p) = Inr (f, b, d))"

definition sent_inv :: "('img, 'os) node_deps \<Rightarrow> 'os node \<Rightarrow> bool" where
  "sent_inv D s \<longleftrightarrow>
     n_emitted s = map fst (n_batches s) @ cl_events (n_clip s)
     \<and> (\<forall>(p, fs) \<in> set (n_batches s). valid_payload p \<and> prefix fs (payload_frames D p))
     \<and> loop_ok D (o_MaxFrameBytes (mg_opts (n_mgr s))) (n_loop s) (n_batches s)
     \<and> queued (n_mgr s) \<subseteq> (\<Union>(p, fs) \<in> set (n_batches s). set fs)"

definition received_inv :: "('img, 'os) node_deps \<Rightarrow> 'os node \<Rightarrow> bool" where
  "received_inv D s \<longleftrightarrow>
     reassembler_inv (rt_reassembler (n_rt s))
     \<and> (\<forall>(from, p) \<in> set (n_completed s). valid_payload p)
     \<and> list_all2 (call_ok D) (n_calls s) (cl_applying (n_clip s))"

definition ended_inv :: "'os node \<Rightarrow> bool" where
  "ended_inv s \<longleftrightarrow>
     (n_ctxDone s \<or> n_meshDone s \<longrightarrow> mg_ctxDone (n_mgr s))
     \<and> (rt_waitClosed (n_rt s) \<longrightarrow> n_ctxDone s \<and> n_meshDone s)
     \<and> (n_loop s = ClipEnded \<longrightarrow> n_ctxDone s \<or> cl_closed (n_clip s))
     \<and> (\<not> n_logLoop s \<longrightarrow> n_ctxDone s)"

definition node_inv :: "('img, 'os) node_deps \<Rightarrow> 'os node \<Rightarrow> bool" where
  "node_inv D s \<longleftrightarrow> clip_inv (n_clip s) \<and> system_inv (n_mesh s) \<and> sent_inv D s \<and> received_inv D s \<and> ended_inv s"

subsection \<open>What is sent\<close>

lemma queued_cancel [simp]: "queued (cancel_ctx m) = queued m"
  by (force simp: queued_def cancel_ctx_def)

text \<open>
  Only enqueues lengthen a queue, so the rule \<open>mesh\<close> bars the mesh manager's enqueues and nothing
  else: within the node, these are the steps of \<open>Broadcast\<close>.
\<close>

lemma queued_conns: "mg_conns m' = mg_conns m \<Longrightarrow> queued m' = queued m"
  by (simp add: queued_def)

lemma queued_update_peer [simp]: "queued (update_peer p f m) = queued m"
  by (rule queued_conns) simp

lemma queued_set_peer [simp]: "queued (set_peer p ps m) = queued m"
  by (rule queued_conns) simp

lemma queued_goClose [simp]: "queued (m\<lparr>mg_goClose := g\<rparr>) = queued m"
  by (rule queued_conns) simp

lemma queued_set_conn: "set (mc_sendQ c) \<subseteq> queued m \<Longrightarrow> queued (set_conn cid c m) \<subseteq> queued m"
  by (auto simp: queued_def split: if_splits)

lemma queued_conn: "fmlookup (mg_conns m) cid = Some c \<Longrightarrow> set (mc_sendQ c) \<subseteq> queued m"
  by (auto simp: queued_def)

lemma queued_close_cid: "queued (close_cid cid reason m) \<subseteq> queued m"
  using queued_conn [of m cid]
  by (auto simp: close_cid_def close_conn_def split: option.split intro!: queued_set_conn)

lemma queued_attach:
  assumes "mc_sendQ conn = []"
  shows "queued (attach_or_close p cid conn m) \<subseteq> queued m"
proof -
  have c: "queued (set_conn cid conn m) \<subseteq> queued m" "queued (set_conn cid (conn\<lparr>mc_started := True\<rparr>) m) \<subseteq> queued m"
    for m using assms by (simp_all add: queued_set_conn)
  have "queued (fst (attachConnection p cid conn m)) \<subseteq> queued m"
    using c [of "set_peer p _ m"] by (auto simp: attachConnection_def Let_def split: option.split)
  then show ?thesis
    using queued_close_cid [of cid "''duplicate connection''" "fst (attachConnection p cid conn m)"]
    by (auto simp: attach_or_close_def split: prod.split bool.split)
qed

lemma queued_getOrCreatePeer [simp]: "queued (getOrCreatePeer p m) = queued m"
  by (simp add: getOrCreatePeer_def split: option.split)

lemma queued_attach_new:
  "queued (attach_or_close p cid (newManagedConn d dir q name n) m) \<subseteq> queued m"
  by (rule queued_attach) (simp add: newManagedConn_def)

lemma queued_inbound: "queued (fst (handleWebSocket r upgraded cid m)) \<subseteq> queued m"
proof -
  note attach = subset_trans [OF queued_attach_new equalityD1 [OF
        trans [OF queued_update_peer queued_getOrCreatePeer [of "wr_nodeID r" m]]]]
  show ?thesis by (simp add: handleWebSocket_def Let_def attach)
qed

lemma queued_dial: "queued (fst (dial_loop dialer p peer wsPath cid addrs lastErr m)) \<subseteq> queued m"
  by (induction dialer p peer wsPath cid addrs lastErr m rule: dial_loop.induct)
    (simp_all add: Let_def queued_attach_new split: dial_result.split prod.split)

lemma queued_prepareDial: "prepareDial p m = (m', r) \<Longrightarrow> queued m' = queued m"
  by (auto simp: prepareDial_def split: option.splits if_splits prod.splits)

lemma mesh_step_queued:
  "mesh_step s s' \<Longrightarrow> queued (ms_mgr s') \<subseteq> queued (ms_mgr s)
     \<or> (\<exists>pick ctx_err cid frame. s' = s\<lparr>ms_mgr := fst (enqueue_to pick ctx_err cid frame (ms_mgr s))\<rparr>)"
proof (induction rule: mesh_step.induct)
  case (inbound s cid r upgraded)
  then show ?case using queued_inbound by simp
next
  case (write_frame s cid c frame c')
  then show ?case
    using queued_conn [OF write_frame(1)]
    by (auto simp: writePump_frame_def split: list.splits intro!: queued_set_conn)
next
  case (enqueue frame s pick ctx_err cid)
  then show ?case by blast
next
  case (pump_ends s cid c reason m' r)
  have "queued (fst (drop_conn p cid (ms_mgr s))) = queued (ms_mgr s)" for p
    by (simp add: drop_conn_def Let_def split: option.split)
  then have "queued m' = queued (ms_mgr s)"
    using pump_ends by (auto simp: pump_drop_def split: prod.splits) (metis fst_conv)+
  then show ?case by simp
next
  case (service now entry s m' r)
  have "queued (fst (service_update now entry (ms_mgr s))) = queued (ms_mgr s)"
    by (rule queued_conns) simp
  then show ?case using service by simp
next
  case (go_close s xs cid reason ys)
  then show ?case using queued_close_cid by simp
next
  case (shutdown_close s cid)
  then show ?case using queued_close_cid by simp
next
  case (dial_ok s p peer wsPath delay cid dialer m')
  have "queued m' \<subseteq> queued (ms_mgr s)"
    using queued_dial [of dialer p peer wsPath cid "peer_Addresses peer" None "ms_mgr s"] dial_ok(3)
    by (simp add: dialPeer_def)
  then show ?case by (simp add: set_loop_def)
next
  case (dial_failed s p peer wsPath delay cid dialer m' e)
  have "queued m' \<subseteq> queued (ms_mgr s)"
    using queued_dial [of dialer p peer wsPath cid "peer_Addresses peer" None "ms_mgr s"] dial_failed(3)
    by (simp add: dialPeer_def)
  then show ?case by (simp add: set_loop_def)
next
  case (start s listen)
  have "queued (fst (Start listen (ms_mgr s))) = queued (ms_mgr s)"
    by (rule queued_conns) (simp add: Start_def split: option.split)
  then show ?case by simp
qed (simp_all add: set_loop_def ensure_step_def ensureDialLoop_def queued_prepareDial)

lemma queued_enqueue:
  assumes "enqueue_to pick e cid frame m = (m', r)"
  shows "queued m' \<subseteq> insert frame (queued m)"
proof (cases "fmlookup (mg_conns m) cid")
  case None
  then show ?thesis using assms by (auto simp: enqueue_to_def)
next
  case (Some c)
  obtain r' c' where c': "enqueue pick e c frame = (r', c')" by (cases "enqueue pick e c frame")
  then have "m' = set_conn cid c' m" using assms enqueue_to_conns [OF Some] by simp
  moreover have "set (mc_sendQ c') \<subseteq> insert frame (set (mc_sendQ c))"
    using enqueue_cases [OF c'] by auto
  ultimately show ?thesis using Some by (auto simp: queued_def split: if_splits)
qed

lemma add_frame_parts:
  assumes "bs \<noteq> []"
  shows "map fst (add_frame frame bs) = map fst bs" "add_frame frame bs \<noteq> []"
    "last (add_frame frame bs) = (fst (last bs), snd (last bs) @ [frame])"
    "set (add_frame frame bs) \<subseteq> insert (fst (last bs), snd (last bs) @ [frame]) (set bs)"
    "(\<Union>(p, fs) \<in> set bs. set fs) \<subseteq> (\<Union>(p, fs) \<in> set (add_frame frame bs). set fs)"
proof -
  obtain xs p fs where bs: "bs = xs @ [(p, fs)]" using assms by (metis prod.collapse snoc_eq_iff_butlast)
  then show "map fst (add_frame frame bs) = map fst bs" "add_frame frame bs \<noteq> []"
    "last (add_frame frame bs) = (fst (last bs), snd (last bs) @ [frame])"
    "set (add_frame frame bs) \<subseteq> insert (fst (last bs), snd (last bs) @ [frame]) (set bs)"
    "(\<Union>(p, fs) \<in> set bs. set fs) \<subseteq> (\<Union>(p, fs) \<in> set (add_frame frame bs). set fs)"
    by (auto simp: add_frame_def)
qed

lemma last_sent_next:
  "last_sent D (chunk # chunks) bs \<Longrightarrow> nd_marshal_chunk D chunk = Inr frame \<Longrightarrow>
     last_sent D chunks (add_frame frame bs)"
  by (simp add: last_sent_def add_frame_parts)

lemma last_sent_prefix: "last_sent D chunks bs \<Longrightarrow> prefix (snd (last bs)) (payload_frames D (fst (last bs)))"
  by (simp add: last_sent_def)

lemma sent_inv_take:
  assumes "sent_inv D s" and "cl_events (n_clip s) = p # rest" and "valid_payload p"
  shows "sent_inv D (s\<lparr>n_clip := (n_clip s)\<lparr>cl_events := rest\<rparr>, n_loop := ClipEncode p,
      n_rt := r, n_batches := n_batches s @ [(p, [])]\<rparr>)"
  using assms by (auto simp: sent_inv_def)

lemma sent_inv_broadcast:
  assumes inv: "sent_inv D s" and "n_loop s = ClipSending (chunk # chunks)"
    and mc: "nd_marshal_chunk D chunk = Inr frame" and fits: "int (length frame) \<le> o_MaxFrameBytes (mg_opts (n_mgr s))"
  shows "sent_inv D (s\<lparr>n_loop := ClipBroadcast frame None order [] chunks,
      n_batches := add_frame frame (n_batches s)\<rparr>)"
proof -
  let ?bs = "n_batches s"
  have sent: "last_sent D (chunk # chunks) ?bs" using assms(1,2) by (simp add: sent_inv_def)
  then have ne: "?bs \<noteq> []" by (simp add: last_sent_def)
  note sent' = last_sent_next [OF sent mc]
  have "valid_payload (fst (last ?bs))"
    using inv last_in_set [OF ne] by (auto simp: sent_inv_def)
  then have "\<forall>(p, fs) \<in> set (add_frame frame ?bs). valid_payload p \<and> prefix fs (payload_frames D p)"
    using inv add_frame_parts(4) [OF ne, of frame] last_sent_prefix [OF sent'] add_frame_parts(3) [OF ne, of frame]
    by (fastforce simp: sent_inv_def)
  then show ?thesis
    using inv sent' fits add_frame_parts(1,3,5) [OF ne, of frame] by (auto simp: sent_inv_def)
qed

lemma loop_ok_encode:
  "loop_ok D n (ClipEncode p) bs \<Longrightarrow> ChunkPayload (nd_marshal D) (Some p) DefaultChunkSize = Inr chunks \<Longrightarrow>
     loop_ok D n (ClipSending chunks) bs"
  by (simp add: last_sent_def payload_frames_def)

lemma clip_inv_event: "clip_inv c \<Longrightarrow> cl_events c = p # rest \<Longrightarrow> valid_payload p"
  by (simp add: clip_inv_def)

lemma node_step_opts:
  assumes "node_step D R s s'" and "sent_inv D s" and "system_inv (n_mesh s)"
  shows "mesh_step\<^sup>=\<^sup>= (n_mesh s) (n_mesh s')"
    and "system_inv (n_mesh s')" and "mg_opts (n_mgr s') = mg_opts (n_mgr s)"
    and "mg_ctxDone (n_mgr s) \<Longrightarrow> mg_ctxDone (n_mgr s')"
proof -
  show step: "mesh_step\<^sup>=\<^sup>= (n_mesh s) (n_mesh s')"
    by (rule node_step_mesh [OF assms(1)]) (use assms(2) in \<open>auto simp: sent_inv_def\<close>)
  then show "system_inv (n_mesh s')" using mesh_step_inv assms(3) by auto
  show "mg_opts (n_mgr s') = mg_opts (n_mgr s)" "mg_ctxDone (n_mgr s) \<Longrightarrow> mg_ctxDone (n_mgr s')"
    using step mesh_step_frame assms(3) by auto
qed

lemma sent_step:
  assumes "node_step D R s s'" and inv: "sent_inv D s" and "clip_inv (n_clip s)" and "system_inv (n_mesh s)"
  shows "sent_inv D s'"
  using assms(1)
proof cases
  case (clip c ps)
  then show ?thesis using inv by (simp add: sent_inv_def)
next
  case (mesh m)
  then show ?thesis using inv node_step_opts(3) [OF assms(1) inv assms(4)] by (auto simp: sent_inv_def)
next
  case (take p rest)
  then show ?thesis using sent_inv_take [OF inv take(3)] clip_inv_event [OF assms(3) take(3)] by simp
next
  case (encode p chunks)
  then show ?thesis using inv loop_ok_encode by (auto simp: sent_inv_def)
next
  case (broadcast chunk chunks frame order)
  then show ?thesis using sent_inv_broadcast [OF inv] by simp
next
  case (enqueue frame q cid qs errs chunks ctx_err pick m r)
  have "frame \<in> (\<Union>(p, fs) \<in> set (n_batches s). set fs)"
    using inv enqueue(2) last_in_set [of "n_batches s"]
    by (auto simp: sent_inv_def last_sent_def intro!: bexI [of _ "last (n_batches s)"])
  moreover have "queued m \<subseteq> insert frame (queued (n_mgr s))" by (rule queued_enqueue [OF enqueue(4)])
  moreover have "mg_opts m = mg_opts (n_mgr s)"
    using node_step_opts(3) [OF assms(1) inv assms(4)] enqueue(1) by simp
  ultimately show ?thesis using inv enqueue(1,2) by (auto simp: sent_inv_def)
qed (use inv in \<open>auto simp: sent_inv_def\<close>)


subsection \<open>What is received\<close>

lemma receive_chunk_ok:
  assumes "receive_chunk uc up from frame r = (r', result)" and inv: "reassembler_inv (rt_reassembler r)"
  shows "reassembler_inv (rt_reassembler r') \<and> (\<forall>p. result = Some p \<longrightarrow> valid_payload p)"
proof (cases "uc frame")
  case (Inl e)
  then show ?thesis using assms by (auto simp: receive_chunk_def)
next
  case (Inr chunk)
  obtain ra x where add: "Add up (rt_reassembler r) (Some chunk) = (ra, x)"
    by (cases "Add up (rt_reassembler r) (Some chunk)")
  have "reassembler_inv ra" using Add_inv [OF inv, of up "Some chunk"] add by simp
  moreover have "valid_payload p" if "x = Inr (Some p)" for p
    using Add_emits [OF inv, of up "Some chunk" p] add that by auto
  ultimately show ?thesis
    using assms(1) Inr add by (auto simp: receive_chunk_def Let_def split: sum.splits)
qed

lemma receive_chunk_waits:
  "receive_chunk uc up from frame r = (r', result) \<Longrightarrow> rt_waitClosed r' = rt_waitClosed r"
  by (auto simp: receive_chunk_def Let_def split: sum.splits prod.splits)

lemma list_all2_remove:
  "list_all2 P (us @ u # vs) (xs @ x # ys) \<Longrightarrow> length us = length xs \<Longrightarrow> list_all2 P (us @ vs) (xs @ ys)"
  by (auto simp: list_all2_append)

lemma list_all2_replace:
  assumes "list_all2 P us (xs @ x # ys)" and "\<And>u. P u x \<Longrightarrow> P u x'"
  shows "list_all2 P us (xs @ x' # ys)"
proof -
  obtain as bs where "us = as @ bs" "list_all2 P as xs" "list_all2 P bs (x # ys)"
    using assms(1) unfolding list_all2_append2 by blast
  then show ?thesis using assms(2) by (auto simp: list_all2_Cons2 intro!: list_all2_appendI)
qed

lemma call_written_failed: "call_ok D u (BeforeWrite f b d) \<Longrightarrow> call_ok D u (WriteFailed b d)"
  by (cases u) auto

lemma received_step:
  assumes "node_step D R s s'" and inv: "received_inv D s"
  shows "received_inv D s'"
  using assms(1)
proof cases
  case (frame "from" frame r result)
  then show ?thesis
    using inv receive_chunk_ok [OF frame(3)] by (auto simp: received_inv_def split: option.split)
next
  case (apply_begin xs "from" p ys f b d)
  then show ?thesis using inv by (auto simp: received_inv_def)
next
  case (apply_written xs f b d ys us "from" p vs os')
  then show ?thesis
    using inv list_all2_remove [of "call_ok D" us "(from, p)" vs xs "BeforeWrite f b d" ys] by (simp add: received_inv_def)
next
  case (apply_failed xs f b d ys e os')
  then show ?thesis
    using inv list_all2_replace [of "call_ok D" "n_calls s" xs "BeforeWrite f b d" ys "WriteFailed b d"]
      call_written_failed by (auto simp: received_inv_def)
next
  case (apply_forget xs b d ys us "from" p vs e)
  then show ?thesis
    using inv list_all2_remove [of "call_ok D" us "(from, p)" vs xs "WriteFailed b d" ys] by (simp add: received_inv_def)
qed (use inv in \<open>auto simp: received_inv_def logPeerChanges_def Let_def\<close>)

subsection \<open>What has ended\<close>

lemma clip_step_closed: "clip_step D s s' \<Longrightarrow> cl_closed s \<Longrightarrow> cl_closed s'"
  by (induction rule: clip_step.induct) simp_all

lemma ended_step:
  assumes "node_step D R s s'" and inv: "ended_inv s" and "sent_inv D s" and "system_inv (n_mesh s)"
  shows "ended_inv s'"
proof -
  note ctx = node_step_opts(4) [OF assms(1,3,4)]
  show ?thesis
    using assms(1)
  proof cases
    case (clip c ps)
    then show ?thesis using inv clip_step_closed by (auto simp: ended_inv_def)
  next
    case (mesh m)
    then show ?thesis using inv ctx by (auto simp: ended_inv_def)
  next
    case (enqueue frame q cid qs errs chunks ctx_err pick m r)
    then show ?thesis using inv ctx by (auto simp: ended_inv_def)
  next
    case (frame "from" frame r result)
    then show ?thesis using inv receive_chunk_waits [OF frame(3)] by (auto simp: ended_inv_def)
  qed (use inv in \<open>auto simp: ended_inv_def logPeerChanges_def Let_def cancel_ctx_def\<close>)
qed

subsection \<open>All of it\<close>

lemma node_step_inv:
  assumes "node_step D R s s'" and "node_inv D s"
  shows "node_inv D s'"
proof -
  have inv: "clip_inv (n_clip s)" "system_inv (n_mesh s)" "sent_inv D s" "received_inv D s" "ended_inv s"
    using assms(2) by (simp_all add: node_inv_def)
  have "clip_inv (n_clip s')"
    using node_step_clip [OF assms(1)] clip_step_inv inv(1) by auto
  then show ?thesis
    using node_step_opts(2) [OF assms(1) inv(3,2)] sent_step [OF assms(1) inv(3,1,2)]
      received_step [OF assms(1) inv(4)] ended_step [OF assms(1) inv(5,3,2)]
    by (simp add: node_inv_def)
qed

lemma node_run_inv: "node_run D R s s' \<Longrightarrow> node_inv D s \<Longrightarrow> node_inv D s'"
  by (induction rule: rtranclp_induct) (auto intro: node_step_inv)

text \<open>The identifier of a node never changes.\<close>

lemma node_step_id:
  assumes "node_step D R s s'" and "node_inv D s"
  shows "mg_nodeID (n_mgr s') = mg_nodeID (n_mgr s)"
  using node_step_opts(1) [OF assms(1)] assms(2) mesh_step_frame by (auto simp: node_inv_def)

lemma node_run_id:
  assumes "node_run D R s s'" and "node_inv D s"
  shows "mg_nodeID (n_mgr s') = mg_nodeID (n_mgr s)"
  using assms(1)
proof (induction rule: rtranclp_induct)
  case (step s1 s2)
  then show ?case using node_step_id [OF step.hyps(2) node_run_inv [OF step.hyps(1) assms(2)]] by simp
qed simp

lemma started_clip_reachable:
  "clip_reachable D (newManagerWithBackend n now os) (started_clip n now os)"
  by (rule clip_reachable.step [OF clip_reachable.init])
    (use clip_step.start [of "newManagerWithBackend n now os" D] in
      \<open>simp add: started_clip_def newManagerWithBackend_def Let_def\<close>)

lemma started_mesh_reachable: "mesh_reachable m (initial_state (fst (Start None m)))"
  using mesh_reachable.step [OF mesh_reachable.init mesh_step.start [of "initial_state m" None]]
  by (simp add: initial_state_def)

lemma node_run_managers:
  assumes "node_run D R (started_node n now os m) s" and "node_inv D (started_node n now os m)"
  shows "clip_reachable (nd_clip D) (newManagerWithBackend n now os) (n_clip s)
    \<and> mesh_reachable m (n_mesh s)"
  using assms(1)
proof (induction rule: rtranclp_induct)
  case base
  then show ?case
    using started_clip_reachable started_mesh_reachable by (simp add: started_node_def Let_def)
next
  case (step s s')
  have "node_inv D s" using node_run_inv [OF step.hyps(1) assms(2)] .
  then show ?case
    using node_step_clip [OF step.hyps(2)] node_step_opts(1) [OF step.hyps(2)] step.IH
    by (auto simp: node_inv_def intro: clip_reachable.step mesh_reachable.step)
qed

lemma started_node_inv:
  assumes "NewManager raw hostname opts handler_nil = Inr m" and "o_ReconnectMaxBackoff opts < 2 ^ 62"
  shows "node_inv D (started_node n now os m)"
proof -
  have "clip_inv (started_clip n now os)"
    using clip_reachable_inv [OF started_clip_reachable clip_inv_init] .
  moreover have "system_inv (initial_state (fst (Start None m)))"
    using mesh_reachable_inv [OF started_mesh_reachable NewManager_inv [OF assms]] NewManager_Inr(2) [OF assms(1)]
    by blast
  moreover have "queued (fst (Start None m)) = {}"
    using NewManager_Inr(3) [OF assms(1)] by (simp add: queued_def Start_def)
  ultimately show ?thesis
    by (simp add: node_inv_def started_node_def sent_inv_def received_inv_def ended_inv_def Let_def
        initial_state_def started_clip_def newManagerWithBackend_def Runtime_Start_def newRuntime_def
        reassembler_inv_def NewReassembler_def)
qed

end
