(* ===== verification/NodeRuns.thy ===== *)
theory NodeRuns
  imports NodeSystem
begin

text \<open>
  Runs of the node: from every state the context's end leads to the end of \<open>Wait\<close>, and the whole
  calls of \<open>runClipboardLoop\<close>'s body, \<open>broadcastPayload\<close>, \<open>handleFrame\<close> and \<open>ApplyRemote\<close> are runs of
  the node's single steps.
\<close>

section \<open>The way down\<close>

text \<open>
  How far the clipboard loop is from its end: first by the chunks that are left, then by the
  peers left in the \<open>Broadcast\<close> of one frame.
\<close>

fun loop_rank :: "('img, 'os) node_deps \<Rightarrow> clip_loop \<Rightarrow> nat \<times> nat" where
  "loop_rank D ClipEnded = (0, 0)"
| "loop_rank D ClipSelect = (0, 1)"
| "loop_rank D (ClipSending chunks) = (2 * length chunks + 1, 0)"
| "loop_rank D (ClipBroadcast frame t qs errs chunks) =
     (2 * length chunks + 2, 2 * length qs + (if t = None then 0 else 1))"
| "loop_rank D (ClipEncode p) =
     (case ChunkPayload (nd_marshal D) (Some p) DefaultChunkSize of
        Inl e \<Rightarrow> (1, 0) | Inr chunks \<Rightarrow> (2 * length chunks + 2, 0))"

definition loop_less :: "('img, 'os) node_deps \<Rightarrow> ('os node \<times> 'os node) set" where
  "loop_less D = inv_image (less_than <*lex*> less_than) (\<lambda>s. loop_rank D (n_loop s))"

lemma wf_loop_less: "wf (loop_less D)"
  unfolding loop_less_def by (intro wf_inv_image wf_lex_prod wf_less_than)

lemma enumeration_exists: "\<exists>order. enumerates order m"
  using finite_distinct_list [of "fset (fmdom (mg_peers m))"] by (auto simp: enumerates_def)

definition loop_moves :: "('img, 'os) node_deps \<Rightarrow> (Peer \<Rightarrow> bytes \<Rightarrow> bool) \<Rightarrow> 'os node \<Rightarrow> bool" where
  "loop_moves D R s \<longleftrightarrow> (\<exists>s'. node_step D R s s' \<and> n_ctxDone s' = n_ctxDone s \<and> (s', s) \<in> loop_less D)"

lemma loop_movesI: "node_step D R s s' \<Longrightarrow> n_ctxDone s' = n_ctxDone s \<Longrightarrow> (s', s) \<in> loop_less D \<Longrightarrow> loop_moves D R s"
  unfolding loop_moves_def by blast

lemma in_loop_less:
  "(s', s) \<in> loop_less D \<longleftrightarrow> fst (loop_rank D (n_loop s')) < fst (loop_rank D (n_loop s))
     \<or> fst (loop_rank D (n_loop s')) = fst (loop_rank D (n_loop s))
       \<and> snd (loop_rank D (n_loop s')) < snd (loop_rank D (n_loop s))"
  by (cases "loop_rank D (n_loop s')"; cases "loop_rank D (n_loop s)") (simp add: loop_less_def)

text \<open>Wherever the loop stands, it has a step towards its end, at its \<open>select\<close> once the context is done.\<close>

lemma sending_ends:
  assumes "n_loop s = ClipSending chunks"
  shows "loop_moves D R s"
proof (cases chunks)
  case Nil
  show ?thesis
    by (rule loop_movesI [OF node_step.sent]) (simp_all add: assms Nil in_loop_less)
next
  case (Cons chunk rest)
  note loop = assms [unfolded Cons]
  show ?thesis
  proof (cases "nd_marshal_chunk D chunk")
    case (Inl e)
    show ?thesis
      by (rule loop_movesI [OF node_step.marshal_failed [OF loop Inl]]) (simp_all add: loop in_loop_less)
  next
    case (Inr frame)
    show ?thesis
    proof (cases "int (length frame) \<le> o_MaxFrameBytes (mg_opts (n_mgr s))")
      case True
      obtain order where "enumerates order (n_mgr s)" using enumeration_exists by blast
      then show ?thesis
        by (intro loop_movesI [OF node_step.broadcast [OF loop Inr True]]) (simp_all add: loop in_loop_less)
    next
      case False
      then show ?thesis
        by (intro loop_movesI [OF node_step.too_big [OF loop Inr]]) (simp_all add: loop in_loop_less)
    qed
  qed
qed

lemma broadcast_ends:
  assumes loop: "n_loop s = ClipBroadcast frame t qs errs chunks"
  shows "loop_moves D R s"
proof (cases t)
  case (Some u)
  obtain q cid where u: "u = (q, cid)" by (cases u)
  obtain m r where m: "enqueue_to 0 None cid frame (n_mgr s) = (m, r)" by (cases "enqueue_to 0 None cid frame (n_mgr s)")
  show ?thesis
    by (rule loop_movesI [OF node_step.enqueue [OF loop [unfolded Some u] disjI1 [OF refl] m]])
      (simp_all add: loop Some in_loop_less)
next
  case None
  show ?thesis
  proof (cases qs)
    case Nil
    show ?thesis
      by (rule loop_movesI [OF node_step.joined [OF loop [unfolded None Nil]]])
        (simp_all add: loop None Nil in_loop_less)
  next
    case (Cons q rest)
    show ?thesis
      by (rule loop_movesI [OF node_step.peer_conn [OF loop [unfolded None Cons]]])
        (simp_all add: loop None Cons in_loop_less)
  qed
qed

lemma loop_ends:
  assumes "n_ctxDone s" and "n_loop s \<noteq> ClipEnded"
  shows "loop_moves D R s"
proof (cases "n_loop s")
  case ClipSelect
  show ?thesis
    by (rule loop_movesI [OF node_step.loop_end [OF ClipSelect disjI1 [OF assms(1)]]])
      (simp_all add: ClipSelect in_loop_less)
next
  case (ClipEncode p)
  show ?thesis
  proof (cases "ChunkPayload (nd_marshal D) (Some p) DefaultChunkSize")
    case (Inl e)
    show ?thesis
      by (rule loop_movesI [OF node_step.encode_failed [OF ClipEncode Inl]]) (simp_all add: ClipEncode Inl in_loop_less)
  next
    case (Inr chunks)
    show ?thesis
      by (rule loop_movesI [OF node_step.encode [OF ClipEncode Inr]]) (simp_all add: ClipEncode Inr in_loop_less)
  qed
next
  case (ClipSending chunks)
  then show ?thesis by (rule sending_ends)
next
  case (ClipBroadcast frame t qs errs chunks)
  then show ?thesis by (rule broadcast_ends)
qed (use assms in simp)

lemma loop_down: "n_ctxDone s \<Longrightarrow> \<exists>s'. node_run D R s s' \<and> n_ctxDone s' \<and> n_loop s' = ClipEnded"
proof (induction s rule: wf_induct_rule [OF wf_loop_less [of D]])
  case (1 s)
  show ?case
  proof (cases "n_loop s = ClipEnded")
    case False
    then obtain s' where "node_step D R s s'" "n_ctxDone s'" "(s', s) \<in> loop_less D"
      using loop_ends [OF 1(2)] 1(2) by (auto simp: loop_moves_def)
    then show ?thesis using 1(1) by (meson converse_rtranclp_into_rtranclp)
  qed (use 1 in blast)
qed

text \<open>Then the peer log loop ends, the mesh is done, and \<open>waitCh\<close> is closed.\<close>

lemma ended_down:
  assumes "n_ctxDone s" and "mg_ctxDone (n_mgr s)" and "n_loop s = ClipEnded"
  shows "\<exists>s'. node_run D R s s' \<and> n_loop s' = ClipEnded \<and> \<not> n_logLoop s' \<and> rt_waitClosed (n_rt s')"
proof -
  let ?a = "if n_logLoop s then s\<lparr>n_logLoop := False\<rparr> else s"
  let ?b = "?a\<lparr>n_meshDone := True\<rparr>"
  let ?c = "if rt_waitClosed (n_rt ?b) then ?b else ?b\<lparr>n_rt := (n_rt ?b)\<lparr>rt_waitClosed := True\<rparr>\<rparr>"
  have a: "node_run D R s ?a" using node_step.log_end [of s D] assms(1) by auto
  have b: "node_run D R ?a ?b" using node_step.mesh_done [of ?a D] assms(2) by auto
  have c: "node_run D R ?b ?c" using node_step.stop [of ?b D] assms(1) by auto
  have "node_run D R s ?c" by (rule rtranclp_trans [OF rtranclp_trans [OF a b] c])
  moreover have "n_loop ?c = ClipEnded \<and> \<not> n_logLoop ?c \<and> rt_waitClosed (n_rt ?c)"
    using assms(3) by simp
  ultimately show ?thesis by blast
qed

lemma node_down:
  assumes "node_inv D s" and "n_ctxDone s"
  shows "\<exists>s'. node_run D R s s' \<and> n_loop s' = ClipEnded \<and> \<not> n_logLoop s' \<and> rt_waitClosed (n_rt s')"
proof -
  obtain t where t: "node_run D R s t" "n_ctxDone t" "n_loop t = ClipEnded"
    using loop_down assms(2) by blast
  have "mg_ctxDone (n_mgr t)"
    using node_run_inv [OF t(1) assms(1)] t(2) by (simp add: node_inv_def ended_inv_def)
  then show ?thesis using ended_down [OF t(2) _ t(3)] t(1) by (meson rtranclp_trans)
qed


section \<open>Whole calls are runs of steps\<close>

text \<open>\<open>handleFrame\<close> is the reassembly followed by the call of \<open>ApplyRemote\<close>.\<close>

lemma handleFrame_receive:
  "snd (handleFrame uc up ar from frame r) =
     (case receive_chunk uc up from frame r of
        (r, None) \<Rightarrow> r
      | (r, Some p) \<Rightarrow>
          (case ar (Some p) (rt_clipboard r) of
             (c, Some e) \<Rightarrow> log_line (ApplyFailed (peer_ID from) e) (r\<lparr>rt_clipboard := c\<rparr>)
           | (c, None) \<Rightarrow> log_line (Applied (peer_ID from) (GetType (Some p)) (GetSizeBytes (Some p)))
                             (r\<lparr>rt_clipboard := c\<rparr>)))"
  by (auto simp: handleFrame_def receive_chunk_def Let_def split: sum.split prod.split option.split)

text \<open>The mesh of the node after a whole \<open>Broadcast\<close>, the clipboard loop back at \<open>loop\<close>.\<close>

definition broadcast_done :: "Manager \<Rightarrow> clip_loop \<Rightarrow> 'os node \<Rightarrow> 'os node" where
  "broadcast_done m loop s = s\<lparr>n_mesh := (n_mesh s)\<lparr>ms_mgr := m\<rparr>, n_loop := loop\<rparr>"

lemma broadcast_done_sel [simp]:
  "n_mgr (broadcast_done m loop s) = m" "n_loop (broadcast_done m loop s) = loop"
  "n_ctxDone (broadcast_done m loop s) = n_ctxDone s"
  "broadcast_done m' loop' (broadcast_done m loop s) = broadcast_done m' loop' s"
  by (simp_all add: broadcast_done_def)

lemma broadcast_done_id: "n_loop s = loop \<Longrightarrow> broadcast_done (n_mgr s) loop s = s"
  by (simp add: broadcast_done_def)

text \<open>The turn of one peer: the look-up of its connection, then the enqueue.\<close>

lemma peer_run:
  assumes loop: "n_loop s = ClipBroadcast frame None (q # qs) errs chunks"
    and conn: "active_conn (n_mgr s) q = Some cid" and e: "e = None \<or> n_ctxDone s"
    and enq: "enqueue_to pick e cid frame (n_mgr s) = (m, r)"
  shows "node_run D R s (broadcast_done m
    (ClipBroadcast frame None qs (case r of None \<Rightarrow> errs | Some x \<Rightarrow> errs @ [(q, x)]) chunks) s)"
proof -
  let ?t = "s\<lparr>n_loop := ClipBroadcast frame (Some (q, cid)) qs errs chunks\<rparr>"
  have "node_step D R s ?t" using node_step.peer_conn [OF loop, of D] conn by simp
  moreover have "node_step D R ?t (broadcast_done m
      (ClipBroadcast frame None qs (case r of None \<Rightarrow> errs | Some x \<Rightarrow> errs @ [(q, x)]) chunks) s)"
    using node_step.enqueue [of ?t frame q cid qs errs chunks e pick m r D] e enq by (simp add: broadcast_done_def)
  ultimately show ?thesis by (meson r_into_rtranclp rtranclp.rtrancl_into_rtrancl)
qed

lemma no_peer_run:
  assumes loop: "n_loop s = ClipBroadcast frame None (q # qs) errs chunks"
    and conn: "active_conn (n_mgr s) q = None"
  shows "node_run D R s (broadcast_done (n_mgr s) (ClipBroadcast frame None qs errs chunks) s)"
  using node_step.peer_conn [OF loop, of D] conn by (simp add: broadcast_done_def r_into_rtranclp)

lemma broadcast_loop_node_run:
  "n_loop s = ClipBroadcast frame None qs errs chunks \<Longrightarrow> e = None \<or> n_ctxDone s \<Longrightarrow>
     node_run D R s (broadcast_done (fst (broadcast_loop pick e frame qs (n_mgr s) errs))
       (ClipBroadcast frame None [] (snd (broadcast_loop pick e frame qs (n_mgr s) errs)) chunks) s)"
proof (induction qs arbitrary: s errs)
  case Nil
  then show ?case using broadcast_done_id [of s] by simp
next
  case (Cons q qs)
  show ?case
  proof (cases "active_conn (n_mgr s) q")
    case None
    then have eq: "broadcast_loop pick e frame (q # qs) (n_mgr s) errs = broadcast_loop pick e frame qs (n_mgr s) errs"
      by (auto simp: active_conn_def split: option.split)
    show ?thesis
      using no_peer_run [OF Cons.prems(1) None, of D]
        Cons.IH [of "broadcast_done (n_mgr s) (ClipBroadcast frame None qs errs chunks) s" errs] Cons.prems(2)
      unfolding eq by (auto intro: rtranclp_trans)
  next
    case (Some cid)
    obtain m r where enq: "enqueue_to (pick q) e cid frame (n_mgr s) = (m, r)"
      by (cases "enqueue_to (pick q) e cid frame (n_mgr s)")
    define errs' where "errs' = (case r of None \<Rightarrow> errs | Some x \<Rightarrow> errs @ [(q, x)])"
    have eq: "broadcast_loop pick e frame (q # qs) (n_mgr s) errs = broadcast_loop pick e frame qs m errs'"
      using Some enq by (auto simp: active_conn_Some errs'_def split: option.split)
    show ?thesis
      using peer_run [OF Cons.prems(1) Some Cons.prems(2) enq, of D, folded errs'_def]
        Cons.IH [of "broadcast_done m (ClipBroadcast frame None qs errs' chunks) s" errs'] Cons.prems(2)
      unfolding eq by (auto intro: rtranclp_trans)
  qed
qed


text \<open>What the loop logs when \<open>broadcastPayload\<close> has returned.\<close>

definition report :: "string \<Rightarrow> runtime_error option \<Rightarrow> 'c Runtime \<Rightarrow> 'c Runtime" where
  "report canceled r rt =
     (case r of None \<Rightarrow> rt
      | Some e \<Rightarrow> if \<not> runtime_canceled canceled e then log_line (BroadcastFailed e) rt else rt)"

text \<open>The loop is back at its \<open>select\<close>, with this manager and this result reported.\<close>

definition returned :: "string \<Rightarrow> Manager \<Rightarrow> runtime_error option \<Rightarrow> 'os node \<Rightarrow> 'os node \<Rightarrow> bool" where
  "returned canceled m r s s' \<longleftrightarrow> n_loop s' = ClipSelect \<and> n_mgr s' = m
     \<and> n_rt s' = report canceled r (n_rt s) \<and> n_clip s' = n_clip s"

lemma returned_failed:
  "returned canceled (n_mgr s) (Some e) s (loop_failed canceled e s)"
  by (simp add: returned_def report_def) (simp add: loop_failed_def)

definition free_env :: "(nat \<Rightarrow> broadcast_env) \<Rightarrow> 'os node \<Rightarrow> bool" where
  "free_env env s \<longleftrightarrow> (\<forall>i. enumerates (fst (snd (env i))) (n_mgr s)
     \<and> (snd (snd (env i)) = None \<or> n_ctxDone s))"

lemma Broadcast_tables: "mg_peers (fst (Broadcast pick order e frame m)) = mg_peers m"
  by (simp add: Broadcast_def case_prod_unfold broadcast_loop_tables)

text \<open>One frame: from the head of the loop of \<open>broadcastPayload\<close> to the head or the \<open>select\<close>.\<close>

lemma frame_run:
  assumes loop: "n_loop s = ClipSending (chunk # chunks)" and mc: "nd_marshal_chunk D chunk = Inr frame"
    and env: "free_env env s" and b: "mesh_broadcast (env i) frame (n_mgr s) = (m, r)"
  shows "\<exists>s'. node_run D R s s' \<and> n_mgr s' = m \<and> n_clip s' = n_clip s \<and> n_ctxDone s' = n_ctxDone s
    \<and> (case r of None \<Rightarrow> n_loop s' = ClipSending chunks \<and> n_rt s' = n_rt s
        | Some e \<Rightarrow> returned (nd_canceled D) m (Some (ErrMesh e)) s s')"
proof -
  obtain pick order e where i: "env i = (pick, order, e)" by (cases "env i")
  then have e: "enumerates order (n_mgr s)" "e = None \<or> n_ctxDone s"
    using env unfolding free_env_def by (metis fst_conv snd_conv)+
  have b': "Broadcast pick order e frame (n_mgr s) = (m, r)" using b by (simp add: mesh_broadcast_def i)
  show ?thesis
  proof (cases "int (length frame) \<le> o_MaxFrameBytes (mg_opts (n_mgr s))")
    case False
    then have "m = n_mgr s" "r = Some ErrInvalidFrame" using b' by (simp_all add: Broadcast_def)
    then show ?thesis
      using node_step.too_big [OF loop mc] False returned_failed [of "nd_canceled D" s "ErrMesh ErrInvalidFrame"]
      by (intro exI [of _ "loop_failed (nd_canceled D) (ErrMesh ErrInvalidFrame) s"]) (simp add: r_into_rtranclp)
  next
    case True
    obtain errs where errs: "broadcast_loop pick e frame order (n_mgr s) [] = (m, errs)"
      "r = (if errs = [] then None else Some (ErrJoined errs))"
      using b' True by (auto simp: Broadcast_def split: prod.splits)
    let ?t = "s\<lparr>n_loop := ClipBroadcast frame None order [] chunks, n_batches := add_frame frame (n_batches s)\<rparr>"
    let ?u = "broadcast_done m (ClipBroadcast frame None [] errs chunks) ?t"
    have t: "node_step D R s ?t" by (rule node_step.broadcast [OF loop mc True e(1)])
    have u: "node_run D R ?t ?u"
      using broadcast_loop_node_run [of ?t frame order "[]" chunks e D R pick] e(2) errs(1) by simp
    have run: "node_run D R s ?u" using t u by (rule converse_rtranclp_into_rtranclp)
    have j: "node_step D R ?u (if errs = [] then ?u\<lparr>n_loop := ClipSending chunks\<rparr>
        else loop_failed (nd_canceled D) (ErrMesh (ErrJoined errs)) ?u)"
      by (rule node_step.joined) simp
    show ?thesis
      by (rule exI, rule conjI, rule rtranclp.rtrancl_into_rtrancl [OF run j])
        (auto simp: errs(2) broadcast_done_def returned_def report_def loop_failed_def)
  qed
qed

lemma chunks_run:
  "n_loop s = ClipSending chunks \<Longrightarrow> free_env env s \<Longrightarrow>
     broadcast_chunks (nd_marshal_chunk D) mesh_broadcast env i chunks (n_mgr s) = (m, r) \<Longrightarrow>
     \<exists>s'. node_run D R s s' \<and> returned (nd_canceled D) m r s s'"
proof (induction chunks arbitrary: s i)
  case Nil
  have "node_run D R s (s\<lparr>n_loop := ClipSelect\<rparr>)" using node_step.sent [OF Nil(1)] by blast
  then show ?case using Nil(3) by (intro exI conjI) (assumption, simp add: returned_def report_def)
next
  case (Cons chunk chunks)
  show ?case
  proof (cases "nd_marshal_chunk D chunk")
    case (Inl x)
    have "node_run D R s (loop_failed (nd_canceled D) (ErrMarshalChunk x) s)"
      using node_step.marshal_failed [OF Cons.prems(1) Inl] by blast
    then show ?thesis using Cons.prems(3) Inl returned_failed by auto
  next
    case (Inr frame)
    obtain m1 r1 where b: "mesh_broadcast (env i) frame (n_mgr s) = (m1, r1)"
      by (cases "mesh_broadcast (env i) frame (n_mgr s)")
    note f = frame_run [OF Cons.prems(1) Inr Cons.prems(2) b]
    show ?thesis
    proof (cases r1)
      case (Some e)
      then show ?thesis using f Cons.prems(3) Inr b by auto
    next
      case None
      then obtain t where t: "node_run D R s t" "n_mgr t = m1" "n_clip t = n_clip s"
          "n_ctxDone t = n_ctxDone s" "n_loop t = ClipSending chunks" "n_rt t = n_rt s" using f by auto
      have "mg_peers m1 = mg_peers (n_mgr s)"
        using b Broadcast_tables by (cases "env i") (metis fst_conv mesh_broadcast_def case_prod_conv)
      then have "free_env env t" using Cons.prems(2) t(2,4) by (simp add: free_env_def enumerates_def)
      moreover have "broadcast_chunks (nd_marshal_chunk D) mesh_broadcast env (Suc i) chunks (n_mgr t) = (m, r)"
        using Cons.prems(3) Inr b None t(2) by simp
      ultimately obtain s' where "node_run D R t s'" "returned (nd_canceled D) m r t s'"
        using Cons.IH [OF t(5)] by blast
      then show ?thesis using t(1,3,6) by (auto simp: returned_def intro: rtranclp_trans)
    qed
  qed
qed

text \<open>One payload: from the \<open>select\<close> back to it, as \<open>clipboard_event\<close> says.\<close>

lemma clipboard_event_run:
  assumes loop: "n_loop s = ClipSelect" and ev: "cl_events (n_clip s) = p # rest" and env: "free_env env s"
  shows "\<exists>s'. node_run D R s s' \<and> n_loop s' = ClipSelect \<and> n_clip s' = (n_clip s)\<lparr>cl_events := rest\<rparr>
    \<and> (n_rt s', n_mgr s') = clipboard_event (nd_canceled D)
        (broadcastPayload (nd_marshal D) (nd_marshal_chunk D) mesh_broadcast env) (Some p) (n_rt s, n_mgr s)"
proof -
  let ?r = "log_line (ClipboardEvent (GetType (Some p)) (GetSizeBytes (Some p))) (n_rt s)"
  let ?t = "s\<lparr>n_clip := (n_clip s)\<lparr>cl_events := rest\<rparr>, n_loop := ClipEncode p, n_rt := ?r,
      n_batches := n_batches s @ [(p, [])]\<rparr>"
  have t: "node_step D R s ?t" by (rule node_step.take [OF loop ev])
  obtain m r where b: "broadcastPayload (nd_marshal D) (nd_marshal_chunk D) mesh_broadcast env (Some p) (n_mgr s) = (m, r)"
    by (cases "broadcastPayload (nd_marshal D) (nd_marshal_chunk D) mesh_broadcast env (Some p) (n_mgr s)")
  have "\<exists>s'. node_run D R ?t s' \<and> returned (nd_canceled D) m r ?t s'"
  proof (cases "ChunkPayload (nd_marshal D) (Some p) DefaultChunkSize")
    case (Inl e)
    have "node_run D R ?t (loop_failed (nd_canceled D) (ErrWire e) ?t)"
      using node_step.encode_failed [OF _ Inl, of ?t] by (intro r_into_rtranclp) simp
    then show ?thesis using b Inl returned_failed [of "nd_canceled D" ?t "ErrWire e"] by (auto simp: broadcastPayload_def)
  next
    case (Inr chunks)
    let ?u = "?t\<lparr>n_loop := ClipSending chunks\<rparr>"
    have u: "node_step D R ?t ?u" by (rule node_step.encode [OF _ Inr]) simp
    have "free_env env ?u" using env by (simp add: free_env_def)
    then obtain s' where "node_run D R ?u s'" "returned (nd_canceled D) m r ?u s'"
      using chunks_run [of ?u chunks env D 0 m r] b Inr by (auto simp: broadcastPayload_def)
    then show ?thesis using u by (auto simp: returned_def intro: converse_rtranclp_into_rtranclp)
  qed
  then obtain s' where s': "node_run D R ?t s'" "returned (nd_canceled D) m r ?t s'" by blast
  have "clipboard_event (nd_canceled D)
      (broadcastPayload (nd_marshal D) (nd_marshal_chunk D) mesh_broadcast env) (Some p) (n_rt s, n_mgr s)
    = (report (nd_canceled D) r ?r, m)"
    using b by (simp add: clipboard_event_def report_def Let_def split: option.split)
  then show ?thesis
    using s' t by (intro exI [of _ s']) (auto simp: returned_def intro: converse_rtranclp_into_rtranclp)
qed


text \<open>A call of \<open>ApplyRemote\<close> from a pump, as \<open>ApplyRemote\<close> says.\<close>

definition applied_log :: "string \<Rightarrow> ClipboardPayload \<Rightarrow> clip_error option \<Rightarrow> 'c Runtime \<Rightarrow> 'c Runtime" where
  "applied_log from p result r =
     log_line (case result of
         None \<Rightarrow> Applied from (GetType (Some p)) (GetSizeBytes (Some p))
       | Some e \<Rightarrow> ApplyFailed from e) r"

lemma clip_swap: "c\<lparr>cl_os := a, cl_pending := b\<rparr> = c\<lparr>cl_pending := b, cl_os := a\<rparr>"
  by simp

lemma apply_write_run:
  assumes held: "n_completed s = xs @ (from, p) # ys" and "ValidatePayload (Some p) = None"
    and "normalizeWritePayload (cd_jpeg_decode (nd_clip D)) (cd_png_encode (nd_clip D)) (Some p) = Inr (f, b, d)"
    and w: "cd_write (nd_clip D) f d (cl_os (n_clip s)) = (w, os')"
  defines "l \<equiv> remember (cl_pending (n_clip s)) b (ComputeContentSHA256 d) (cl_now (n_clip s))"
  shows "node_run D R s (s\<lparr>n_completed := xs @ ys,
      n_clip := (n_clip s)\<lparr>cl_pending := case w of None \<Rightarrow> l | Some _ \<Rightarrow> forget l b (ComputeContentSHA256 d), cl_os := os'\<rparr>,
      n_rt := applied_log from p (map_option ErrWriteClipboard w) (n_rt s)\<rparr>)"
    (is "node_run D R s ?end")
proof -
  let ?t = "s\<lparr>n_completed := xs @ ys, n_calls := (from, p) # n_calls s,
      n_clip := (n_clip s)\<lparr>cl_pending := l, cl_applying := BeforeWrite f b d # cl_applying (n_clip s)\<rparr>\<rparr>"
  have t: "node_step D R s ?t" unfolding l_def by (rule node_step.apply_begin [OF assms(1-3)])
  show ?thesis
  proof (cases w)
    case None
    have "node_step D R ?t ?end"
      using node_step.apply_written [of ?t "[]" f b d "cl_applying (n_clip s)" "[]" "from" p "n_calls s" D os'] w None
      by (simp add: applied_log_def)
    then show ?thesis using t by (meson r_into_rtranclp rtranclp.rtrancl_into_rtrancl)
  next
    case (Some x)
    let ?u = "?t\<lparr>n_clip := (n_clip ?t)\<lparr>cl_os := os', cl_applying := WriteFailed b d # cl_applying (n_clip s)\<rparr>\<rparr>"
    have u: "node_step D R ?t ?u"
      using node_step.apply_failed [of ?t "[]" f b d "cl_applying (n_clip s)" D x os'] w Some by simp
    have "node_step D R ?u ?end"
      using node_step.apply_forget [of ?u "[]" b d "cl_applying (n_clip s)" "[]" "from" p "n_calls s" D R x]
      by (simp add: Some applied_log_def clip_swap)
    then show ?thesis using t u by (meson r_into_rtranclp rtranclp.rtrancl_into_rtrancl)
  qed
qed

lemma apply_run:
  assumes held: "n_completed s = xs @ (from, p) # ys"
    and ar: "ApplyRemote (cd_jpeg_decode (nd_clip D)) (cd_png_encode (nd_clip D)) (cd_write (nd_clip D)) ctx_err
      (cl_now (n_clip s)) (cl_pending (n_clip s)) (cl_os (n_clip s)) (Some p) = (l', os', result)"
  shows "node_run D R s (s\<lparr>n_completed := xs @ ys,
      n_clip := (n_clip s)\<lparr>cl_pending := l', cl_os := os'\<rparr>, n_rt := applied_log from p result (n_rt s)\<rparr>)"
    (is "node_run D R s ?end")
proof (cases "ctx_err \<noteq> None \<or> ValidatePayload (Some p) \<noteq> None
    \<or> (\<exists>e. normalizeWritePayload (cd_jpeg_decode (nd_clip D)) (cd_png_encode (nd_clip D)) (Some p) = Inl e)")
  case True
  then obtain e where e: "(\<exists>x. e = CtxErr x) \<or> (\<exists>x. ValidatePayload (Some p) = Some x \<and> e = WireErr x)
      \<or> normalizeWritePayload (cd_jpeg_decode (nd_clip D)) (cd_png_encode (nd_clip D)) (Some p) = Inl e"
    and r: "l' = cl_pending (n_clip s)" "os' = cl_os (n_clip s)" "result = Some e"
    using ar by (auto simp: ApplyRemote_def split: option.splits sum.splits)
  have "?end = s\<lparr>n_completed := xs @ ys, n_rt := log_line (ApplyFailed from e) (n_rt s)\<rparr>"
    by (simp add: r applied_log_def)
  then show ?thesis using node_step.apply_refused [OF held e] by (simp add: r_into_rtranclp)
next
  case False
  then obtain f b d where n: "ctx_err = None" "ValidatePayload (Some p) = None"
      "normalizeWritePayload (cd_jpeg_decode (nd_clip D)) (cd_png_encode (nd_clip D)) (Some p) = Inr (f, b, d)"
    by (cases "normalizeWritePayload (cd_jpeg_decode (nd_clip D)) (cd_png_encode (nd_clip D)) (Some p)") auto
  obtain w where w: "cd_write (nd_clip D) f d (cl_os (n_clip s)) = (w, os')"
    using ar n by (auto simp: ApplyRemote_def Let_def split: prod.splits option.splits)
  have "l' = (case w of None \<Rightarrow> remember (cl_pending (n_clip s)) b (ComputeContentSHA256 d) (cl_now (n_clip s))
      | Some _ \<Rightarrow> forget (remember (cl_pending (n_clip s)) b (ComputeContentSHA256 d) (cl_now (n_clip s)))
          b (ComputeContentSHA256 d))" "result = map_option ErrWriteClipboard w"
    using ar n w by (auto simp: ApplyRemote_def Let_def split: option.splits)
  then show ?thesis using apply_write_run [OF held n(2,3) w] by simp
qed

end
