(* ===== verification/Network.thy ===== *)
theory Network
  imports NodeRuns
begin

text \<open>
  Several nodes and the connections between them. Each node is the one of \<open>NodeSystem\<close>, with its
  own dependencies; its goroutines take their own steps. A frame that a write pump takes from the
  send queue of a connection travels to the node the connection leads to, in order, as in a TCP
  stream; there the read pump of a connection to the sender hands it to \<open>handleFrame\<close>. A stream
  may break at any point: what is in flight is lost from there on. Both ends of a connection
  announce their node identifier when it is opened and check the other's
  (\<open>handleWebSocket\<close>, \<open>dialPeer\<close>), so a connection to \<open>peerID\<close> leads to a node of this identifier:
  here that is a premise of the steps that write and deliver a frame, not derived from the handshake.
\<close>

section \<open>State\<close>

text \<open>
  The nodes are indexed by \<^typ>\<open>'i\<close>; two of them may have the same identifier. \<open>nw_wire\<close> holds the
  frames in flight, for each connection of a node (by the number it has there) and each
  node it leads to.
\<close>

record ('i, 'os) network =
  nw_node :: "'i \<Rightarrow> 'os node"
  nw_wire :: "'i \<times> nat \<times> 'i \<Rightarrow> bytes list"

definition node_id :: "('i, 'os) network \<Rightarrow> 'i \<Rightarrow> string" where
  "node_id N i = mg_nodeID (n_mgr (nw_node N i))"

definition set_node :: "'i \<Rightarrow> 'os node \<Rightarrow> ('i, 'os) network \<Rightarrow> ('i, 'os) network" where
  "set_node i s N = N\<lparr>nw_node := (nw_node N)(i := s)\<rparr>"

definition set_wire :: "'i \<times> nat \<times> 'i \<Rightarrow> bytes list \<Rightarrow> ('i, 'os) network \<Rightarrow> ('i, 'os) network" where
  "set_wire l fs N = N\<lparr>nw_wire := (nw_wire N)(l := fs)\<rparr>"

text \<open>The nodes started, nothing in flight.\<close>

definition started_network ::
    "('i \<Rightarrow> int) \<Rightarrow> ('i \<Rightarrow> time) \<Rightarrow> ('i \<Rightarrow> 'os) \<Rightarrow> ('i \<Rightarrow> Manager) \<Rightarrow> ('i, 'os) network" where
  "started_network eventBuffer now os m =
     \<lparr>nw_node = (\<lambda>i. started_node (eventBuffer i) (now i) (os i) (m i)), nw_wire = (\<lambda>_. [])\<rparr>"

section \<open>Steps\<close>

text \<open>What the write pump of a connection and \<open>handleFrame\<close> do to the state of their node.\<close>

definition wrote :: "nat \<Rightarrow> managedConn \<Rightarrow> 'os node \<Rightarrow> 'os node" where
  "wrote cid c s = s\<lparr>n_mesh := (n_mesh s)\<lparr>ms_mgr := set_conn cid c (n_mgr s)\<rparr>\<rparr>"

definition received ::
    "('img, 'os) node_deps \<Rightarrow> Peer \<Rightarrow> bytes \<Rightarrow> 'os node \<Rightarrow> 'os node" where
  "received D from frame s =
     (case receive_chunk (nd_unmarshal_chunk D) (nd_unmarshal D) from frame (n_rt s) of
        (r, result) \<Rightarrow>
          s\<lparr>n_rt := r,
            n_completed := (case result of None \<Rightarrow> n_completed s
                            | Some p \<Rightarrow> (peer_ID from, p) # n_completed s)\<rparr>)"

text \<open>No frame arrives by a step of one node alone.\<close>

abbreviation no_frame :: "Peer \<Rightarrow> bytes \<Rightarrow> bool" where
  "no_frame from frame \<equiv> False"

inductive net_step ::
    "('i \<Rightarrow> ('img, 'os) node_deps) \<Rightarrow> ('i, 'os) network \<Rightarrow> ('i, 'os) network \<Rightarrow> bool"
  for D :: "'i \<Rightarrow> ('img, 'os) node_deps" where
  local_step: "node_step (D i) no_frame (nw_node N i) s \<Longrightarrow> net_step D N (set_node i s N)"
| written: "fmlookup (mg_conns (n_mgr (nw_node N i))) cid = Some c \<Longrightarrow> mc_started c \<Longrightarrow>
    writePump_frame c = Some (frame, c') \<Longrightarrow> mc_peerID c = node_id N j \<Longrightarrow>
    net_step D N (set_wire (i, cid, j) (nw_wire N (i, cid, j) @ [frame])
      (set_node i (wrote cid c' (nw_node N i)) N))"
| deliver: "nw_wire N (i, cid, j) = frame # rest \<Longrightarrow>
    fmlookup (mg_conns (n_mgr (nw_node N j))) cid' = Some c \<Longrightarrow> mc_started c \<Longrightarrow>
    mc_peerID c = node_id N i \<Longrightarrow> peer_ID from = mc_peerID c \<Longrightarrow>
    int (length frame) \<le> o_MaxFrameBytes (mg_opts (n_mgr (nw_node N j))) \<Longrightarrow>
    net_step D N (set_wire (i, cid, j) rest (set_node j (received (D j) from frame (nw_node N j)) N))"
| lost: "net_step D N (set_wire l (take k (nw_wire N l)) N)"

abbreviation net_run ::
    "('i \<Rightarrow> ('img, 'os) node_deps) \<Rightarrow> ('i, 'os) network \<Rightarrow> ('i, 'os) network \<Rightarrow> bool" where
  "net_run D \<equiv> (net_step D)\<^sup>*\<^sup>*"

lemma set_node_sel [simp]:
  "nw_node (set_node i s N) k = (if k = i then s else nw_node N k)" "nw_wire (set_node i s N) = nw_wire N"
  by (simp_all add: set_node_def)

lemma set_wire_sel [simp]:
  "nw_node (set_wire l fs N) = nw_node N" "nw_wire (set_wire l fs N) k = (if k = l then fs else nw_wire N k)"
  "node_id (set_wire l fs N) = node_id N"
  by (simp_all add: set_wire_def node_id_def fun_eq_iff)

lemma node_id_set [simp]: "node_id (set_node i s N) k = (if k = i then mg_nodeID (n_mgr s) else node_id N k)"
  by (simp add: node_id_def)

lemma wrote_sel [simp]:
  "n_mgr (wrote cid c s) = set_conn cid c (n_mgr s)" "n_clip (wrote cid c s) = n_clip s"
  "n_rt (wrote cid c s) = n_rt s" "n_loop (wrote cid c s) = n_loop s"
  "n_completed (wrote cid c s) = n_completed s" "n_calls (wrote cid c s) = n_calls s"
  "n_batches (wrote cid c s) = n_batches s" "n_ctxDone (wrote cid c s) = n_ctxDone s"
  by (simp_all add: wrote_def)

lemma received_sel [simp]:
  "n_mesh (received D from frame s) = n_mesh s" "n_clip (received D from frame s) = n_clip s"
  "n_loop (received D from frame s) = n_loop s" "n_calls (received D from frame s) = n_calls s"
  "n_batches (received D from frame s) = n_batches s" "n_ctxDone (received D from frame s) = n_ctxDone s"
  by (simp_all add: received_def split: prod.split)

section \<open>Each node takes its own steps\<close>

text \<open>
  A node in the network does what a node among arbitrary peers does. So every property of
  \<open>node_step\<close> with \<open>any_frame\<close> holds of every node of a network.
\<close>

lemma wrote_step:
  assumes "fmlookup (mg_conns (n_mgr s)) cid = Some c" and "mc_started c" and "writePump_frame c = Some (frame, c')"
  shows "node_step D R s (wrote cid c' s)"
proof -
  have "set (mc_sendQ c') \<subseteq> queued (n_mgr s)"
    using assms(3) queued_conn [OF assms(1)] by (auto simp: writePump_frame_def split: list.splits)
  then show ?thesis
    using node_step.mesh [OF mesh_step.write_frame [OF assms], of D R] queued_set_conn
    by (simp add: wrote_def)
qed

lemma received_step_node: "R from frame \<Longrightarrow> node_step D R s (received D from frame s)"
  using node_step.frame [of R "from" frame D s]
  by (cases "receive_chunk (nd_unmarshal_chunk D) (nd_unmarshal D) from frame (n_rt s)")
    (simp add: received_def)

lemma node_step_mono:
  "node_step D R s s' \<Longrightarrow> (\<And>from frame. R from frame \<Longrightarrow> R' from frame) \<Longrightarrow> node_step D R' s s'"
  by (induction rule: node_step.induct) (rule node_step.intros; (assumption | blast))+

lemma net_step_node:
  "net_step D N N' \<Longrightarrow> (node_step (D k) any_frame)\<^sup>=\<^sup>= (nw_node N k) (nw_node N' k)"
proof (induction rule: net_step.induct)
  case (local_step i N s)
  then show ?case using node_step_mono [of "D i" no_frame "nw_node N i" s any_frame] by auto
next
  case (written N i cid c frame c' j)
  then show ?case using wrote_step by fastforce
next
  case (deliver N i cid j frame rest cid' c "from")
  then show ?case using received_step_node [of any_frame "from" frame "D j" "nw_node N j"] by auto
qed simp

lemma net_run_node:
  assumes "net_run D N N'"
  shows "node_run (D k) any_frame (nw_node N k) (nw_node N' k)"
  using assms
proof (induction rule: rtranclp_induct)
  case (step N1 N2)
  show ?case using net_step_node [OF step.hyps(2), of k] step.IH by (auto intro: rtranclp.rtrancl_into_rtrancl)
qed simp

section \<open>The invariant of the network\<close>

definition sent_frames :: "'os node \<Rightarrow> bytes set" where
  "sent_frames s = (\<Union>(p, fs) \<in> set (n_batches s). set fs)"

text \<open>The payloads a node has received and not yet finished applying, with the peers they came from.\<close>

definition held :: "'os node \<Rightarrow> (string \<times> ClipboardPayload) set" where
  "held s = set (n_completed s) \<union> set (n_calls s)"

text \<open>Some node of this identifier has put a payload of the same digest on its \<open>Events()\<close>.\<close>

definition origin :: "('i, 'os) network \<Rightarrow> string \<Rightarrow> ClipboardPayload \<Rightarrow> bool" where
  "origin N src p \<longleftrightarrow> (\<exists>i q. node_id N i = src \<and> q \<in> set (n_emitted (nw_node N i)) \<and> cp_Sha256 q = cp_Sha256 p)"

definition net_inv :: "('i \<Rightarrow> ('img, 'os) node_deps) \<Rightarrow> ('i, 'os) network \<Rightarrow> bool" where
  "net_inv D N \<longleftrightarrow>
     (\<forall>i. node_inv (D i) (nw_node N i))
     \<and> (\<forall>i cid j. set (nw_wire N (i, cid, j)) \<subseteq> sent_frames (nw_node N i))
     \<and> (\<forall>j src p. (src, p) \<in> held (nw_node N j) \<longrightarrow> origin N src p)"

lemma net_invD:
  assumes "net_inv D N"
  shows "node_inv (D i) (nw_node N i)" and "set (nw_wire N (i, cid, j)) \<subseteq> sent_frames (nw_node N i)"
    and "(src, p) \<in> held (nw_node N j) \<Longrightarrow> origin N src p"
    and "queued (n_mgr (nw_node N i)) \<subseteq> sent_frames (nw_node N i)" and "sent_inv (D i) (nw_node N i)"
proof -
  show "node_inv (D i) (nw_node N i)" "set (nw_wire N (i, cid, j)) \<subseteq> sent_frames (nw_node N i)"
    "(src, p) \<in> held (nw_node N j) \<Longrightarrow> origin N src p"
    using assms unfolding net_inv_def by blast+
  then show "sent_inv (D i) (nw_node N i)" "queued (n_mgr (nw_node N i)) \<subseteq> sent_frames (nw_node N i)"
    by (simp_all add: node_inv_def sent_inv_def sent_frames_def)
qed

text \<open>History only grows, and a node that gets no frame holds nothing new.\<close>

lemma node_step_history:
  assumes "node_step D R s s'" and "sent_inv D s"
  shows "sent_frames s \<subseteq> sent_frames s' \<and> set (n_emitted s) \<subseteq> set (n_emitted s')"
  using assms(1)
proof cases
  case (broadcast chunk chunks frame order)
  then have "n_batches s \<noteq> []" using assms(2) by (simp add: sent_inv_def last_sent_def)
  then show ?thesis using broadcast(1) add_frame_parts(5) by (simp add: sent_frames_def)
qed (auto simp: sent_frames_def)

lemma node_step_held: "node_step D no_frame s s' \<Longrightarrow> held s' \<subseteq> held s"
proof (induction rule: node_step.induct)
  case (apply_refused s xs "from" p ys e)
  show ?case using apply_refused(1) unfolding held_def by auto
next
  case (apply_begin s xs "from" p ys f b d)
  show ?case using apply_begin(1) unfolding held_def by auto
next
  case (apply_written s xs f b d ys us "from" p vs os')
  show ?case using apply_written(2) unfolding held_def by auto
next
  case (apply_forget s xs b d ys us "from" p vs e)
  show ?case using apply_forget(2) unfolding held_def by auto
qed (simp_all add: held_def)

text \<open>What a node has sent, decoded by another: a chunk of a payload it has taken from \<open>Events()\<close>.\<close>

lemma marshalled_chunk: "frame \<in> set (marshalled mc chunks) \<Longrightarrow> \<exists>c \<in> set chunks. mc c = Inr frame"
  by (induction chunks) (auto split: sum.splits)

lemma chunk_ids:
  assumes "payload_codec marshal up" and "ChunkPayload marshal (Some q) DefaultChunkSize = Inr chunks"
    and "c \<in> set chunks"
  shows "pc_TransferId c = cp_Sha256 q"
proof -
  have "ChunkPayload marshal (Some q) (int 1048576) = Inr chunks" using assms(2) by (simp add: DefaultChunkSize_def)
  then obtain s where "chunks = chunks_of (cp_Sha256 q) s 1048576"
    using ChunkPayload_ok [OF assms(1), of 1048576 q chunks] by auto
  then show ?thesis using assms(3) by (auto simp: chunks_of_def)
qed

lemma sent_frame_origin:
  assumes inv: "sent_inv D s" and frame: "frame \<in> sent_frames s"
    and codec: "payload_codec (nd_marshal D) up" "chunk_codec (nd_marshal_chunk D) uc"
    and chunk: "uc frame = Inr chunk"
  shows "\<exists>q \<in> set (n_emitted s). cp_Sha256 q = pc_TransferId chunk"
proof -
  obtain q fs where q: "(q, fs) \<in> set (n_batches s)" "frame \<in> set fs"
    using frame by (auto simp: sent_frames_def)
  then have "prefix fs (payload_frames D q)" using inv by (auto simp: sent_inv_def)
  then have "frame \<in> set (payload_frames D q)" using q(2) set_mono_prefix by blast
  then obtain chunks where chunks: "ChunkPayload (nd_marshal D) (Some q) DefaultChunkSize = Inr chunks"
      "frame \<in> set (marshalled (nd_marshal_chunk D) chunks)"
    by (cases "ChunkPayload (nd_marshal D) (Some q) DefaultChunkSize") (auto simp: payload_frames_def)
  then obtain c where c: "c \<in> set chunks" "nd_marshal_chunk D c = Inr frame" using marshalled_chunk by blast
  then have "uc frame = Inr c" using codec(2) by (simp add: chunk_codec_def)
  then have "pc_TransferId chunk = cp_Sha256 q" using chunk chunk_ids [OF codec(1) chunks(1) c(1)] by simp
  moreover have "q \<in> set (n_emitted s)" using inv q(1) by (force simp: sent_inv_def)
  ultimately show ?thesis by metis
qed

lemma received_held:
  assumes inv: "node_inv D s" and x: "x \<in> held (received D from frame s)"
  shows "x \<in> held s \<or> (\<exists>p chunk. x = (peer_ID from, p) \<and> nd_unmarshal_chunk D frame = Inr chunk
    \<and> cp_Sha256 p = pc_TransferId chunk)"
proof (cases "receive_chunk (nd_unmarshal_chunk D) (nd_unmarshal D) from frame (n_rt s)")
  case (Pair r result)
  show ?thesis
  proof (cases result)
    case None
    then show ?thesis using x Pair by (simp add: received_def held_def)
  next
    case (Some p)
    then obtain chunk where c: "nd_unmarshal_chunk D frame = Inr chunk"
        "snd (Add (nd_unmarshal D) (rt_reassembler (n_rt s)) (Some chunk)) = Inr (Some p)"
      using Pair by (auto simp: receive_chunk_def Let_def split: sum.splits prod.splits)
    have "reassembler_inv (rt_reassembler (n_rt s))" using inv by (simp add: node_inv_def received_inv_def)
    then have "cp_Sha256 p = pc_TransferId chunk" using Add_emits [OF _ c(2)] by blast
    then show ?thesis using x Pair Some c(1) by (auto simp: received_def held_def)
  qed
qed

text \<open>What one node does to the whole: its history and its identifier stay, so every origin does.\<close>

lemma origin_set_node:
  assumes "origin N src p" and "set (n_emitted (nw_node N i)) \<subseteq> set (n_emitted s)"
    and "mg_nodeID (n_mgr s) = node_id N i"
  shows "origin (set_node i s N) src p"
proof -
  obtain k q where "node_id N k = src" "q \<in> set (n_emitted (nw_node N k))" "cp_Sha256 q = cp_Sha256 p"
    using assms(1) by (auto simp: origin_def)
  then show ?thesis using assms(2,3) by (auto simp: origin_def intro!: exI [of _ k] exI [of _ q])
qed

lemma origin_set_wire [simp]: "origin (set_wire l fs N) = origin N"
  by (simp add: origin_def fun_eq_iff)

lemma net_inv_node:
  assumes inv: "net_inv D N" and step: "node_step (D i) R (nw_node N i) s"
    and held: "\<And>src p. (src, p) \<in> held s \<Longrightarrow> (src, p) \<in> held (nw_node N i) \<or> origin N src p"
  shows "net_inv D (set_node i s N)"
proof -
  note i = net_invD(1) [OF inv, of i] and hist = node_step_history [OF step net_invD(5) [OF inv]]
  have keep: "origin N src p \<Longrightarrow> origin (set_node i s N) src p" for src p
    using origin_set_node hist node_step_id [OF step i] by (auto simp: node_id_def)
  have "node_inv (D k) (nw_node (set_node i s N) k)" for k
    using net_invD(1) [OF inv] node_step_inv [OF step i] by simp
  moreover have "set (nw_wire (set_node i s N) (k, cid, j)) \<subseteq> sent_frames (nw_node (set_node i s N) k)" for k cid j
    using net_invD(2) [OF inv, of k cid j] hist by auto
  moreover have "origin (set_node i s N) src p" if "(src, p) \<in> held (nw_node (set_node i s N) j)" for j src p
  proof -
    have "origin N src p" using that net_invD(3) [OF inv, of src p] held [of src p] by (cases "j = i") auto
    then show ?thesis by (rule keep)
  qed
  ultimately show ?thesis by (simp add: net_inv_def)
qed

lemma net_inv_wire:
  "net_inv D N \<Longrightarrow> set fs \<subseteq> sent_frames (nw_node N (fst l)) \<Longrightarrow> net_inv D (set_wire l fs N)"
  by (cases l) (auto simp: net_inv_def)

text \<open>What the network relies on: any node can decode what any other encodes.\<close>

definition net_codec :: "('i \<Rightarrow> ('img, 'os) node_deps) \<Rightarrow> bool" where
  "net_codec D \<longleftrightarrow> (\<forall>i j. payload_codec (nd_marshal (D i)) (nd_unmarshal (D j))
     \<and> chunk_codec (nd_marshal_chunk (D i)) (nd_unmarshal_chunk (D j)))"

lemma net_step_inv:
  assumes "net_step D N N'" and inv: "net_inv D N" and codec: "net_codec D"
  shows "net_inv D N'"
  using assms(1)
proof cases
  case (local_step i s)
  then show ?thesis using net_inv_node [OF inv local_step(2)] node_step_held [OF local_step(2)] by blast
next
  case (written i cid c frame c' j)
  have "frame \<in> queued (n_mgr (nw_node N i))"
    using written(4) queued_conn [OF written(2)] by (auto simp: writePump_frame_def split: list.splits)
  then have "set (nw_wire N (i, cid, j) @ [frame]) \<subseteq> sent_frames (nw_node N i)"
    using net_invD(2) [OF inv, of i cid j] net_invD(4) [OF inv, of i] by auto
  moreover have "sent_frames (wrote cid c' (nw_node N i)) = sent_frames (nw_node N i)" by (simp add: sent_frames_def)
  moreover have "net_inv D (set_node i (wrote cid c' (nw_node N i)) N)"
    by (rule net_inv_node [OF inv wrote_step [OF written(2-4)]]) (simp add: held_def)
  ultimately show ?thesis unfolding written(1) by (intro net_inv_wire) simp_all
next
  case (deliver i cid j frame rest cid' c "from")
  have sent: "set (frame # rest) \<subseteq> sent_frames (nw_node N i)" using net_invD(2) [OF inv] deliver(2) by metis
  have orig: "origin N (peer_ID from) p"
    if chunk: "nd_unmarshal_chunk (D j) frame = Inr chunk" "cp_Sha256 p = pc_TransferId chunk" for p chunk
  proof -
    have codecs: "payload_codec (nd_marshal (D i)) (nd_unmarshal (D j))"
      "chunk_codec (nd_marshal_chunk (D i)) (nd_unmarshal_chunk (D j))"
      using codec by (simp_all add: net_codec_def)
    have "frame \<in> sent_frames (nw_node N i)" using sent by simp
    from sent_frame_origin [OF net_invD(5) [OF inv] this codecs chunk(1)]
    obtain q where "q \<in> set (n_emitted (nw_node N i))" "cp_Sha256 q = pc_TransferId chunk" by blast
    then show ?thesis using deliver(5,6) chunk(2) by (auto simp: origin_def)
  qed
  have "net_inv D (set_node j (received (D j) from frame (nw_node N j)) N)"
  proof (rule net_inv_node [OF inv received_step_node [of any_frame]])
    fix src p
    assume "(src, p) \<in> held (received (D j) from frame (nw_node N j))"
    then show "(src, p) \<in> held (nw_node N j) \<or> origin N src p"
      using received_held [OF net_invD(1) [OF inv]] orig by (metis prod.inject)
  qed simp
  then show ?thesis
    unfolding deliver(1) using sent by (intro net_inv_wire) (auto simp: sent_frames_def)
next
  case (lost l k)
  have "set (take k (nw_wire N l)) \<subseteq> sent_frames (nw_node N (fst l))"
    using net_invD(2) [OF inv] set_take_subset [of k "nw_wire N l"] by (cases l) fastforce
  then show ?thesis unfolding lost using net_inv_wire [OF inv] by blast
qed

lemma net_run_inv: "net_run D N N' \<Longrightarrow> net_inv D N \<Longrightarrow> net_codec D \<Longrightarrow> net_inv D N'"
  by (induction rule: rtranclp_induct) (auto intro: net_step_inv)

text \<open>The start of a network: every node has the manager \<open>NewManager\<close> returned for it.\<close>

definition new_managers :: "('i \<Rightarrow> Manager) \<Rightarrow> bool" where
  "new_managers m \<longleftrightarrow> (\<forall>i. \<exists>raw hostname opts.
     NewManager raw hostname opts False = Inr (m i) \<and> o_ReconnectMaxBackoff opts < 2 ^ 62)"

lemma started_network_inv: "new_managers m \<Longrightarrow> net_inv D (started_network eventBuffer now os m)"
  using started_node_inv
  by (fastforce simp: net_inv_def started_network_def new_managers_def held_def started_node_def Let_def)

text \<open>What a node holds or has emitted is valid.\<close>

lemma held_valid:
  assumes "node_inv D s" and "(src, p) \<in> held s"
  shows "valid_payload p"
proof (cases "(src, p) \<in> set (n_completed s)")
  case True
  then show ?thesis using assms(1) by (auto simp: node_inv_def received_inv_def)
next
  case False
  then have "(src, p) \<in> set (n_calls s)" using assms(2) by (simp add: held_def)
  moreover have "list_all2 (call_ok D) (n_calls s) (cl_applying (n_clip s))"
    using assms(1) by (simp add: node_inv_def received_inv_def)
  ultimately obtain a where "call_ok D (src, p) a" by (metis list_all2_conv_all_nth in_set_conv_nth)
  then show ?thesis by (cases a) auto
qed

lemma emitted_valid:
  assumes "node_inv D s" and "p \<in> set (n_emitted s)"
  shows "valid_payload p"
proof -
  have "p \<in> fst ` set (n_batches s) \<or> p \<in> set (cl_events (n_clip s))"
    using assms by (auto simp: node_inv_def sent_inv_def)
  moreover have "\<forall>(p, fs) \<in> set (n_batches s). valid_payload p" using assms(1) by (auto simp: node_inv_def sent_inv_def)
  moreover have "\<forall>p \<in> set (cl_events (n_clip s)). valid_payload p" using assms(1) by (auto simp: node_inv_def clip_inv_def)
  ultimately show ?thesis by auto
qed

end
