(* ===== verification/NetworkRuns.thy ===== *)
theory NetworkRuns
  imports Network
begin

text \<open>
  Runs of the network: a payload that waits on one node's \<open>Events()\<close> is broadcast, its frames are
  written, travel, are read and reassembled on another node, and applied there. Each part is the
  run of one goroutine; together they are a run of the network.
\<close>

section \<open>Runs of one node\<close>

lemma set_node_same [simp]: "set_node i (nw_node N i) N = N"
  by (simp add: set_node_def)

lemma set_node_twice [simp]: "set_node i s' (set_node i s N) = set_node i s' N"
  by (simp add: set_node_def)

lemma local_run: "node_run (D i) no_frame (nw_node N i) s \<Longrightarrow> net_run D N (set_node i s N)"
proof (induction rule: rtranclp_induct)
  case (step s s')
  have "net_step D (set_node i s N) (set_node i s' N)"
    using net_step.local_step [of D i "set_node i s N" s'] step.hyps(2) by simp
  then show ?case using step.IH by (rule rtranclp.rtrancl_into_rtrancl [rotated])
qed simp

section \<open>Broadcasting with room in the queues\<close>

text \<open>Every active connection is open and has room for \<open>k\<close> more frames.\<close>

definition room :: "nat \<Rightarrow> Manager \<Rightarrow> bool" where
  "room k m \<longleftrightarrow> (\<forall>p cid c. active_conn m p = Some cid \<longrightarrow> fmlookup (mg_conns m) cid = Some c \<longrightarrow>
     \<not> mc_cancelled c \<and> length (mc_sendQ c) + k \<le> mc_sendCap c)"

lemma roomD:
  "room k m \<Longrightarrow> active_conn m p = Some cid \<Longrightarrow> fmlookup (mg_conns m) cid = Some c \<Longrightarrow>
     \<not> mc_cancelled c \<and> length (mc_sendQ c) + k \<le> mc_sendCap c"
  unfolding room_def by blast

lemma active_lookup:
  assumes "mesh_inv m" and "active_conn m p = Some cid"
  obtains c where "fmlookup (mg_conns m) cid = Some c" "mc_peerID c = p" "mc_started c"
  using assms mesh_invD(3) [OF assms(1)] unfolding active_conn_Some by blast

lemma send_room:
  assumes "mesh_inv m" and "room (Suc k) m"
  shows "send_result pick None frame m p = None"
proof (cases "active_conn m p")
  case (Some cid)
  obtain c where c: "fmlookup (mg_conns m) cid = Some c" using active_lookup [OF assms(1) Some] .
  then have "\<not> mc_cancelled c" "length (mc_sendQ c) < mc_sendCap c" using roomD [OF assms(2) Some] by auto
  then show ?thesis using Some c by (simp add: send_result_def enqueue_open)
qed (simp add: send_result_def)

lemma mesh_broadcast_room:
  assumes inv: "mesh_inv m" and ord: "enumerates order m" and room: "room (Suc k) m"
    and fits: "int (length frame) \<le> o_MaxFrameBytes (mg_opts m)"
  shows "\<exists>m'. mesh_broadcast (pick, order, None) frame m = (m', None) \<and> mesh_inv m' \<and> room k m'
    \<and> mg_opts m' = mg_opts m \<and> mg_peers m' = mg_peers m"
proof -
  let ?m = "fst (Broadcast pick order None frame m)"
  note result = Broadcast_result [where pick = pick and order = order and e = None and frame = frame, OF inv _ _ fits]
  have ok: "Broadcast pick order None frame m = (?m, None)"
    using result(1) send_room [OF inv room] ord by (simp add: enumerates_def prod_eq_iff)
  have peers: "mg_peers ?m = mg_peers m" by (rule Broadcast_tables)
  have "\<not> mc_cancelled c' \<and> length (mc_sendQ c') + k \<le> mc_sendCap c'"
    if a: "active_conn ?m p = Some cid" and c': "fmlookup (mg_conns ?m) cid = Some c'" for p cid c'
  proof -
    have a': "active_conn m p = Some cid" using a by (simp add: active_conn_def peers)
    obtain c where c: "fmlookup (mg_conns m) cid = Some c" using active_lookup [OF inv a'] .
    have "c' = c\<lparr>mc_sendQ := mc_sendQ c @ [frame]\<rparr>"
      using result(2) [OF _ _ a' c] send_room [OF inv room] ord c' by (simp add: enumerates_def)
    then show ?thesis using roomD [OF room a' c] by simp
  qed
  then have "room k ?m" unfolding room_def by blast
  moreover have "mg_opts ?m = mg_opts m" using fits by (simp add: Broadcast_def case_prod_unfold broadcast_loop_tables)
  moreover have "mesh_inv ?m" by (rule Broadcast_inv [OF inv])
  ultimately show ?thesis using ok peers by (intro exI [of _ ?m]) (simp add: mesh_broadcast_def)
qed

lemma broadcast_chunks_room:
  assumes "mesh_inv m" and "enumerates order m" and "room (length chunks) m" and "map mc chunks = map Inr frames"
    and "\<And>frame. frame \<in> set frames \<Longrightarrow> int (length frame) \<le> o_MaxFrameBytes (mg_opts m)"
  shows "\<exists>m'. broadcast_chunks mc mesh_broadcast (\<lambda>_. (pick, order, None)) i chunks m = (m', None)"
  using assms
proof (induction chunks arbitrary: i m frames)
  case (Cons chunk chunks)
  obtain frame rest where f: "frames = frame # rest" "mc chunk = Inr frame" "map mc chunks = map Inr rest"
    using Cons.prems(4) by (cases frames) auto
  obtain m1 where m1: "mesh_broadcast (pick, order, None) frame m = (m1, None)" "mesh_inv m1"
      "room (length chunks) m1" "mg_opts m1 = mg_opts m" "mg_peers m1 = mg_peers m"
    using mesh_broadcast_room [OF Cons.prems(1,2), of "length chunks" frame pick] Cons.prems(3,5) f(1) by auto
  have "\<exists>m'. broadcast_chunks mc mesh_broadcast (\<lambda>_. (pick, order, None)) (Suc i) chunks m1 = (m', None)"
    using Cons.prems(2,5) f(1) m1(4,5)
    by (intro Cons.IH [OF m1(2) _ m1(3) f(3)]) (auto simp: enumerates_def)
  then show ?case using f(2) m1(1) by simp
qed simp

section \<open>One payload on its way\<close>

text \<open>
  The broadcast: the node is back at its \<open>select\<close>, and a connection that was active has the
  frames in its queue.
\<close>

lemma send_run:
  assumes inv: "mesh_inv (n_mgr s)" and loop: "n_loop s = ClipSelect" and ev: "cl_events (n_clip s) = p # rest"
    and chunks: "ChunkPayload (nd_marshal D) (Some p) DefaultChunkSize = Inr chunks"
    and frames: "map (nd_marshal_chunk D) chunks = map Inr frames"
    and fits: "\<And>frame. frame \<in> set frames \<Longrightarrow> int (length frame) \<le> o_MaxFrameBytes (mg_opts (n_mgr s))"
    and room: "room (length chunks) (n_mgr s)"
    and conn: "active_conn (n_mgr s) q = Some cid" "fmlookup (mg_conns (n_mgr s)) cid = Some c"
  shows "\<exists>s'. node_run D R s s' \<and> n_loop s' = ClipSelect \<and> n_clip s' = (n_clip s)\<lparr>cl_events := rest\<rparr>
    \<and> fmlookup (mg_conns (n_mgr s')) cid = Some (c\<lparr>mc_sendQ := mc_sendQ c @ frames\<rparr>)"
proof -
  obtain order where order: "enumerates order (n_mgr s)" using enumeration_exists by blast
  let ?env = "\<lambda>_::nat. (\<lambda>_::string. 0::nat, order, None :: string option)"
  obtain m' where m': "broadcast_chunks (nd_marshal_chunk D) mesh_broadcast ?env 0 chunks (n_mgr s) = (m', None)"
    using broadcast_chunks_room [OF inv order room frames fits, of "\<lambda>_. 0" 0] by blast
  obtain frames' where q: "map (nd_marshal_chunk D) chunks = map Inr frames'"
      "fmlookup (mg_conns m') cid = Some (c\<lparr>mc_sendQ := mc_sendQ c @ frames'\<rparr>)"
    using broadcast_chunks_ok [OF inv _ m' conn] order by auto
  have "frames' = frames" using q(1) frames by (metis list.inj_map_strong sum.inject(2))
  moreover have "free_env ?env s" using order by (simp add: free_env_def)
  moreover have "snd (clipboard_event (nd_canceled D)
      (broadcastPayload (nd_marshal D) (nd_marshal_chunk D) mesh_broadcast ?env) (Some p) (n_rt s, n_mgr s)) = m'"
    using m' chunks by (simp add: clipboard_event_def broadcastPayload_def Let_def)
  ultimately show ?thesis
    using clipboard_event_run [OF loop ev, of ?env D R] q(2) by (metis snd_conv)
qed

text \<open>The write pump: all frames of the queue go out on the connection's stream, in order.\<close>

lemma write_run:
  assumes "fmlookup (mg_conns (n_mgr (nw_node N i))) cid = Some c" and "mc_started c"
    and "mc_peerID c = node_id N j" and "i \<noteq> j" and "mc_sendQ c = fs"
  shows "\<exists>N'. net_run D N N' \<and> nw_wire N' (i, cid, j) = nw_wire N (i, cid, j) @ fs
    \<and> nw_node N' j = nw_node N j \<and> node_id N' = node_id N \<and> n_clip (nw_node N' i) = n_clip (nw_node N i)"
  using assms
proof (induction fs arbitrary: N c)
  case Nil
  then show ?case by (intro exI [of _ N]) simp
next
  case (Cons frame fs)
  let ?c = "c\<lparr>mc_sendQ := fs\<rparr>"
  let ?N = "set_wire (i, cid, j) (nw_wire N (i, cid, j) @ [frame]) (set_node i (wrote cid ?c (nw_node N i)) N)"
  have "writePump_frame c = Some (frame, ?c)" using Cons.prems(5) by (simp add: writePump_frame_def)
  note step = net_step.written [of N i cid c frame ?c j D, OF Cons.prems(1,2) this Cons.prems(3)]
  have "node_id ?N = node_id N" by (simp add: fun_eq_iff) (simp add: node_id_def)
  then obtain N' where "net_run D ?N N'" "nw_wire N' (i, cid, j) = nw_wire ?N (i, cid, j) @ fs"
      "nw_node N' j = nw_node ?N j" "node_id N' = node_id N" "n_clip (nw_node N' i) = n_clip (nw_node ?N i)"
    using Cons.IH [of ?N ?c] Cons.prems by auto
  then show ?case
    using converse_rtranclp_into_rtranclp [where r = "net_step D", OF step] Cons.prems(4)
    by (intro exI [of _ N']) simp
qed

text \<open>The read pump: a frame with a genuine chunk that is not the last one missing is stored, \<dots>\<close>

lemma received_part:
  assumes ok: "chunkable t s n" and inv: "reassembler_inv (rt_reassembler (n_rt x))"
    and h: "holds t s n {..<k} (rt_reassembler (n_rt x))" and k: "Suc k < piece_count n (length s)"
    and uc: "nd_unmarshal_chunk D frame = Inr (chunk_of t s n k)"
  obtains ra where "received D from frame x = x\<lparr>n_rt := (n_rt x)\<lparr>rt_reassembler := ra\<rparr>\<rparr>"
    "reassembler_inv ra" "holds t s n {..<Suc k} ra"
proof -
  have "insert k {..<k} = {..<Suc k}" by (simp add: lessThan_Suc)
  then have "insert k {..<k} \<subset> {..<piece_count n (length s)}" using k by (simp add: lessThan_strict_subset_iff)
  then obtain ra where ra: "Add (nd_unmarshal D) (rt_reassembler (n_rt x)) (Some (chunk_of t s n k)) = (ra, Inr None)"
      "holds t s n (insert k {..<k}) ra"
    using holds_step [OF ok inv h] by blast
  show thesis
  proof (rule that)
    show "received D from frame x = x\<lparr>n_rt := (n_rt x)\<lparr>rt_reassembler := ra\<rparr>\<rparr>"
      using uc ra(1) by (simp add: received_def receive_chunk_def Let_def)
    show "reassembler_inv ra" using Add_inv [OF inv] ra(1) by (metis fst_conv)
    show "holds t s n {..<Suc k} ra" using ra(2) by (simp add: lessThan_Suc)
  qed
qed

text \<open>\<dots> and the last one completes the payload.\<close>

lemma received_last:
  assumes ok: "chunkable t s n" and inv: "reassembler_inv (rt_reassembler (n_rt x))"
    and h: "holds t s n {..<k} (rt_reassembler (n_rt x))" and k: "Suc k = piece_count n (length s)"
    and uc: "nd_unmarshal_chunk D frame = Inr (chunk_of t s n k)"
    and p: "nd_unmarshal D s = Inr p" "valid_payload p" "cp_Sha256 p = t"
  shows "received D from frame x = x\<lparr>n_rt := (n_rt x)\<lparr>rt_reassembler := delete_transfer t (rt_reassembler (n_rt x))\<rparr>,
    n_completed := (peer_ID from, p) # n_completed x\<rparr>"
proof -
  have "insert k {..<k} = {..<piece_count n (length s)}" using k by (metis lessThan_Suc)
  then have "Add (nd_unmarshal D) (rt_reassembler (n_rt x)) (Some (chunk_of t s n k)) =
      (delete_transfer t (rt_reassembler (n_rt x)), finish_transfer (nd_unmarshal D) t s)"
    by (rule holds_last [OF ok inv h]) simp
  moreover have "finish_transfer (nd_unmarshal D) t s = Inr (Some p)" using p by (simp add: finish_transfer_Some)
  ultimately show ?thesis using uc by (simp add: received_def receive_chunk_def Let_def)
qed

text \<open>Node \<open>j\<close> reads all frames of a transfer from the stream.\<close>

lemma read_run:
  assumes ok: "chunkable t s n" and p: "nd_unmarshal (D j) s = Inr p" "valid_payload p" "cp_Sha256 p = t"
    and ij: "i \<noteq> j"
    and conn: "fmlookup (mg_conns (n_mgr (nw_node N j))) cid' = Some c" "mc_started c" "mc_peerID c = node_id N i"
    and fits: "\<And>frame. frame \<in> set frames \<Longrightarrow> int (length frame) \<le> o_MaxFrameBytes (mg_opts (n_mgr (nw_node N j)))"
    and len: "length frames = piece_count n (length s)"
    and uc: "\<And>k. k < length frames \<Longrightarrow> nd_unmarshal_chunk (D j) (frames ! k) = Inr (chunk_of t s n k)"
    and k: "k < length frames" and wire: "nw_wire N (i, cid, j) = drop k frames"
    and inv: "reassembler_inv (rt_reassembler (n_rt (nw_node N j)))"
    and h: "holds t s n {..<k} (rt_reassembler (n_rt (nw_node N j)))"
  shows "\<exists>N'. net_run D N N' \<and> n_clip (nw_node N' j) = n_clip (nw_node N j)
    \<and> n_completed (nw_node N' j) = (node_id N i, p) # n_completed (nw_node N j)
    \<and> nw_node N' i = nw_node N i"
  using conn fits k wire inv h
proof (induction "length frames - k" arbitrary: N k)
  case 0
  then show ?case by simp
next
  case (Suc m)
  let ?from = "zero_Peer\<lparr>peer_ID := node_id N i\<rparr>"
  let ?x = "received (D j) ?from (frames ! k) (nw_node N j)"
  let ?N = "set_wire (i, cid, j) (drop (Suc k) frames) (set_node j ?x N)"
  have wire: "nw_wire N (i, cid, j) = frames ! k # drop (Suc k) frames"
    using Suc.prems(5,6) by (simp add: Cons_nth_drop_Suc)
  have step: "net_step D N ?N"
    by (rule net_step.deliver [OF wire Suc.prems(1,2,3)])
      (use Suc.prems(3,4) nth_mem [OF Suc.prems(5)] in simp_all)
  show ?case
  proof (cases "Suc k = length frames")
    case True
    then have "Suc k = piece_count n (length s)" using len by simp
    note x = received_last [OF ok Suc.prems(7,8) this uc [OF Suc.prems(5)] p]
    show ?thesis using step ij by (intro exI [of _ ?N]) (simp add: x r_into_rtranclp)
  next
    case False
    then have "Suc k < piece_count n (length s)" using Suc.prems(5) len by simp
    from received_part [OF ok Suc.prems(7,8) this uc [OF Suc.prems(5)]]
    obtain ra where x: "?x = nw_node N j\<lparr>n_rt := (n_rt (nw_node N j))\<lparr>rt_reassembler := ra\<rparr>\<rparr>"
      and ra: "reassembler_inv ra" "holds t s n {..<Suc k} ra" .
    have "node_id ?N = node_id N" by (simp add: fun_eq_iff x) (simp add: node_id_def)
    moreover have "m = length frames - Suc k" using Suc.hyps(2) by simp
    ultimately obtain N' where "net_run D ?N N'" "n_clip (nw_node N' j) = n_clip (nw_node ?N j)"
        "n_completed (nw_node N' j) = (node_id N i, p) # n_completed (nw_node ?N j)" "nw_node N' i = nw_node ?N i"
      using Suc.hyps(1) [of "Suc k" ?N] Suc.prems False ra by (auto simp: x)
    then show ?thesis
      using converse_rtranclp_into_rtranclp [where r = "net_step D", OF step] ij
      by (intro exI [of _ N']) (simp add: x)
  qed
qed

section \<open>From one node's clipboard to another's\<close>

text \<open>
  Node \<open>i\<close> is ready to send to node \<open>j\<close> on connection \<open>cid\<close>: at its \<open>select\<close> with a payload at the
  head of \<open>Events()\<close>, whose frames the two nodes' limits and all its queues admit; nothing is on
  the way to \<open>j\<close> on this connection, and \<open>j\<close> reads one to \<open>i\<close> and has no transfer of this content.
\<close>

definition can_send ::
    "('i \<Rightarrow> ('img, 'os) node_deps) \<Rightarrow> ('i, 'os) network \<Rightarrow> 'i \<Rightarrow> 'i \<Rightarrow> nat \<Rightarrow> ClipboardPayload
     \<Rightarrow> bytes list \<Rightarrow> bool" where
  "can_send D N i j cid p frames \<longleftrightarrow>
     (let a = nw_node N i; b = nw_node N j in
      i \<noteq> j \<and> n_loop a = ClipSelect
      \<and> (\<exists>chunks. ChunkPayload (nd_marshal (D i)) (Some p) DefaultChunkSize = Inr chunks
           \<and> map (nd_marshal_chunk (D i)) chunks = map Inr frames)
      \<and> (\<forall>frame \<in> set frames. int (length frame) \<le> o_MaxFrameBytes (mg_opts (n_mgr a))
           \<and> int (length frame) \<le> o_MaxFrameBytes (mg_opts (n_mgr b)))
      \<and> room (length frames) (n_mgr a)
      \<and> active_conn (n_mgr a) (node_id N j) = Some cid
      \<and> map_option mc_sendQ (fmlookup (mg_conns (n_mgr a)) cid) = Some [] \<and> nw_wire N (i, cid, j) = []
      \<and> (\<exists>cid' c'. fmlookup (mg_conns (n_mgr b)) cid' = Some c' \<and> mc_started c' \<and> \<not> mc_cancelled c'
           \<and> mc_peerID c' = node_id N i)
      \<and> fmlookup (ra_inflight (rt_reassembler (n_rt b))) (cp_Sha256 p) = None)"

lemma can_sendD:
  assumes "can_send D N i j cid p frames"
  shows "i \<noteq> j" and "n_loop (nw_node N i) = ClipSelect"
    and "\<exists>chunks. ChunkPayload (nd_marshal (D i)) (Some p) DefaultChunkSize = Inr chunks
           \<and> map (nd_marshal_chunk (D i)) chunks = map Inr frames"
    and "\<And>frame. frame \<in> set frames \<Longrightarrow> int (length frame) \<le> o_MaxFrameBytes (mg_opts (n_mgr (nw_node N i)))"
    and "\<And>frame. frame \<in> set frames \<Longrightarrow> int (length frame) \<le> o_MaxFrameBytes (mg_opts (n_mgr (nw_node N j)))"
    and "room (length frames) (n_mgr (nw_node N i))"
    and "active_conn (n_mgr (nw_node N i)) (node_id N j) = Some cid"
    and "map_option mc_sendQ (fmlookup (mg_conns (n_mgr (nw_node N i))) cid) = Some []"
    and "nw_wire N (i, cid, j) = []"
    and "\<exists>cid' c'. fmlookup (mg_conns (n_mgr (nw_node N j))) cid' = Some c' \<and> mc_started c' \<and> \<not> mc_cancelled c'
           \<and> mc_peerID c' = node_id N i"
    and "fmlookup (ra_inflight (rt_reassembler (n_rt (nw_node N j)))) (cp_Sha256 p) = None"
  using assms unfolding can_send_def Let_def by blast+

lemma sent_run:
  assumes send: "can_send D N i j cid p frames" and inv: "net_inv D N"
    and ev: "cl_events (n_clip (nw_node N i)) = p # rest"
  shows "\<exists>N'. net_run D N N' \<and> nw_wire N' (i, cid, j) = frames \<and> nw_node N' j = nw_node N j
    \<and> node_id N' = node_id N \<and> n_clip (nw_node N' i) = (n_clip (nw_node N i))\<lparr>cl_events := rest\<rparr>"
proof -
  let ?a = "nw_node N i"
  note S = can_sendD [OF send]
  have m: "mesh_inv (n_mgr ?a)"
    using net_invD(1) [OF inv, of i] system_invD(1) by (auto simp: node_inv_def)
  obtain chunks where chunks: "ChunkPayload (nd_marshal (D i)) (Some p) DefaultChunkSize = Inr chunks"
      "map (nd_marshal_chunk (D i)) chunks = map Inr frames"
    using S(3) by blast
  obtain c where c: "fmlookup (mg_conns (n_mgr ?a)) cid = Some c" "mc_peerID c = node_id N j" "mc_started c"
    using active_lookup [OF m S(7)] .
  have "length chunks = length frames" using chunks(2) by (metis length_map)
  then have room: "room (length chunks) (n_mgr ?a)" using S(6) by simp
  obtain a' where a': "node_run (D i) no_frame ?a a'" "n_clip a' = (n_clip ?a)\<lparr>cl_events := rest\<rparr>"
      "fmlookup (mg_conns (n_mgr a')) cid = Some (c\<lparr>mc_sendQ := frames\<rparr>)"
    using send_run [OF m S(2) ev chunks S(4) room S(7) c(1), where R = no_frame] S(8) c(1) by auto
  let ?N = "set_node i a' N"
  have run: "net_run D N ?N" by (rule local_run [of D, OF a'(1)])
  have "mg_nodeID (n_mgr a') = mg_nodeID (n_mgr ?a)"
    using node_run_id [OF a'(1) net_invD(1) [OF inv]] .
  then have id: "node_id ?N = node_id N" by (simp add: fun_eq_iff) (simp add: node_id_def)
  have "\<exists>N'. net_run D ?N N' \<and> nw_wire N' (i, cid, j) = nw_wire ?N (i, cid, j) @ frames
      \<and> nw_node N' j = nw_node ?N j \<and> node_id N' = node_id ?N \<and> n_clip (nw_node N' i) = n_clip (nw_node ?N i)"
    by (rule write_run [where c = "c\<lparr>mc_sendQ := frames\<rparr>"]) (use a'(3) c S(1) in \<open>simp_all add: id [unfolded fun_eq_iff]\<close>)
  then show ?thesis using run S(1,9) a'(2) id by (auto intro: rtranclp_trans)
qed

lemma arrive_run:
  assumes send: "can_send D N i j cid p frames" and inv: "net_inv D N" and codec: "net_codec D"
    and ev: "cl_events (n_clip (nw_node N i)) = p # rest"
  shows "\<exists>N'. net_run D N N' \<and> n_clip (nw_node N' i) = (n_clip (nw_node N i))\<lparr>cl_events := rest\<rparr>
    \<and> n_clip (nw_node N' j) = n_clip (nw_node N j)
    \<and> n_completed (nw_node N' j) = (node_id N i, p) # n_completed (nw_node N j)"
proof -
  note S = can_sendD [OF send]
  obtain N1 where N1: "net_run D N N1" "nw_wire N1 (i, cid, j) = frames" "nw_node N1 j = nw_node N j"
      "node_id N1 = node_id N" "n_clip (nw_node N1 i) = (n_clip (nw_node N i))\<lparr>cl_events := rest\<rparr>"
    using sent_run [OF send inv ev] by blast
  obtain chunks where chunks: "ChunkPayload (nd_marshal (D i)) (Some p) DefaultChunkSize = Inr chunks"
      "map (nd_marshal_chunk (D i)) chunks = map Inr frames"
    using S(3) by blast
  have codecs: "payload_codec (nd_marshal (D i)) (nd_unmarshal (D j))"
    "chunk_codec (nd_marshal_chunk (D i)) (nd_unmarshal_chunk (D j))"
    using codec by (simp_all add: net_codec_def)
  have "ChunkPayload (nd_marshal (D i)) (Some p) (int 1048576) = Inr chunks"
    using chunks(1) by (simp add: DefaultChunkSize_def)
  then obtain s where s: "valid_payload p" "nd_unmarshal (D j) s = Inr p" "chunkable (cp_Sha256 p) s 1048576"
      "chunks = chunks_of (cp_Sha256 p) s 1048576"
    using ChunkPayload_ok [OF codecs(1), of 1048576 p chunks] by auto
  note sf = sent_frames [OF s(3) codecs(2) chunks(2) [unfolded s(4)]]
  obtain cid' c' where c': "fmlookup (mg_conns (n_mgr (nw_node N j))) cid' = Some c'" "mc_started c'"
      "mc_peerID c' = node_id N i"
    using S(10) by blast
  have "reassembler_inv (rt_reassembler (n_rt (nw_node N j)))"
    using net_invD(1) [OF inv, of j] by (simp add: node_inv_def received_inv_def)
  then have "\<exists>N'. net_run D N1 N' \<and> n_clip (nw_node N' j) = n_clip (nw_node N1 j)
      \<and> n_completed (nw_node N' j) = (node_id N1 i, p) # n_completed (nw_node N1 j) \<and> nw_node N' i = nw_node N1 i"
    using sf(1-3) c' S(5,11) N1(2-4)
    by (intro read_run [where D = D and N = N1 and k = 0 and frames = frames and cid' = cid' and c = c', OF s(3,2,1) refl S(1)]) simp_all
  then obtain N2 where "net_run D N1 N2" "n_clip (nw_node N2 j) = n_clip (nw_node N j)"
      "n_completed (nw_node N2 j) = (node_id N i, p) # n_completed (nw_node N j)" "nw_node N2 i = nw_node N1 i"
    using N1(3,4) by auto
  then show ?thesis using N1(1,5) by (intro exI [of _ N2]) (auto intro: rtranclp_trans)
qed

lemma payload_run:
  assumes send: "can_send D N i j cid p frames" and inv: "net_inv D N" and codec: "net_codec D"
    and ev: "cl_events (n_clip (nw_node N i)) = p # rest"
    and ar: "ApplyRemote (cd_jpeg_decode (nd_clip (D j))) (cd_png_encode (nd_clip (D j))) (cd_write (nd_clip (D j))) ctx_err
      (cl_now (n_clip (nw_node N j))) (cl_pending (n_clip (nw_node N j))) (cl_os (n_clip (nw_node N j))) (Some p)
      = (l', os', result)"
  shows "\<exists>N'. net_run D N N' \<and> n_clip (nw_node N' i) = (n_clip (nw_node N i))\<lparr>cl_events := rest\<rparr>
    \<and> n_clip (nw_node N' j) = (n_clip (nw_node N j))\<lparr>cl_pending := l', cl_os := os'\<rparr>"
proof -
  obtain N2 where N2: "net_run D N N2" "n_clip (nw_node N2 i) = (n_clip (nw_node N i))\<lparr>cl_events := rest\<rparr>"
      "n_clip (nw_node N2 j) = n_clip (nw_node N j)"
      "n_completed (nw_node N2 j) = [] @ (node_id N i, p) # n_completed (nw_node N j)"
    using arrive_run [OF send inv codec ev] by auto
  let ?b = "(nw_node N2 j)\<lparr>n_completed := [] @ n_completed (nw_node N j),
      n_clip := (n_clip (nw_node N2 j))\<lparr>cl_pending := l', cl_os := os'\<rparr>,
      n_rt := applied_log (node_id N i) p result (n_rt (nw_node N2 j))\<rparr>"
  have "node_run (D j) no_frame (nw_node N2 j) ?b"
    using apply_run [OF N2(4), of "D j" ctx_err l' os' result no_frame] ar N2(3) by simp
  then have "net_run D N2 (set_node j ?b N2)" by (rule local_run)
  then have "net_run D N (set_node j ?b N2)" using N2(1) by (rule rtranclp_trans [rotated])
  then show ?thesis using N2(2,3) can_sendD(1) [OF send] by (intro exI [of _ "set_node j ?b N2"]) simp
qed

end
