(* ===== verification/ClipProperties.thy ===== *)
theory ClipProperties
  imports Samples
begin

text \<open>
  The properties of \<open>internal/osclip\<close>: echo suppression, the application of remote payloads, and
  what the manager makes of local clipboard changes.
\<close>

section \<open>Echo suppression\<close>

text \<open>C21: After \<open>n\<close> writes of the same bytes to the same bucket, exactly the first \<open>n\<close> watcher
events with these bytes are taken for echoes, and the next one is not.\<close>

theorem echoes_suppressed:
  assumes "0 < ttl"
  shows "fst (consume (((\<lambda>l. snd (consume l b h now)) ^^ k)
      (((\<lambda>l. remember l b h now) ^^ n) (newPendingLedger ttl))) b h now) \<longleftrightarrow> k < n"
proof -
  let ?key = "\<lparr>pk_bucket = b, pk_hash = h\<rparr>"
  let ?l = "((\<lambda>l. remember l b h now) ^^ n) (newPendingLedger ttl)"
  have run: "ledger_inv ?l \<and> ledger_credits ?l now ?key = n"
    using ledger.remember_run [where k = ?key and now = now and n = n, OF ledger_inv_new [of ttl]] assms
    by (simp add: newPendingLedger_def ledger_credits_def)
  then show ?thesis
    using ledger.nth_consume [where l = ?l and k = ?key and now = now and n = k] by simp
qed

theorem echoes_suppressed_witness:
  "fst (consume (((\<lambda>l. snd (consume l textBucket ''h'' 7)) ^^ 1)
      (((\<lambda>l. remember l textBucket ''h'' 7) ^^ 2) (newPendingLedger defaultPendingTTL))) textBucket ''h'' 7)
   \<and> \<not> fst (consume (((\<lambda>l. snd (consume l textBucket ''h'' 7)) ^^ 2)
      (((\<lambda>l. remember l textBucket ''h'' 7) ^^ 2) (newPendingLedger defaultPendingTTL))) textBucket ''h'' 7)"
  using echoes_suppressed [where ttl = defaultPendingTTL and k = 1 and n = 2]
    echoes_suppressed [where ttl = defaultPendingTTL and k = 2 and n = 2]
  by (simp add: defaultPendingTTL_def del: funpow.simps)

text \<open>A remembered write is forgotten when its lifetime is over: from that moment on, a watcher
event with these bytes is a local change again, so a write that the native clipboard never
reported cannot swallow a later copy by the user.\<close>

lemma echoes_expire:
  assumes "ledger_inv l" and "0 \<le> pl_ttl l" and "now + pl_ttl l \<le> t"
  shows "\<not> fst (consume (remember l b h now) b h t)
    \<and> snd (watch_receive b t (remember l b (ComputeContentSHA256 d) now) (Some d))
        = Some \<lparr>oe_bucket = b, oe_data = d\<rparr>"
  using ledger.remembered_expires [OF assms(1,3,2), of "\<lparr>pk_bucket = b, pk_hash = h\<rparr>"]
    ledger.remembered_expires [OF assms(1,3,2), of "\<lparr>pk_bucket = b, pk_hash = ComputeContentSHA256 d\<rparr>"]
  by (auto simp: watch_receive_def Let_def split: prod.split bool.split)

section \<open>Applying remote payloads\<close>

text \<open>C20: A remote payload that was applied is not sent back: the native clipboard got exactly the
normalised bytes, and when its watcher reports them within the lifetime of the ledger's entry,
the report is swallowed.\<close>

theorem applied_is_not_echoed:
  assumes "ledger_inv l" and "ApplyRemote jd pe w None now l os (Some p) = (l', os', None)"
    and "normalizeWritePayload jd pe (Some p) = Inr (f, b, d)"
    and "now \<le> t" and "t < now + pl_ttl l"
  shows "w f d os = (None, os') \<and> snd (watch_receive b t l' (Some d)) = None"
proof -
  have v: "ValidatePayload (Some p) = None"
    using assms(2) by (auto simp: ApplyRemote_def split: option.splits)
  then have "w f d os = (None, os')" "l' = remember l b (ComputeContentSHA256 d) now"
    using assms(2,3) by (auto simp: ApplyRemote_def Let_def split: prod.splits option.splits)
  then show ?thesis
    using ledger.remembered_is_suppressed [OF assms(1,4,5), of "\<lparr>pk_bucket = b, pk_hash = ComputeContentSHA256 d\<rparr>"]
    by (auto simp: watch_receive_def Let_def split: prod.split bool.split)
qed

text \<open>The native clipboard of the witnesses is the list of the writes it has seen.\<close>

definition write_log :: "clipFormat \<Rightarrow> bytes \<Rightarrow> (clipFormat \<times> bytes) list \<Rightarrow> string option \<times> (clipFormat \<times> bytes) list" where
  "write_log f d os = (None, os @ [(f, d)])"

definition write_fails :: "clipFormat \<Rightarrow> bytes \<Rightarrow> (clipFormat \<times> bytes) list \<Rightarrow> string option \<times> (clipFormat \<times> bytes) list" where
  "write_fails f d os = (Some ''busy'', os)"

lemma sample_apply:
  "ValidatePayload (Some sample_payload) = None"
  "normalizeWritePayload jd pe (Some sample_payload) = Inr (FmtText, textBucket, ''hello'')"
  using sample_valid
  by (simp_all add: ValidatePayload_valid) (simp add: normalizeWritePayload_def sample_payload_def)

definition image_decode :: "bytes \<Rightarrow> string + bytes" where
  "image_decode = Inr"

definition image_encode :: "bytes \<Rightarrow> string + bytes" where
  "image_encode = Inr"

theorem applied_is_not_echoed_witness:
  "snd (watch_receive textBucket 12
     (fst (ApplyRemote image_decode image_encode write_log None 10 (newPendingLedger 5) [] (Some sample_payload)))
     (Some ''hello'')) = None"
proof -
  obtain l' where "ApplyRemote image_decode image_encode write_log None 10 (newPendingLedger 5) []
      (Some sample_payload) = (l', [(FmtText, ''hello'')], None)"
    by (simp add: sample_apply ApplyRemote_def write_log_def Let_def)
  then show ?thesis
    using applied_is_not_echoed [OF ledger_inv_new _ sample_apply(2), of image_decode image_encode write_log
        10 5 "[]" l' "[(FmtText, ''hello'')]" 12]
    by (simp add: newPendingLedger_def)
qed

text \<open>C22: A write that the native clipboard refuses leaves no credit for itself, but
renews older ones. At any time from the call on, every other key has the live credits it would have had
without the call. The key of the refused content has those it had at the time of the call, and
they now live for the ledger's full life time from the call on: a credit that was about to
expire is renewed by a write that never happened, and can still swallow a local copy.\<close>

theorem failed_write_renews_credits:
  assumes "ledger_inv l" and "0 < pl_ttl l" and "now \<le> t"
    and "ApplyRemote jd pe w ctx now l os payload = (l', os', Some (ErrWriteClipboard e))"
    and "normalizeWritePayload jd pe payload = Inr (f, b, d)"
  shows "ledger_credits l' t k =
    (if k = \<lparr>pk_bucket = b, pk_hash = ComputeContentSHA256 d\<rparr>
     then (if t < now + pl_ttl l then ledger_credits l now k else 0)
     else ledger_credits l t k)"
proof -
  let ?k = "\<lparr>pk_bucket = b, pk_hash = ComputeContentSHA256 d\<rparr>"
  have "l' = key_forget (key_remember l ?k now) ?k"
    using assms(4,5) by (auto simp: ApplyRemote_def normalizeWritePayload_def normalizeImageBytes_def
        Let_def split: option.splits sum.splits prod.splits if_splits)
  then show ?thesis
    using ledger.credits_forget [OF ledger.inv_remember [OF assms(1), of ?k now], where k = ?k and t = t and k' = k]
      ledger.credits_remember [OF assms(1,3), where k = ?k and k' = k]
    by simp
qed

text \<open>A ledger that remembers one write of \<open>hello\<close>, until 11; a failing write at 10 renews it until 15.\<close>

definition expiring_ledger :: pendingLedger where
  "expiring_ledger = remember (newPendingLedger 5) textBucket sample_id 6"

theorem failed_write_renews_credits_witness:
  "ledger_credits expiring_ledger 12 \<lparr>pk_bucket = textBucket, pk_hash = sample_id\<rparr> = 0
   \<and> ledger_credits (fst (ApplyRemote image_decode image_encode write_fails None 10 expiring_ledger []
      (Some sample_payload))) 12 \<lparr>pk_bucket = textBucket, pk_hash = sample_id\<rparr> = 1"
proof -
  let ?k = "\<lparr>pk_bucket = textBucket, pk_hash = sample_id\<rparr>"
  have l: "ledger_inv expiring_ledger" "pl_ttl expiring_ledger = 5"
    using remember_inv [OF ledger_inv_new [of 5], of ?k 6]
    by (simp_all add: expiring_ledger_def, simp add: newPendingLedger_def)
  have c: "ledger_credits expiring_ledger t ?k = (if t < 11 then 1 else 0)" if "6 \<le> t" for t
    using ledger.credits_remember [OF ledger_inv_new [of 5] that, of ?k ?k]
    by (simp add: expiring_ledger_def newPendingLedger_def ledger_credits_def)
  obtain l' where a: "ApplyRemote image_decode image_encode write_fails None 10 expiring_ledger []
      (Some sample_payload) = (l', [], Some (ErrWriteClipboard ''busy''))"
    by (simp add: sample_apply ApplyRemote_def write_fails_def Let_def)
  show ?thesis
    using failed_write_renews_credits [OF l(1) _ _ a sample_apply(2), of 12 ?k] l(2) a c
    by (simp add: sample_apply)
qed

text \<open>An error of \<open>ApplyRemote\<close> other than the native write's comes before any effect: the
ledger and the native clipboard are as they were. So a cancelled context, an invalid payload
or an image that does not decode changes nothing.\<close>

lemma refused_payload_has_no_effect:
  assumes "ApplyRemote jd pe w ctx now l os payload = (l', os', Some e)"
    and "\<And>text. e \<noteq> ErrWriteClipboard text"
  shows "l' = l \<and> os' = os"
  using assms by (auto simp: ApplyRemote_def Let_def split: option.splits sum.splits prod.splits)

section \<open>Local changes\<close>

text \<open>What a coalescing window emits: of all the observed events, the last one of each native
format and nothing else, the text event before the image event.\<close>

lemma coalescing_keeps_last:
  "sorted_wrt (<) (map oe_bucket (batch_events (fold (\<lambda>evt batch. batch_put batch evt) es fmempty)))
   \<and> set (batch_events (fold (\<lambda>evt batch. batch_put batch evt) es fmempty)) =
       {last (filter (\<lambda>evt. oe_bucket evt = b) es) | b. filter (\<lambda>evt. oe_bucket evt = b) es \<noteq> []}"
proof -
  let ?m = "fold (\<lambda>evt batch. batch_put batch evt) es fmempty"
  have look: "fmlookup ?m b = (if filter (\<lambda>e. oe_bucket e = b) es = [] then None
      else Some (last (filter (\<lambda>e. oe_bucket e = b) es)))" for b
    using batch_collect_lookup [of es fmempty b] by (simp split: list.split)
  have "es \<noteq> [] \<Longrightarrow> batch_inv ?m"
  proof (induction es rule: rev_induct)
    case (snoc x xs)
    then show ?case by (cases "xs = []") (simp_all add: batch_inv_put)
  qed simp
  then have "sorted_wrt (<) (map oe_bucket (batch_events ?m))"
    by (cases "es = []") (simp_all add: batch_events_sorted, simp add: batch_events_def)
  moreover have "set (batch_events ?m) = {last (filter (\<lambda>evt. oe_bucket evt = b) es) | b.
      filter (\<lambda>evt. oe_bucket evt = b) es \<noteq> []}"
    unfolding set_batch_events look by (auto split: if_splits)
  ultimately show ?thesis by blast
qed

text \<open>The payload made of a local event is valid, carries exactly the observed bytes and the kind
of its bucket: a URL exactly for text without surrounding white space that parses as an
absolute \<open>http\<close> or \<open>https\<close> URL with a host, plain text otherwise, PNG for an image. It exists
for every text that is UTF-8 and every image, within the budget of 20,000,000 bytes.\<close>

lemma local_payload_faithful:
  "(case event_payload url_parse now evt of
      Inr p \<Rightarrow> ValidatePayload (Some p) = None \<and> cp_Data p = oe_data evt
        \<and> (cp_Type p = PAYLOAD_TYPE_IMAGE \<longleftrightarrow> oe_bucket evt = imageBucket)
        \<and> (cp_Type p = PAYLOAD_TYPE_URL \<longleftrightarrow> oe_bucket evt = textBucket \<and> oe_data evt \<noteq> ''''
             \<and> trim_space (oe_data evt) = oe_data evt
             \<and> (\<exists>u. url_parse (oe_data evt) = Some u \<and> url_Host u \<noteq> ''''
                  \<and> map ascii_lower (url_Scheme u) \<in> {''http'', ''https''}))
    | Inl e \<Rightarrow> 20000000 < length (oe_data evt)
        \<or> oe_bucket evt = textBucket \<and> \<not> utf8_valid (oe_data evt))"
proof (cases "event_payload url_parse now evt")
  case (Inr p)
  have "cp_Type p = (case oe_bucket evt of textBucket \<Rightarrow> classifyTextPayload url_parse (oe_data evt)
      | imageBucket \<Rightarrow> PAYLOAD_TYPE_IMAGE)"
    using Inr by (auto simp: event_payload_def buildTextPayload_def NewPayload_Inr split: formatBucket.splits)
  moreover have "url_Scheme u \<noteq> ''''" if "map ascii_lower (url_Scheme u) \<in> {''http'', ''https''}" for u
    using that by auto
  ultimately show ?thesis
    using Inr event_payload_valid [OF Inr] event_payload_data [OF Inr]
    by (auto simp: ValidatePayload_valid classifyTextPayload_def payload_types Let_def
        split: formatBucket.splits option.splits)
next
  case (Inl e)
  have built: "NewPayload now kind d mime \<noteq> Inl e" if "length d \<le> 20000000"
      "kind = PAYLOAD_TYPE_IMAGE \<and> mime = ''image/png''
        \<or> (kind = PAYLOAD_TYPE_TEXT \<or> kind = PAYLOAD_TYPE_URL) \<and> mime = '''' \<and> utf8_valid d" for kind d mime
  proof -
    have "NewPayload now kind d mime = Inr \<lparr>cp_TimestampUnixMs = unix_milli now, cp_Type = kind,
          cp_Sha256 = ComputeContentSHA256 d, cp_Data = d, cp_MimeType = mime, cp_SizeBytes = of_nat (length d)\<rparr>"
      unfolding NewPayload_Inr using that
      by (auto simp: valid_payload_def MaxPayloadBytes_def allowedImageMIMETypes_def payload_types)
    then show ?thesis by simp
  qed
  show ?thesis
  proof (cases "oe_bucket evt")
    case textBucket
    then show ?thesis
      using Inl classify_cases [of url_parse "oe_data evt"]
        built [of "oe_data evt" "classifyTextPayload url_parse (oe_data evt)" "''''"]
      by (cases "20000000 < length (oe_data evt)") (auto simp: event_payload_def buildTextPayload_def)
  next
    case imageBucket
    then show ?thesis
      using Inl built [of "oe_data evt" PAYLOAD_TYPE_IMAGE "''image/png''"]
      by (cases "20000000 < length (oe_data evt)") (auto simp: event_payload_def)
  qed
qed

section \<open>The goroutines\<close>

text \<open>C19: In every interleaving of the watchers, the processor, the appliers and the receiver: every
payload in \<open>Events\<close> is valid, the two channels never hold more than their capacities, the ledger
never keeps an entry without a credit, and after \<open>Events\<close> is closed the processor has ended, so
nothing is sent on the closed channel.\<close>

theorem clipboard_system_safe:
  assumes "clip_reachable D (newManagerWithBackend eventBuffer now os) s"
  shows "(\<forall>p \<in> set (cl_events s). ValidatePayload (Some p) = None)
    \<and> length (cl_events s) \<le> cl_eventsCap s \<and> length (cl_observed s) \<le> cl_observedCap s
    \<and> (\<forall>k e. fmlookup (pl_entries (cl_pending s)) k = Some e \<longrightarrow> 1 \<le> pe_count e)
    \<and> (cl_closed s \<longrightarrow> cl_proc s = ProcOff)"
  using clip_reachable_inv [OF assms clip_inv_init]
  by (auto simp: clip_inv_def ledger_inv_def ValidatePayload_valid)

definition sample_deps :: "(bytes, (clipFormat \<times> bytes) list) clip_deps" where
  "sample_deps =
     \<lparr>cd_url_parse = (\<lambda>_. None), cd_jpeg_decode = image_decode, cd_png_encode = image_encode,
      cd_write = write_log\<rparr>"

theorem clipboard_system_safe_witness:
  "\<exists>s. clip_reachable sample_deps (newManagerWithBackend 0 0 []) s \<and> cl_started s
     \<and> (cl_closed s \<longrightarrow> cl_proc s = ProcOff)"
proof -
  let ?init = "newManagerWithBackend 0 0 [] :: (clipFormat \<times> bytes) list clip_sys"
  let ?s = "?init\<lparr>cl_started := True, cl_watch := (\<lambda>_. WatchReceiving), cl_proc := ProcWaiting\<rparr>"
  have start: "clip_step sample_deps ?init ?s"
    by (rule clip_step.start) (simp add: newManagerWithBackend_def Let_def)
  have r: "clip_reachable sample_deps ?init ?s"
    using clip_reachable.step [OF clip_reachable.init start] .
  then show ?thesis
    using clipboard_system_safe [OF r] by (intro exI [of _ ?s]) simp
qed

end
