(* ===== verification/MeshProperties.thy ===== *)
theory MeshProperties
  imports Samples
begin

text \<open>
  The properties of \<open>internal/netmesh\<close>: the dialling policy, discovery records and addresses, the
  peer and connection tables of one operation, and the manager as a system of goroutines.
\<close>

section \<open>Policy, backoff and jitter\<close>

text \<open>C32: After \<open>n+1\<close> failed dials in a row the retry delay is the minimum doubled \<open>n\<close> times, cut at
the maximum; it never leaves the range from minimum to maximum and does not overflow.\<close>

theorem backoff_schedule:
  assumes "backoff_bounds minimum maximum"
  shows "ps_backoff (bumps minimum maximum (Suc n) (resetBackoff ps)) = min maximum (minimum * 2 ^ n)
    \<and> minimum \<le> ps_backoff (bumps minimum maximum (Suc n) (resetBackoff ps))"
proof -
  have "minimum * 1 \<le> minimum * 2 ^ n"
    using assms by (intro mult_left_mono) (simp_all add: backoff_bounds_def)
  then show ?thesis
    using assms by (simp add: bumps_value [OF assms] backoff_bounds_def del: bumps.simps)
qed

theorem backoff_schedule_witness:
  "ps_backoff (bumps defaultReconnectMinBackoff defaultReconnectMaxBackoff (Suc 10)
     (resetBackoff (new_peerState ''p''))) = 30 * second"
  using backoff_schedule [of defaultReconnectMinBackoff defaultReconnectMaxBackoff 10 "new_peerState ''p''"]
  by (simp add: backoff_bounds_def defaultReconnectMinBackoff_def defaultReconnectMaxBackoff_def
      del: bumps.simps)

section \<open>Discovery records\<close>

text \<open>C30: A receiver reads from the TXT record a node advertises exactly the node's identifier, name
and path, with surrounding white space removed and whatever other characters they contain,
\<open>=\<close> included; the record is rejected exactly if one of them is blank or the path does not
begin with a slash.\<close>

theorem txt_round_trip:
  "parseTXT (discoveryText nodeID name wsPath) =
     (if trim_space nodeID = '''' then Inl ErrMissingID
      else if trim_space name = '''' then Inl ErrMissingName
      else if \<not> has_prefix ''/'' (trim_space wsPath) then Inl ErrMissingWSPath
      else Inr \<lparr>sm_id = trim_space nodeID, sm_name = trim_space name,
                sm_wsPath = trim_space wsPath, sm_proto = protocolVersion\<rparr>)"
  by (rule parseTXT_discoveryText)

text \<open>The addresses of a service entry after normalisation: every one of them was advertised and
is not unspecified, every advertised one that is not unspecified is represented by its text, no
text occurs twice, and the list is strictly sorted, IPv4 before IPv6 and then by text.\<close>

lemma normalized_addresses:
  "(\<forall>ip \<in> set (normalizeIPs groups). Some ip \<in> set (concat groups) \<and> \<not> ip_IsUnspecified ip)
   \<and> (\<forall>ip. Some ip \<in> set (concat groups) \<and> \<not> ip_IsUnspecified ip \<longrightarrow>
        ip_string ip \<in> ip_string ` set (normalizeIPs groups))
   \<and> distinct (map ip_string (normalizeIPs groups))
   \<and> sorted_wrt (<) (map ip_sort_key (normalizeIPs groups))"
  using normalizeIPs_set normalizeIPs_complete normalizeIPs_distinct normalizeIPs_strict by blast

section \<open>Connections\<close>

text \<open>C17: \<open>attachConnection\<close> accepts a connection exactly if its peer has none, or has one of the other
direction while the new one has the preferred direction. An accepted connection is the peer's
active one, its pumps are started, and the one it displaces is left to be closed; a refused one
leaves the active connection in place and schedules nothing. Accepted or not, the peer's
identifier is set and its name becomes the one the new connection gives, if it gives one; a
refusal changes nothing else of the peer. No other peer and no other connection changes. So once the
preferred direction is in place, no later connection displaces it.\<close>

theorem attach_converges:
  assumes inv: "mesh_inv m" and ps: "fmlookup (mg_peers m) p = Some ps"
    and fresh: "fmlookup (mg_conns m) cid = None"
  shows "(snd (attachConnection p cid conn m) \<longleftrightarrow>
       (\<forall>old oldc. ps_conn ps = Some old \<longrightarrow> fmlookup (mg_conns m) old = Some oldc \<longrightarrow>
          mc_direction oldc \<noteq> mc_direction conn \<and> mc_direction conn = preferredDirection (mg_nodeID m) p))
    \<and> active_conn (fst (attachConnection p cid conn m)) p =
        (if snd (attachConnection p cid conn m) then Some cid else ps_conn ps)
    \<and> mg_goClose (fst (attachConnection p cid conn m)) = mg_goClose m @
        (case ps_conn ps of
           Some old \<Rightarrow> if snd (attachConnection p cid conn m) then [(old, ''superseded by preferred connection'')] else []
         | None \<Rightarrow> [])
    \<and> (\<exists>ps'. fmlookup (mg_peers (fst (attachConnection p cid conn m))) p = Some ps'
        \<and> peer_ID (ps_peer ps') = p
        \<and> peer_Name (ps_peer ps') = (if mc_peerName conn = '''' then peer_Name (ps_peer ps) else mc_peerName conn)
        \<and> peer_Connected (ps_peer ps') = (ps_conn ps' \<noteq> None)
        \<and> (\<not> snd (attachConnection p cid conn m) \<longrightarrow>
             ps' = ps\<lparr>ps_peer := (ps_peer ps)\<lparr>peer_ID := p, peer_Name := peer_Name (ps_peer ps')\<rparr>\<rparr>))
    \<and> (\<forall>q. q \<noteq> p \<longrightarrow> fmlookup (mg_peers (fst (attachConnection p cid conn m))) q = fmlookup (mg_peers m) q)
    \<and> (\<forall>i. fmlookup (mg_conns (fst (attachConnection p cid conn m))) i =
        (if i = cid then Some (if snd (attachConnection p cid conn m) then conn\<lparr>mc_started := True\<rparr> else conn)
         else fmlookup (mg_conns m) i))"
proof -
  have id: "ps_id ps = p" "peer_Connected (ps_peer ps) = (ps_conn ps \<noteq> None)"
    using mesh_invD(2) [OF inv ps] by (simp_all add: peer_inv_def)
  show ?thesis
    using ps by (cases rule: attach_cases [OF inv ps, of cid conn])
      (auto simp: active_conn_def Let_def name_peer_def install_conn_def id)
qed

theorem attach_converges_witness:
  "active_conn (fst (attachConnection ''a'' 3 (sample_conn connectionDirectionOutbound ''a'') sample_mesh)) ''a'' = Some 7
   \<and> active_conn (fst (attachConnection ''a'' 3 (sample_conn connectionDirectionInbound ''a'') sample_mesh)) ''a'' = Some 7"
proof -
  have a: "fmlookup (mg_peers sample_mesh) ''a'' = Some (sample_peer ''a'' (Some 7))"
    "fmlookup (mg_conns sample_mesh) 3 = None" "ps_conn (sample_peer ''a'' (Some 7)) = Some 7"
    "preferredDirection (mg_nodeID sample_mesh) ''a'' = connectionDirectionInbound"
    by (simp_all add: sample_mesh_def sample_peer_def preferredDirection_def shouldDial_def)
  have d: "mc_direction (sample_conn d p) = d" for d p by (simp add: sample_conn_def)
  have "\<not> snd (attachConnection ''a'' 3 (sample_conn d ''a'') sample_mesh)" for d
    using attach_converges [OF sample_mesh_inv a(1,2), of "sample_conn d ''a''", THEN conjunct1] a(3,4)
      sample_mesh_active(2) by (auto simp: d)
  then show ?thesis
    using attach_converges [OF sample_mesh_inv a(1,2), THEN conjunct2, THEN conjunct1] a(3) by simp
qed

text \<open>What one end does with connections that come up one after the other.\<close>

definition attach_each :: "string \<Rightarrow> string \<Rightarrow> (nat \<times> connectionDirection) list \<Rightarrow> Manager \<Rightarrow> Manager" where
  "attach_each peerID peerName conns m =
     fold (\<lambda>(cid, direction) m.
       attach_or_close peerID cid
         (newManagedConn (mg_ctxDone m) direction peerID peerName (o_SendQueueSize (mg_opts m))) m) conns m"

definition unused_cid :: "Manager \<Rightarrow> nat \<Rightarrow> bool" where
  "unused_cid m cid \<longleftrightarrow> fmlookup (mg_conns m) cid = None \<and> \<not> scheduled m cid"

definition ending :: "Manager \<Rightarrow> nat \<Rightarrow> bool" where
  "ending m cid \<longleftrightarrow> scheduled m cid \<or> (\<exists>c. fmlookup (mg_conns m) cid = Some c \<and> mc_closed c \<noteq> None)"

lemma attach_free:
  "fmlookup (mg_peers m) p = Some ps \<Longrightarrow> ps_conn ps = None \<Longrightarrow>
     attach_or_close p cid conn m =
       set_conn cid (conn\<lparr>mc_started := True\<rparr>) (set_peer p (install_conn cid (name_peer conn ps)) m)"
  by (simp add: attach_or_close_def attachConnection_def Let_def)

lemma attach_other_direction:
  assumes "fmlookup (mg_peers m) p = Some ps" "ps_conn ps = Some old" "fmlookup (mg_conns m) old = Some oldc"
    and "ps_id ps = p" "mc_direction oldc \<noteq> mc_direction conn"
  shows "attach_or_close p cid conn m =
    (if mc_direction conn = preferredDirection (mg_nodeID m) p
     then (set_conn cid (conn\<lparr>mc_started := True\<rparr>) (set_peer p (install_conn cid (name_peer conn ps)) m))
       \<lparr>mg_goClose := mg_goClose m @ [(old, ''superseded by preferred connection'')]\<rparr>
     else set_conn cid (close_conn ''duplicate connection'' conn) (set_peer p (name_peer conn ps) m))"
  using assms
  by (simp add: attach_or_close_def attachConnection_def Let_def close_cid_def set_conn_def set_peer_def)

lemma attach_pair:
  assumes "mesh_inv m" and ps: "fmlookup (mg_peers m) p = Some ps" "ps_conn ps = None"
    and new: "unused_cid m w" "unused_cid m l" "w \<noteq> l"
    and dir: "preferredDirection (mg_nodeID m) p = d" "d' \<noteq> d"
    and order: "xs \<in> {[(w, d), (l, d')], [(l, d'), (w, d)]}"
  shows "active_conn (attach_each p name xs m) p = Some w \<and> \<not> ending (attach_each p name xs m) w
    \<and> ending (attach_each p name xs m) l"
proof -
  let ?c = "\<lambda>d. newManagedConn (mg_ctxDone m) d p name (o_SendQueueSize (mg_opts m))"
  let ?first = "\<lambda>i d. set_conn i ((?c d)\<lparr>mc_started := True\<rparr>) (set_peer p (install_conn i (name_peer (?c d) ps)) m)"
  have id: "ps_id ps = p" using mesh_invD(2) [OF assms(1) ps(1)] by (simp add: peer_inv_def)
  note first = attach_free [OF ps]
  have second: "attach_or_close p j (?c d') (?first i e) =
    (if d' = preferredDirection (mg_nodeID m) p
     then (set_conn j ((?c d')\<lparr>mc_started := True\<rparr>) (set_peer p (install_conn j (name_peer (?c d')
         (install_conn i (name_peer (?c e) ps)))) (?first i e)))
       \<lparr>mg_goClose := mg_goClose m @ [(i, ''superseded by preferred connection'')]\<rparr>
     else set_conn j (close_conn ''duplicate connection'' (?c d'))
       (set_peer p (name_peer (?c d') (install_conn i (name_peer (?c e) ps))) (?first i e)))"
    if "d' \<noteq> e" for i j d' e
    using attach_other_direction [of "?first i e" p "install_conn i (name_peer (?c e) ps)" i "(?c e)\<lparr>mc_started := True\<rparr>"
        "?c d'" j] that id by (simp add: install_conn_def)
  have closed: "mc_closed (close_conn why c) \<noteq> None" for why c
    by (simp add: close_conn_def split: option.split)
  show ?thesis
    using order dir new
    by (auto simp: attach_each_def first second active_conn_def ending_def unused_cid_def scheduled_def closed)
qed

text \<open>C18: Both ends keep the same connection. Two nodes that know each other and are not connected
come to two connections, \<open>X\<close> dialled by \<open>a\<close> and \<open>Y\<close> dialled by \<open>b\<close>, and each end attaches the two in
an order of its own. If \<open>a\<close> is the smaller identifier, then \<open>a\<close> is the one that dials, and whatever
the orders, \<open>X\<close> is the active connection at both ends and stays open, and \<open>Y\<close> is closed or about to be
closed at both ends: no order leaves the two nodes without a connection, or with two.\<close>

theorem crossed_connections_converge:
  assumes "a < b"
    and a: "mesh_inv ma" "mg_nodeID ma = a" "fmlookup (mg_peers ma) b = Some psa" "ps_conn psa = None"
      "unused_cid ma x" "unused_cid ma y" "x \<noteq> y"
    and b: "mesh_inv mb" "mg_nodeID mb = b" "fmlookup (mg_peers mb) a = Some psb" "ps_conn psb = None"
      "unused_cid mb x'" "unused_cid mb y'" "x' \<noteq> y'"
    and orders: "xs \<in> {[(x, connectionDirectionOutbound), (y, connectionDirectionInbound)],
        [(y, connectionDirectionInbound), (x, connectionDirectionOutbound)]}"
      "ys \<in> {[(x', connectionDirectionInbound), (y', connectionDirectionOutbound)],
        [(y', connectionDirectionOutbound), (x', connectionDirectionInbound)]}"
  shows "shouldDial a b \<and> \<not> shouldDial b a
    \<and> active_conn (attach_each b nb xs ma) b = Some x \<and> active_conn (attach_each a na ys mb) a = Some x'
    \<and> \<not> ending (attach_each b nb xs ma) x \<and> \<not> ending (attach_each a na ys mb) x'
    \<and> ending (attach_each b nb xs ma) y \<and> ending (attach_each a na ys mb) y'"
proof -
  have dials: "shouldDial a b" "\<not> shouldDial b a"
    using assms(1) dial.never_both_dial by (auto simp: shouldDial_def)
  then have "preferredDirection (mg_nodeID ma) b = connectionDirectionOutbound"
      "preferredDirection (mg_nodeID mb) a = connectionDirectionInbound"
    using dial.prefers_dialled dial.dialler_prefers_outbound by (simp_all add: a(2) b(2))
  then show ?thesis
    using dials attach_pair [OF a(1) a(3-7) _ _ orders(1), of nb]
      attach_pair [OF b(1) b(3-7) _ _ orders(2), of na] by simp
qed

text \<open>The nodes \<open>a\<close> and \<open>m\<close>, which know each other, attach the two connections in opposite orders.\<close>

definition lone_mesh :: "string \<Rightarrow> string \<Rightarrow> Manager" where
  "lone_mesh self peer =
     \<lparr>mg_opts = sample_options, mg_nodeID = self, mg_name = self, mg_peers = fmupd peer (sample_peer peer None) fmempty,
      mg_started = True, mg_ctxDone = False, mg_conns = fmempty, mg_goClose = []\<rparr>"

lemma lone_mesh_inv: "self \<noteq> peer \<Longrightarrow> mesh_inv (lone_mesh self peer)"
  by (simp add: lone_mesh_def mesh_inv_def sample_options_def options_ok_def backoff_bounds_def peer_inv_def
      sample_peer_def new_peerState_def)

theorem crossed_connections_converge_witness:
  "active_conn (attach_each ''m'' ''there'' [(1, connectionDirectionOutbound), (2, connectionDirectionInbound)]
     (lone_mesh ''a'' ''m'')) ''m'' = Some 1
   \<and> active_conn (attach_each ''a'' ''here'' [(2, connectionDirectionOutbound), (1, connectionDirectionInbound)]
     (lone_mesh ''m'' ''a'')) ''a'' = Some 1"
proof -
  have m: "fmlookup (mg_peers (lone_mesh self peer)) peer = Some (sample_peer peer None)"
    "mg_nodeID (lone_mesh self peer) = self" "unused_cid (lone_mesh self peer) i" for self peer i
    by (simp_all add: lone_mesh_def unused_cid_def scheduled_def)
  have "ps_conn (sample_peer p None) = None" for p by (simp add: sample_peer_def)
  then show ?thesis
    using crossed_connections_converge [where a = "''a''" and b = "''m''" and x = 1 and y = 2 and x' = 1 and y' = 2
        and xs = "[(1, connectionDirectionOutbound), (2, connectionDirectionInbound)]"
        and ys = "[(2, connectionDirectionOutbound), (1, connectionDirectionInbound)]",
        OF _ lone_mesh_inv m(2,1) _ m(3,3) _ lone_mesh_inv m(2,1) _ m(3,3)]
    by simp
qed

text \<open>C28: A broadcast of a frame within the size limit: it reports no error exactly if every active
connection took the frame, each active connection that took it has it at the end of its queue,
the others are untouched, and the order in which the peer table is traversed does not matter.\<close>

theorem broadcast_reaches_all:
  assumes "mesh_inv m" and "enumerates order m" and "int (length frame) \<le> o_MaxFrameBytes (mg_opts m)"
  shows "(snd (Broadcast pick order ctx frame m) = None \<longleftrightarrow> (\<forall>p. send_result pick ctx frame m p = None))
    \<and> (\<forall>p cid c. active_conn m p = Some cid \<longrightarrow> fmlookup (mg_conns m) cid = Some c \<longrightarrow>
         fmlookup (mg_conns (fst (Broadcast pick order ctx frame m))) cid = Some
           (if send_result pick ctx frame m p = None then c\<lparr>mc_sendQ := mc_sendQ c @ [frame]\<rparr> else c))
    \<and> (\<forall>cid. (\<forall>p. active_conn m p \<noteq> Some cid) \<longrightarrow>
         fmlookup (mg_conns (fst (Broadcast pick order ctx frame m))) cid = fmlookup (mg_conns m) cid)"
  using Broadcast_result [where order = order and pick = pick and e = ctx, OF assms(1) _ _ assms(3)] assms(2)
  by (simp add: enumerates_def)

theorem broadcast_reaches_all_witness:
  "fmlookup (mg_conns (fst (Broadcast (\<lambda>_. 0) [''a'', ''z''] None ''x'' sample_mesh))) 7
     = Some ((sample_conn connectionDirectionInbound ''a'')\<lparr>mc_sendQ := [''x'']\<rparr>)"
proof -
  have "send_result (\<lambda>_. 0) None ''x'' sample_mesh ''a'' = None"
    by (simp add: send_result_def sample_mesh_active) (simp add: enqueue_def enqueue_ready_def sample_conn_def)
  then show ?thesis
    using broadcast_reaches_all [OF sample_mesh_inv sample_mesh_order, of "''x''" "\<lambda>_. 0" None] sample_mesh_active
    by (simp add: sample_conn_def) (simp add: sample_mesh_def sample_options_def defaultMaxFrameBytes_def)
qed

text \<open>\<open>Send\<close> refuses an oversized frame, an unknown or unconnected peer and everything before
\<open>Start\<close>, without any effect; to a connected peer whose queue has room it appends the frame,
and a full queue is reported at once instead of blocking.\<close>

lemma send_outcomes:
  assumes "mesh_inv m"
  shows "Send pick None p frame m =
    (if o_MaxFrameBytes (mg_opts m) < int (length frame) then (m, Some ErrInvalidFrame)
     else if \<not> mg_started m then (m, Some ErrManagerNotStarted)
     else if fmlookup (mg_peers m) p = None then (m, Some ErrPeerNotFound)
     else case active_conn m p of
            None \<Rightarrow> (m, Some ErrPeerNotConnected)
          | Some cid \<Rightarrow>
              let c = the (fmlookup (mg_conns m) cid)
              in if mc_cancelled c then
                   (set_conn cid (snd (enqueue pick None c frame)) m, fst (enqueue pick None c frame))
                 else if length (mc_sendQ c) < mc_sendCap c then
                   (set_conn cid (c\<lparr>mc_sendQ := mc_sendQ c @ [frame]\<rparr>) m, None)
                 else (set_conn cid c m, Some ErrSendQueueFull))"
proof (cases "active_conn m p")
  case None
  then show ?thesis
    by (cases "fmlookup (mg_peers m) p") (simp_all add: Send_def peerState_of_def active_conn_def)
next
  case (Some cid)
  then obtain ps c where ps: "fmlookup (mg_peers m) p = Some ps" "ps_conn ps = Some cid"
      and c: "fmlookup (mg_conns m) cid = Some c"
    using mesh_invD(3) [OF assms] unfolding active_conn_Some by blast
  then show ?thesis
    using Some by (auto simp: Send_def peerState_of_def enqueue_to_def case_prod_unfold enqueue_def
        enqueue_ready_def Let_def)
qed

section \<open>The peer table\<close>

lemma in_enumeration: "enumerates order m \<Longrightarrow> p \<in> set order \<longleftrightarrow> fmlookup (mg_peers m) p \<noteq> None"
  by (simp add: enumerates_def) (metis fmdomE fmdomI option.distinct(1) not_None_eq)

lemma fold_update_peer:
  assumes "distinct order"
  shows "fmlookup (mg_peers (fold (\<lambda>p. update_peer p f) order m)) q =
    (if q \<in> set order then map_option f (fmlookup (mg_peers m) q) else fmlookup (mg_peers m) q)"
  using assms by (induction order arbitrary: m) auto

text \<open>Pruning changes exactly the peers that were discovered and have not been seen for longer
than \<open>PeerStaleAfter\<close>: their discovery data is cleared and they are no longer dialled, while their
connection stays. Every other peer is as before, whatever the order of the traversal.\<close>

lemma prune_exactly_stale:
  assumes "enumerates order m" and "fmlookup (mg_peers m) p = Some ps"
  shows "\<exists>ps'. fmlookup (mg_peers (pruneStalePeers order now m)) p = Some ps'
    \<and> (if ps_discovered ps \<and> peer_LastSeen (ps_peer ps) \<noteq> 0
          \<and> time_sub now (peer_LastSeen (ps_peer ps)) > o_PeerStaleAfter (mg_opts m)
       then \<not> ps_discovered ps' \<and> peer_Addresses (ps_peer ps') = [] \<and> ps_conn ps' = ps_conn ps
            \<and> (snd (prepareDial p (pruneStalePeers order now m)) = None)
       else ps' = ps)"
proof -
  have opts: "mg_opts (fold (\<lambda>p m. update_peer p (prune_peer (o_PeerStaleAfter (mg_opts m)) now) m) xs n) = mg_opts n"
    for xs n by (induction xs arbitrary: n) auto
  have "fold (\<lambda>p m. update_peer p (prune_peer (o_PeerStaleAfter (mg_opts m)) now) m) xs n =
      fold (\<lambda>p. update_peer p (prune_peer (o_PeerStaleAfter (mg_opts n)) now)) xs n" for xs n
    by (induction xs arbitrary: n) auto
  then have "fmlookup (mg_peers (pruneStalePeers order now m)) p =
      Some (prune_peer (o_PeerStaleAfter (mg_opts m)) now ps)"
    using fold_update_peer [of order "prune_peer (o_PeerStaleAfter (mg_opts m)) now" m p] assms
      in_enumeration [OF assms(1)] by (simp add: pruneStalePeers_def enumerates_def)
  then show ?thesis
    by (auto simp: prune_peer_def prepareDial_def)
qed

definition stale_mesh :: Manager where
  "stale_mesh = sample_mesh\<lparr>mg_peers := fmupd ''z''
     ((sample_peer ''z'' None)\<lparr>ps_discovered := True,
        ps_peer := (ps_peer (sample_peer ''z'' None))\<lparr>peer_LastSeen := 5\<rparr>\<rparr>) fmempty\<rparr>"

text \<open>C29: \<open>Peers\<close> returns one snapshot for every entry of the peer table, strictly sorted by
identifier, and the same list for every order in which the table may be traversed.\<close>

theorem peers_snapshot:
  assumes inv: "mesh_inv m" and ord: "enumerates order m"
  shows "sorted_wrt (<) (map peer_ID (Peers order m))
    \<and> set (Peers order m) = {snapshot ps | p ps. fmlookup (mg_peers m) p = Some ps}
    \<and> (\<forall>order'. enumerates order' m \<longrightarrow> Peers order' m = Peers order m)"
proof -
  let ?peer = "\<lambda>p. snapshot (the (fmlookup (mg_peers m) p))"
  have eq: "Peers xs m = sort_key peer_ID (map ?peer xs)" if "enumerates xs m" for xs
  proof -
    have "\<forall>p \<in> set xs. fmlookup (mg_peers m) p \<noteq> None" using in_enumeration [OF that] by blast
    then have "concat (map (\<lambda>p. case fmlookup (mg_peers m) p of None \<Rightarrow> [] | Some ps \<Rightarrow> [snapshot ps]) xs) =
        map ?peer xs"
      by (induction xs) auto
    then show ?thesis by (simp add: Peers_def)
  qed
  have id: "peer_ID (?peer p) = p" if "fmlookup (mg_peers m) p \<noteq> None" for p
    using that mesh_invD(2) [OF inv] by (auto simp: snapshot_def peerCopyLocked_def Let_def peer_inv_def)
  have ids: "map (peer_ID \<circ> ?peer) xs = xs" if "enumerates xs m" for xs
    using in_enumeration [OF that] id by (intro map_idI) simp
  have dist: "distinct (map peer_ID (Peers xs m))" if "enumerates xs m" for xs
  proof -
    have "mset (map peer_ID (Peers xs m)) = mset (map peer_ID (map ?peer xs))"
      by (simp add: eq [OF that] multiset.map_comp comp_def)
    also have "\<dots> = mset xs" by (simp only: map_map ids [OF that])
    finally have "mset (map peer_ID (Peers xs m)) = mset xs" .
    then show ?thesis using that mset_eq_imp_distinct_iff unfolding enumerates_def by blast
  qed
  have sorted: "sorted_wrt (<) (map peer_ID (Peers xs m))" if "enumerates xs m" for xs
    unfolding strict_sorted_iff using dist [OF that] by (simp add: eq [OF that])
  have set: "set (Peers xs m) = {snapshot ps | p ps. fmlookup (mg_peers m) p = Some ps}" if "enumerates xs m" for xs
    using in_enumeration [OF that] by (force simp: eq [OF that] image_iff)
  have "Peers order' m = Peers order m" if "enumerates order' m" for order'
  proof (rule map_inj_on)
    show "map peer_ID (Peers order' m) = map peer_ID (Peers order m)"
      using sorted [OF that] sorted [OF ord] set [OF that] set [OF ord]
      by (intro strict_sorted_equal) simp_all
    show "inj_on peer_ID (set (Peers order' m) \<union> set (Peers order m))"
      using dist [OF ord] by (simp add: set [OF that] set [OF ord, symmetric] distinct_map)
  qed
  then show ?thesis using sorted [OF ord] set [OF ord] by blast
qed

theorem peers_snapshot_witness:
  "Peers [''z'', ''a''] sample_mesh = Peers [''a'', ''z''] sample_mesh"
proof -
  have "enumerates [''z'', ''a''] sample_mesh" by (auto simp: enumerates_def sample_mesh_def)
  then show ?thesis using peers_snapshot [OF sample_mesh_inv sample_mesh_order] by blast
qed

section \<open>Discovery and dialling\<close>

text \<open>After a good service entry for a peer this node should dial and is not connected to, the
peer's dial loop exists and is signalled, and its next \<open>prepareDial\<close> returns the advertised
addresses, port and path, with a delay that is positive and at most the maximum.\<close>

lemma discovered_peer_is_dialled:
  assumes inv: "mesh_inv m" and entry: "peerFromEntry now entry = Inr (peer, meta)"
    and dial: "shouldDial (mg_nodeID m) (peer_ID peer)" and free: "active_conn m (peer_ID peer) = None"
  shows "loop_started (handleServiceEntry now entry m) (peer_ID peer)
    \<and> signalled (handleServiceEntry now entry m) (peer_ID peer)
    \<and> (\<exists>target delay. snd (prepareDial (peer_ID peer) (handleServiceEntry now entry m))
          = Some (target, sm_wsPath meta, delay)
        \<and> peer_ID target = peer_ID peer \<and> peer_Addresses target = peer_Addresses peer
        \<and> peer_Port target = peer_Port peer
        \<and> 0 < delay \<and> delay \<le> o_ReconnectMaxBackoff (mg_opts m))"
proof -
  let ?m = "handleServiceEntry now entry m" and ?p = "peer_ID peer"
  have ne: "?p \<noteq> mg_nodeID m" using dial by (auto simp: shouldDial_def)
  define ps where "ps = triggerReconnect ((discover_peer peer meta
      (case fmlookup (mg_peers m) ?p of Some ps \<Rightarrow> ps | None \<Rightarrow> new_peerState ?p))\<lparr>ps_dialLoopStarted := True\<rparr>)"
  have look: "fmlookup (mg_peers ?m) ?p = Some ps"
    using dial by (simp add: handleServiceEntry_lookup [OF entry ne] ps_def Let_def)
  have ps: "ps_conn ps = None" "ps_discovered ps" "ps_dialLoopStarted ps" "ps_reconnectCh ps"
    "ps_wsPath ps = sm_wsPath meta" "peer_Addresses (ps_peer ps) = peer_Addresses peer"
    "peer_Port (ps_peer ps) = peer_Port peer"
    using free by (auto simp: ps_def active_conn_def discover_peer_def new_peerState_def split: option.splits)
  have id: "ps_id ps = ?p"
    using mesh_invD(2) [OF handleServiceEntry_inv [OF inv] look] by (simp add: peer_inv_def)
  obtain delay where "0 < delay" "delay \<le> o_ReconnectMaxBackoff (mg_opts m)"
      "snd (prepareDial ?p ?m) = Some (peerCopyLocked ps, ps_wsPath ps, delay)"
    using handleServiceEntry_inv [OF inv, of now entry]
  proof (cases rule: prepareDial_cases [of ?m ?p])
    case no
    then show ?thesis using look ps dial by simp
  next
    case (dial ps' delay)
    then show ?thesis using look that by simp
  qed
  then show ?thesis
    using look ps id by (simp add: loop_started_def signalled_def peerCopyLocked_def Let_def)
qed

definition sample_entry :: ServiceEntry where
  "sample_entry =
     \<lparr>se_Instance = ''clippy-x'', se_HostName = ''x.local.'', se_Port = 7000,
      se_Text = discoveryText ''x'' ''box'' ''/ws'', se_AddrIPv4 = [Some (map char_of [10::nat, 0, 0, 2])],
      se_AddrIPv6 = []\<rparr>"

lemma sample_entry_peer:
  "peerFromEntry 5 (Some sample_entry) = Inr (\<lparr>peer_ID = ''x'', peer_Name = ''box'', peer_Host = ''x.local'',
     peer_Port = 7000, peer_Addresses = [map char_of [10::nat, 0, 0, 2]], peer_Connected = False,
     peer_LastSeen = 5\<rparr>, \<lparr>sm_id = ''x'', sm_name = ''box'', sm_wsPath = ''/ws'', sm_proto = protocolVersion\<rparr>)"
proof -
  have t: "trim_space ''x'' = ''x''" "trim_space ''box'' = ''box''" "trim_space ''/ws'' = ''/ws''"
    "has_prefix ''/'' ''/ws''" "trim_suffix ''x.local.'' ''.'' = ''x.local''"
    "\<not> ip_IsUnspecified (map char_of [10::nat, 0, 0, 2])"
    by code_simp+
  have "normalizeIPs [[Some (map char_of [10::nat, 0, 0, 2])], []] = [map char_of [10::nat, 0, 0, 2]]"
    using t(6) by (simp add: normalizeIPs_def)
  then show ?thesis
    using t by (simp add: peerFromEntry_def sample_entry_def parseTXT_discoveryText Let_def)
qed

section \<open>Inbound requests\<close>

text \<open>An HTTP request that names no node, speaks another protocol version, comes from this node
itself, is for another path or fails to upgrade is answered without touching any state; a
request that is accepted leaves the peer with an active connection.\<close>

lemma inbound_requests:
  assumes inv: "mesh_inv m" and fresh: "fmlookup (mg_conns m) cid = None"
  shows "case handleWebSocket r upgraded cid m of (m', reply) \<Rightarrow>
    (reply = Switched \<longleftrightarrow> wr_path r = o_WebSocketPath (mg_opts m) \<and> wr_nodeID r \<noteq> ''''
        \<and> wr_proto r = protocolVersion \<and> wr_nodeID r \<noteq> mg_nodeID m \<and> upgraded)
    \<and> (reply = Switched \<longrightarrow> active_conn m' (wr_nodeID r) \<noteq> None)
    \<and> (reply \<noteq> Switched \<longrightarrow> m' = m)"
proof -
  let ?rename = "\<lambda>ps. if wr_nodeName r \<noteq> ''''
      then ps\<lparr>ps_peer := (ps_peer ps)\<lparr>peer_Name := wr_nodeName r\<rparr>\<rparr> else ps"
  let ?m = "update_peer (wr_nodeID r) ?rename (getOrCreatePeer (wr_nodeID r) m)"
  have "active_conn (attach_or_close (wr_nodeID r) cid conn ?m) (wr_nodeID r) \<noteq> None"
    if "wr_nodeID r \<noteq> mg_nodeID m" for conn
  proof -
    have "mesh_inv ?m"
      using that inv by (intro update_peer_inv getOrCreatePeer_inv) (auto intro: peer_inv_rename)
    moreover obtain ps where "fmlookup (mg_peers ?m) (wr_nodeID r) = Some ps"
      by (cases "fmlookup (mg_peers m) (wr_nodeID r)") simp_all
    ultimately have "has_conn (attach_or_close (wr_nodeID r) cid conn ?m) (wr_nodeID r)"
      by (rule quiet_attach(2))
    then show ?thesis by (auto simp: has_conn_def active_conn_def split: option.splits)
  qed
  then show ?thesis by (auto simp: handleWebSocket_def Let_def)
qed

section \<open>Shutdown\<close>

lemma close_active_sel:
  "mg_peers (close_active p m) = mg_peers m" "mg_goClose (close_active p m) = mg_goClose m"
  "mg_ctxDone (close_active p m) = mg_ctxDone m"
  by (simp_all add: close_active_def split: option.split)

lemma close_active_conns:
  "fmlookup (mg_conns (close_active p m)) cid =
     (if active_conn m p = Some cid then map_option (close_conn ''manager shutting down'') (fmlookup (mg_conns m) cid)
      else fmlookup (mg_conns m) cid)"
  by (auto simp: close_active_def active_conn_def split: option.splits)

lemma shutdown_closes:
  assumes "fmlookup (mg_conns (fold close_active order m)) cid = Some c'" and "mc_closed c' = None"
  shows "fmlookup (mg_conns m) cid = Some c' \<and> (\<forall>p \<in> set order. active_conn m p \<noteq> Some cid)"
  using assms
proof (induction order arbitrary: m)
  case (Cons p order)
  have same: "active_conn (close_active p m) q = active_conn m q" for q
    by (simp add: active_conn_def close_active_sel)
  have IH: "fmlookup (mg_conns (close_active p m)) cid = Some c'"
    "\<forall>q \<in> set order. active_conn m q \<noteq> Some cid"
    using Cons.IH [of "close_active p m"] Cons.prems by (simp_all add: same)
  have "active_conn m p \<noteq> Some cid"
    using IH(1) Cons.prems(2) close_conn_frame(4) [of "''manager shutting down''" "the (fmlookup (mg_conns m) cid)"]
    by (auto simp: close_active_conns)
  then show ?case using IH by (simp add: close_active_conns)
qed simp

text \<open>After \<open>shutdown\<close> every connection's context is cancelled, so its pumps stop, no send to it
succeeds, and every connection is closed except those already left to a goroutine that will
close them.\<close>

lemma shutdown_closes_all:
  assumes inv: "mesh_inv m" and ord: "enumerates order m"
    and conn: "fmlookup (mg_conns (shutdown order m)) cid = Some c"
  shows "mc_cancelled c \<and> (mc_closed c \<noteq> None \<or> scheduled (shutdown order m) cid)
    \<and> mg_ctxDone (shutdown order m)"
proof -
  have peers: "mg_peers (fold close_active xs n) = mg_peers n" "mg_goClose (fold close_active xs n) = mg_goClose n"
    "mg_ctxDone (fold close_active xs n) = mg_ctxDone n" for xs n
    by (induction xs arbitrary: n) (simp_all add: close_active_sel)
  have inv': "mesh_inv (shutdown order m)" using inv by (rule shutdown_inv)
  have ctx: "mg_ctxDone (shutdown order m)" by (simp add: shutdown_def peers)
  have "scheduled (shutdown order m) cid" if closed: "mc_closed c = None"
  proof (rule ccontr)
    assume "\<not> scheduled (shutdown order m) cid"
    then have "attached (shutdown order m) cid c"
      using mesh_invD(6) [OF inv' conn closed] by blast
    then obtain ps where "fmlookup (mg_peers m) (mc_peerID c) = Some ps" "ps_conn ps = Some cid"
      by (auto simp: attached_def shutdown_def peers)
    then have "active_conn (cancel_ctx m) (mc_peerID c) = Some cid" "mc_peerID c \<in> set order"
      using in_enumeration [OF ord] by (simp_all add: active_conn_def)
    then show False
      using shutdown_closes [of order "cancel_ctx m" cid c] conn closed by (simp add: shutdown_def)
  qed
  then show ?thesis using mesh_invD(5) [OF inv' conn ctx] ctx by blast
qed

end
