(* ===== verification/MeshSystemProperties.thy ===== *)
theory MeshSystemProperties
  imports MeshProperties
begin

text \<open>
  The properties of the mesh manager as a system: what holds in every state that any
  interleaving of its goroutines can reach from a new manager.
\<close>

section \<open>A new manager\<close>

text \<open>C33: Every manager \<open>NewManager\<close> returns has usable settings: positive intervals, timeouts, queue
and frame sizes, a port that is not negative, a retry range that is not empty, and non-empty
identifier, service name, domain and path whenever the random source and the host name give
one. It has no peer and no connection.\<close>

theorem new_manager_settings:
  assumes "NewManager raw hostname opts handler_nil = Inr m"
  shows "\<not> handler_nil \<and> 0 < o_ReconnectMinBackoff (mg_opts m)
    \<and> o_ReconnectMinBackoff (mg_opts m) \<le> o_ReconnectMaxBackoff (mg_opts m)
    \<and> 0 < o_SendQueueSize (mg_opts m) \<and> 0 < o_MaxFrameBytes (mg_opts m) \<and> 0 \<le> o_Port (mg_opts m)
    \<and> 0 < o_PeerStaleAfter (mg_opts m) \<and> 0 < o_HeartbeatInterval (mg_opts m)
    \<and> 0 < o_PongTimeout (mg_opts m) \<and> 0 < o_BrowseCycle (mg_opts m)
    \<and> o_ServiceName (mg_opts m) \<noteq> '''' \<and> o_Domain (mg_opts m) \<noteq> '''' \<and> o_WebSocketPath (mg_opts m) \<noteq> ''''
    \<and> mg_nodeID m = o_NodeID (mg_opts m) \<and> mg_peers m = fmempty \<and> mg_conns m = fmempty"
proof -
  note w = NewManager_Inr(1) [OF assms]
  have "o_ServiceName (mg_opts m) \<noteq> '''' \<and> o_Domain (mg_opts m) \<noteq> '''' \<and> o_WebSocketPath (mg_opts m) \<noteq> ''''"
    by (simp add: withDefaults_names [OF w] or_default_string_def defaultServiceName_def
        defaultDomain_def defaultWebSocketPath_def)
  moreover have "\<not> handler_nil" using assms by (auto simp: NewManager_def)
  ultimately show ?thesis
    using withDefaults_Inr [OF w] NewManager_Inr [OF assms] by simp
qed

definition sample_start :: Manager where
  "sample_start = \<lparr>mg_opts = sample_options, mg_nodeID = ''m'', mg_name = ''here'', mg_peers = fmempty,
     mg_started = False, mg_ctxDone = False, mg_conns = fmempty, mg_goClose = []\<rparr>"

lemma sample_start_new: "NewManager (Inl ''no entropy'') (Inl ''no name'') sample_options False = Inr sample_start"
  by (simp add: NewManager_def withDefaults_def sample_options_def sample_start_def or_default_string_def
      or_default_int_def defaultServiceName_def defaultDomain_def defaultMaxFrameBytes_def Let_def)

theorem new_manager_settings_witness: "0 < o_SendQueueSize (mg_opts sample_start)"
  using new_manager_settings [OF sample_start_new] by blast

section \<open>Reachable states\<close>

lemma reachable_system_inv:
  assumes "NewManager raw hostname opts handler_nil = Inr m0" and "o_ReconnectMaxBackoff opts < 2 ^ 62"
    and "mesh_reachable m0 s"
  shows "system_inv s"
  using mesh_reachable_inv [OF assms(3) NewManager_inv [OF assms(1,2)] NewManager_Inr(2) [OF assms(1)]] .

text \<open>C12: In every reachable state: the peer table never holds the node itself; a peer is shown as
connected exactly if it has an active connection, which then is one to that peer with its pumps
running; no send queue exceeds its capacity; and no connection leaks: one that is not closed is
its peer's active connection or already left to a goroutine that closes it.\<close>

theorem mesh_system_safe:
  assumes "NewManager raw hostname opts handler_nil = Inr m0" and "o_ReconnectMaxBackoff opts < 2 ^ 62"
    and "mesh_reachable m0 s"
  shows "(\<forall>p ps. fmlookup (mg_peers (ms_mgr s)) p = Some ps \<longrightarrow>
       p \<noteq> mg_nodeID (ms_mgr s)
       \<and> (peer_Connected (snapshot ps) \<longleftrightarrow> active_conn (ms_mgr s) p \<noteq> None)
       \<and> (\<forall>cid. active_conn (ms_mgr s) p = Some cid \<longrightarrow>
            (\<exists>c. fmlookup (mg_conns (ms_mgr s)) cid = Some c \<and> mc_peerID c = p \<and> mc_started c)))
    \<and> (\<forall>cid c. fmlookup (mg_conns (ms_mgr s)) cid = Some c \<longrightarrow>
         length (mc_sendQ c) \<le> mc_sendCap c
         \<and> (mc_closed c = None \<longrightarrow>
              active_conn (ms_mgr s) (mc_peerID c) = Some cid \<or> scheduled (ms_mgr s) cid))"
proof -
  have inv: "mesh_inv (ms_mgr s)"
    using system_invD(1) [OF reachable_system_inv [OF assms]] .
  have "p \<noteq> mg_nodeID (ms_mgr s) \<and> (peer_Connected (snapshot ps) \<longleftrightarrow> active_conn (ms_mgr s) p \<noteq> None)"
    if "fmlookup (mg_peers (ms_mgr s)) p = Some ps" for p ps
    using mesh_invD(2) [OF inv that] that
    by (simp add: peer_inv_def snapshot_def peerCopyLocked_def Let_def active_conn_def)
  moreover have "\<exists>c. fmlookup (mg_conns (ms_mgr s)) cid = Some c \<and> mc_peerID c = p \<and> mc_started c"
    if "active_conn (ms_mgr s) p = Some cid" for p cid
    using that mesh_invD(3) [OF inv] unfolding active_conn_Some by blast
  moreover have "length (mc_sendQ c) \<le> mc_sendCap c \<and> (mc_closed c = None \<longrightarrow>
      active_conn (ms_mgr s) (mc_peerID c) = Some cid \<or> scheduled (ms_mgr s) cid)"
    if "fmlookup (mg_conns (ms_mgr s)) cid = Some c" for cid c
    using mesh_invD(4,6) [OF inv that] by (auto simp: conn_inv_def attached_def active_conn_Some)
  ultimately show ?thesis by blast
qed

text \<open>The state after the table has been updated for the first service entry.\<close>

definition sample_found :: MeshState where
  "sample_found = (initial_state sample_start)\<lparr>
     ms_mgr := fst (service_update 5 (Some sample_entry) sample_start), ms_ensures := [''x'']\<rparr>"

lemma sample_found_update:
  "service_update 5 (Some sample_entry) sample_start = (ms_mgr sample_found, Some ''x'')"
proof -
  have "snd (service_update 5 (Some sample_entry) sample_start) = Some ''x''"
    by (simp add: service_update_def sample_entry_peer Let_def) (simp add: sample_start_def shouldDial_def)
  then show ?thesis by (simp add: sample_found_def prod_eq_iff)
qed

lemma sample_found_reachable: "mesh_reachable sample_start sample_found"
proof -
  have "mesh_step (initial_state sample_start) ((initial_state sample_start)\<lparr>ms_mgr := ms_mgr sample_found,
      ms_ensures := with_call (Some ''x'') (ms_ensures (initial_state sample_start))\<rparr>)"
    by (rule mesh_step.service [of 5 "Some sample_entry"]) (simp add: initial_state_def sample_found_update)
  moreover have "sample_found = (initial_state sample_start)\<lparr>ms_mgr := ms_mgr sample_found,
      ms_ensures := with_call (Some ''x'') (ms_ensures (initial_state sample_start))\<rparr>"
    by (simp add: sample_found_def initial_state_def with_call_def)
  ultimately have "mesh_step (initial_state sample_start) sample_found" by metis
  then show ?thesis by (rule mesh_reachable.step [OF mesh_reachable.init])
qed

lemma sample_backoff: "o_ReconnectMaxBackoff sample_options < 2 ^ 62"
  by (simp add: sample_options_def)

lemma sample_found_peer:
  "mg_nodeID (ms_mgr sample_found) = ''m''" "shouldDial ''m'' ''x''" "\<not> mg_ctxDone (ms_mgr sample_found)"
  "\<exists>ps. fmlookup (mg_peers (ms_mgr sample_found)) ''x'' = Some ps \<and> ps_discovered ps \<and> ps_conn ps = None"
proof -
  show d: "shouldDial ''m'' ''x''" by (simp add: shouldDial_def)
  show "mg_nodeID (ms_mgr sample_found) = ''m''" "\<not> mg_ctxDone (ms_mgr sample_found)"
    by (simp_all add: sample_found_def) (simp_all add: sample_start_def)
  show "\<exists>ps. fmlookup (mg_peers (ms_mgr sample_found)) ''x'' = Some ps \<and> ps_discovered ps \<and> ps_conn ps = None"
  proof (cases rule: service_update_cases [of 5 "Some sample_entry" sample_start])
    case ignored
    then show ?thesis using sample_found_update by simp
  next
    case (found peer meta)
    then have "peer_ID peer = ''x''" by (auto simp: sample_entry_peer)
    then show ?thesis
      using found(3) [of "''x''"] by (simp add: sample_found_def) (simp add: sample_start_def new_peerState_def)
  qed
qed

theorem mesh_system_safe_witness: "\<exists>ps. fmlookup (mg_peers (ms_mgr sample_found)) ''x'' = Some ps
    \<and> \<not> peer_Connected (snapshot ps)"
proof -
  obtain ps where ps: "fmlookup (mg_peers (ms_mgr sample_found)) ''x'' = Some ps" "ps_conn ps = None"
    using sample_found_peer(4) by blast
  then show ?thesis
    using mesh_system_safe [OF sample_start_new sample_backoff sample_found_reachable]
    by (auto simp: active_conn_def)
qed

text \<open>At most one connection per peer stays: of two connections to the same peer that are both
neither closed nor about to be closed, in any reachable state, both are the same one.\<close>

lemma one_connection_per_peer:
  assumes "NewManager raw hostname opts handler_nil = Inr m0" and "o_ReconnectMaxBackoff opts < 2 ^ 62"
    and "mesh_reachable m0 s"
    and "fmlookup (mg_conns (ms_mgr s)) i = Some c" "mc_closed c = None" "\<not> scheduled (ms_mgr s) i"
    and "fmlookup (mg_conns (ms_mgr s)) j = Some d" "mc_closed d = None" "\<not> scheduled (ms_mgr s) j"
    and "mc_peerID c = mc_peerID d"
  shows "i = j"
proof -
  have inv: "mesh_inv (ms_mgr s)"
    using system_invD(1) [OF reachable_system_inv [OF assms(1-3)]] .
  have "attached (ms_mgr s) i c" "attached (ms_mgr s) j d"
    using mesh_invD(6) [OF inv] assms(4-9) by blast+
  then show ?thesis using assms(10) by (auto simp: attached_def)
qed

section \<open>Calls\<close>



section \<open>No peer is forgotten\<close>

text \<open>C11: No wake-up is lost. In every reachable state of a running manager, a discovered peer that this
node should dial and that has no connection has a dial loop, or one is about to be started;
that loop has not ended and does not sleep unless its wake-up signal is set or about to be set;
and from that state the system can run on to a dial of the peer.\<close>

theorem no_lost_wakeup:
  assumes "NewManager raw hostname opts handler_nil = Inr m0" and "o_ReconnectMaxBackoff opts < 2 ^ 62"
    and "mesh_reachable m0 s" and running: "\<not> mg_ctxDone (ms_mgr s)"
    and peer: "fmlookup (mg_peers (ms_mgr s)) p = Some ps" "ps_discovered ps" "ps_conn ps = None"
    and dial: "shouldDial (mg_nodeID (ms_mgr s)) p"
  shows "(p \<in> set (ms_ensures s) \<or> (\<exists>pc. fmlookup (ms_loops s) p = Some pc \<and> pc \<noteq> DialEnded
        \<and> (pc = DialIdle \<longrightarrow> ps_reconnectCh ps \<or> p \<in> set (ms_wakes s))))
    \<and> (\<exists>s' peer wsPath delay. mesh_run s s' \<and> mesh_reachable m0 s'
        \<and> fmlookup (ms_loops s') p = Some (DialCalling peer wsPath delay))"
proof -
  have inv: "system_inv s" by (rule reachable_system_inv [OF assms(1-3)])
  have owed: "owed s p ps" by (rule system_invD(3) [OF inv peer(1)])
  have "fmlookup (ms_loops s) p \<noteq> Some DialEnded" using system_invD(2) [OF inv] running by blast
  then have "p \<in> set (ms_ensures s) \<or> (\<exists>pc. fmlookup (ms_loops s) p = Some pc \<and> pc \<noteq> DialEnded
      \<and> (pc = DialIdle \<longrightarrow> ps_reconnectCh ps \<or> p \<in> set (ms_wakes s)))"
    using owed peer dial by (cases "fmlookup (ms_loops s) p") (auto simp: wake_inv_def)
  moreover obtain s' where s': "mesh_run s s'" "calling s' p"
    using pursued_calls [OF inv _ running, of p] peer dial by (auto simp: pursued_def)
  ultimately show ?thesis
    using mesh_run_reachable [OF s'(1) assms(3)] by (auto simp: calling_def)
qed

theorem no_lost_wakeup_witness:
  "\<exists>s' peer wsPath delay. mesh_reachable sample_start s'
     \<and> fmlookup (ms_loops s') ''x'' = Some (DialCalling peer wsPath delay)"
proof -
  obtain ps where "fmlookup (mg_peers (ms_mgr sample_found)) ''x'' = Some ps" "ps_discovered ps" "ps_conn ps = None"
    using sample_found_peer(4) by blast
  then show ?thesis
    using no_lost_wakeup [OF sample_start_new sample_backoff sample_found_reachable sample_found_peer(3)]
      sample_found_peer(1,2) by metis
qed

end
