(* ===== verification/NodeProperties.thy ===== *)
theory NodeProperties
  imports NodeRuns ClipProperties MeshSystemProperties
begin

text \<open>
  The properties of a whole node: the clipboard manager, the mesh manager and the runtime that
  ties them together, in every state that any interleaving of all their goroutines reaches
  after \<open>Runtime.Start\<close>.
\<close>

section \<open>A node and a run of it\<close>

definition sample_node_deps :: "(bytes, (clipFormat \<times> bytes) list) node_deps" where
  "sample_node_deps =
     \<lparr>nd_clip = sample_deps, nd_marshal = sample_marshal, nd_marshal_chunk = frame_encode,
      nd_unmarshal = sample_unmarshal, nd_unmarshal_chunk = frame_decode, nd_canceled = ''context canceled''\<rparr>"

abbreviation sample_start_node :: "(clipFormat \<times> bytes) list node" where
  "sample_start_node \<equiv> started_node 0 0 [] sample_start"

abbreviation sample_evt :: observedEvent where
  "sample_evt \<equiv> \<lparr>oe_bucket = textBucket, oe_data = ''hello''\<rparr>"

abbreviation unix_epoch :: time where
  "unix_epoch \<equiv> 62135596800000000000"

text \<open>The user copies a text at the Unix epoch: one payload is put on \<open>Events()\<close>.\<close>

lemma sample_evt_payload: "event_payload (\<lambda>_. None) unix_epoch sample_evt = Inr sample_payload"
proof -
  have "classifyTextPayload (\<lambda>_. None) ''hello'' = PAYLOAD_TYPE_TEXT"
    by (simp add: classifyTextPayload_def Let_def)
  then show ?thesis
    using sample_valid
    by (simp add: event_payload_def buildTextPayload_def NewPayload_Inr unix_milli_def) (simp add: sample_payload_def)
qed

lemma sample_watch:
  "watch_receive textBucket 0 (newPendingLedger defaultPendingTTL) (Some ''hello'') =
     (newPendingLedger defaultPendingTTL, Some sample_evt)"
  by (simp add: watch_receive_def consume_def pruneLocked_def newPendingLedger_def Let_def)

lemma quiet_clip_step:
  assumes "clip_step (nd_clip D) c c'" and "cl_applying c' = cl_applying c" and "cl_events c' = cl_events c"
  shows "node_step D R (s\<lparr>n_clip := c\<rparr>) (s\<lparr>n_clip := c'\<rparr>)"
  using node_step.clip [of D "s\<lparr>n_clip := c\<rparr>" c' "[]"] assms by simp

text \<open>The clipboard manager on the way: the event observed, queued, batched, offered, emitted.\<close>

abbreviation copying :: "time \<Rightarrow> watcher \<Rightarrow> observedEvent list \<Rightarrow> processor \<Rightarrow> ClipboardPayload list
    \<Rightarrow> (clipFormat \<times> bytes) list clip_sys" where
  "copying t w obs proc evs \<equiv> (started_clip 0 0 [])\<lparr>cl_now := t, cl_watch := (\<lambda>_. WatchReceiving)(textBucket := w),
     cl_observed := obs, cl_proc := proc, cl_events := evs\<rparr>"

definition copied_node :: "(clipFormat \<times> bytes) list node" where
  "copied_node = sample_start_node\<lparr>n_clip := copying unix_epoch WatchReceiving [] (ProcEmitting []) [sample_payload],
     n_emitted := [sample_payload]\<rparr>"

lemmas copying_simps = started_clip_def newManagerWithBackend_def Let_def defaultEventBuffer_def
  sample_deps_def batch_events_def batch_put_def fun_eq_iff

lemma copying_steps:
  fixes b :: batch
  defines "b \<equiv> batch_put fmempty sample_evt"
  shows "clip_step sample_deps (copying 0 WatchReceiving [] ProcWaiting []) (copying 0 (WatchSending sample_evt) [] ProcWaiting [])"
    and "clip_step sample_deps (copying 0 (WatchSending sample_evt) [] ProcWaiting [])
      (copying 0 WatchReceiving [sample_evt] ProcWaiting [])"
    and "clip_step sample_deps (copying 0 WatchReceiving [sample_evt] ProcWaiting [])
      (copying 0 WatchReceiving [] (ProcCollecting defaultCoalesceWindow b) [])"
    and "clip_step sample_deps (copying 0 WatchReceiving [] (ProcCollecting defaultCoalesceWindow b) [])
      (copying unix_epoch WatchReceiving [] (ProcCollecting defaultCoalesceWindow b) [])"
    and "clip_step sample_deps (copying unix_epoch WatchReceiving [] (ProcCollecting defaultCoalesceWindow b) [])
      (copying unix_epoch WatchReceiving [] (ProcEmitting [sample_evt]) [])"
    and "clip_step sample_deps (copying unix_epoch WatchReceiving [] (ProcEmitting [sample_evt]) [])
      (copying unix_epoch WatchReceiving [] (ProcOffering sample_payload []) [])"
    and "clip_step sample_deps (copying unix_epoch WatchReceiving [] (ProcOffering sample_payload []) [])
      (copying unix_epoch WatchReceiving [] (ProcEmitting []) [sample_payload])"
proof -
  let ?c = "\<lambda>t w obs proc. copying t w obs proc []"
  show "clip_step sample_deps (?c 0 WatchReceiving [] ProcWaiting) (?c 0 (WatchSending sample_evt) [] ProcWaiting)"
    using clip_step.watch_observe [of "?c 0 WatchReceiving [] ProcWaiting" textBucket "Some ''hello''"
        "newPendingLedger defaultPendingTTL" sample_evt sample_deps] sample_watch
    by (simp add: copying_simps)
  show "clip_step sample_deps (?c 0 (WatchSending sample_evt) [] ProcWaiting) (?c 0 WatchReceiving [sample_evt] ProcWaiting)"
    using clip_step.watch_send [of "?c 0 (WatchSending sample_evt) [] ProcWaiting" textBucket sample_evt sample_deps]
    by (simp add: copying_simps)
  show "clip_step sample_deps (?c 0 WatchReceiving [sample_evt] ProcWaiting)
      (?c 0 WatchReceiving [] (ProcCollecting defaultCoalesceWindow b))"
    using clip_step.proc_first [of "?c 0 WatchReceiving [sample_evt] ProcWaiting" sample_evt "[]" sample_deps]
    by (simp add: copying_simps b_def)
  show "clip_step sample_deps (?c 0 WatchReceiving [] (ProcCollecting defaultCoalesceWindow b))
      (?c unix_epoch WatchReceiving [] (ProcCollecting defaultCoalesceWindow b))"
    using clip_step.tick [of "?c 0 WatchReceiving [] (ProcCollecting defaultCoalesceWindow b)" unix_epoch sample_deps]
    by (simp add: copying_simps b_def)
  show "clip_step sample_deps (?c unix_epoch WatchReceiving [] (ProcCollecting defaultCoalesceWindow b))
      (?c unix_epoch WatchReceiving [] (ProcEmitting [sample_evt]))"
    using clip_step.proc_timer [of "?c unix_epoch WatchReceiving [] (ProcCollecting defaultCoalesceWindow b)"
        defaultCoalesceWindow b sample_deps]
    by (simp add: copying_simps b_def defaultCoalesceWindow_def)
  show "clip_step sample_deps (?c unix_epoch WatchReceiving [] (ProcEmitting [sample_evt]))
      (?c unix_epoch WatchReceiving [] (ProcOffering sample_payload []))"
    using clip_step.proc_offer [of "?c unix_epoch WatchReceiving [] (ProcEmitting [sample_evt])" sample_evt "[]"
        sample_deps sample_payload] sample_evt_payload
    by (simp add: copying_simps)
  show "clip_step sample_deps (?c unix_epoch WatchReceiving [] (ProcOffering sample_payload []))
      (copying unix_epoch WatchReceiving [] (ProcEmitting []) [sample_payload])"
    using clip_step.proc_emit [of "?c unix_epoch WatchReceiving [] (ProcOffering sample_payload [])" sample_payload
        "[]" sample_deps]
    by (simp add: copying_simps)
qed

lemma copied_reached: "node_run sample_node_deps R sample_start_node copied_node"
proof -
  have start: "sample_start_node\<lparr>n_clip := copying 0 WatchReceiving [] ProcWaiting []\<rparr> = sample_start_node"
    by (simp add: started_node_def copying_simps)
  have deps: "nd_clip sample_node_deps = sample_deps" by (simp add: sample_node_deps_def)
  note quiet = quiet_clip_step [of sample_node_deps, unfolded deps, of _ _ R sample_start_node]
  note run = converse_rtranclp_into_rtranclp [where r = "node_step sample_node_deps R"]
  note q1 = quiet [OF copying_steps(1), simplified] and q2 = quiet [OF copying_steps(2), simplified]
    and q3 = quiet [OF copying_steps(3), simplified] and q4 = quiet [OF copying_steps(4), simplified]
    and q5 = quiet [OF copying_steps(5), simplified] and q6 = quiet [OF copying_steps(6), simplified]
  let ?last = "sample_start_node\<lparr>n_clip := copying unix_epoch WatchReceiving [] (ProcOffering sample_payload []) []\<rparr>"
  have "node_run sample_node_deps R (sample_start_node\<lparr>n_clip := copying 0 WatchReceiving [] ProcWaiting []\<rparr>) ?last"
    by (rule run [OF q1] run [OF q2] run [OF q3] run [OF q4] run [OF q5] run [OF q6] rtranclp.rtrancl_refl)+
  moreover have "node_step sample_node_deps R ?last copied_node"
    using node_step.clip [of sample_node_deps ?last "copying unix_epoch WatchReceiving [] (ProcEmitting []) [sample_payload]"
        "[sample_payload]"] copying_steps(7)
    by (simp add: deps copied_node_def started_node_def Let_def)
  ultimately show ?thesis unfolding start by (rule rtranclp.rtrancl_into_rtrancl)
qed


section \<open>The managers inside the node\<close>

text \<open>C5: The composition is sound. In every run of the node, whatever its goroutines do, the clipboard
manager is in a state it reaches by its own steps from a new manager, and so is the mesh
manager: the runtime uses both only through their operations. Hence every theorem about the
reachable states of the one or of the other holds inside the node, their invariants together.\<close>

theorem node_runs_managers:
  assumes "NewManager raw hostname opts handler_nil = Inr m" and "o_ReconnectMaxBackoff opts < 2 ^ 62"
    and "node_run D R (started_node eventBuffer now os m) s"
  shows "clip_reachable (nd_clip D) (newManagerWithBackend eventBuffer now os) (n_clip s)
    \<and> mesh_reachable m (n_mesh s) \<and> clip_inv (n_clip s) \<and> system_inv (n_mesh s)"
proof -
  note start = started_node_inv [OF assms(1,2), of D eventBuffer now os]
  show ?thesis
    using node_run_managers [OF assms(3) start] node_run_inv [OF assms(3) start] by (simp add: node_inv_def)
qed

theorem node_runs_managers_witness:
  "clip_reachable sample_deps (newManagerWithBackend 0 0 []) (n_clip copied_node)
    \<and> cl_events (n_clip copied_node) = [sample_payload]"
  using node_runs_managers [OF sample_start_new sample_backoff copied_reached]
  by (simp add: copied_node_def sample_node_deps_def)

lemma reached_inv:
  assumes "NewManager raw hostname opts handler_nil = Inr m" and "o_ReconnectMaxBackoff opts < 2 ^ 62"
    and "node_run D R (started_node eventBuffer now os m) s"
  shows "node_inv D s"
  using node_run_inv [OF assms(3) started_node_inv [OF assms(1,2)]] .

section \<open>What a node sends and applies\<close>

text \<open>C4: A node sends its own clipboard's payloads, all of them in order, and nothing else. In every
reachable state: what was put on \<open>Events()\<close> is what the runtime has taken followed by what still
waits there; for every payload taken, the frames handed to \<open>Broadcast\<close> are a prefix of the frames
of its chunks; and every frame in the send queue of any connection is one of these frames, so a
payload received from a peer is never relayed. On the other side, every payload about to be
applied is valid, and every running \<open>ApplyRemote\<close> writes what such a payload normalises to.\<close>

theorem node_relays_nothing:
  assumes "NewManager raw hostname opts handler_nil = Inr m" and "o_ReconnectMaxBackoff opts < 2 ^ 62"
    and "node_run D R (started_node eventBuffer now os m) s"
  shows "n_emitted s = map fst (n_batches s) @ cl_events (n_clip s)
    \<and> (\<forall>(p, fs) \<in> set (n_batches s). ValidatePayload (Some p) = None \<and> prefix fs (payload_frames D p))
    \<and> queued (n_mgr s) \<subseteq> (\<Union>(p, fs) \<in> set (n_batches s). set fs)
    \<and> (\<forall>(from, p) \<in> set (n_completed s). ValidatePayload (Some p) = None)
    \<and> list_all2 (call_ok D) (n_calls s) (cl_applying (n_clip s))"
  using reached_inv [OF assms] by (simp add: node_inv_def sent_inv_def received_inv_def ValidatePayload_valid)

text \<open>The witness goes one payload further: it is taken and broadcast.\<close>

lemma copied_env: "free_env (\<lambda>_. (\<lambda>_. 0, [], None)) copied_node"
  by (simp add: free_env_def enumerates_def copied_node_def started_node_def initial_state_def Start_def
      sample_start_def Let_def)

theorem node_relays_nothing_witness:
  "\<exists>s. node_run sample_node_deps any_frame sample_start_node s \<and> cl_events (n_clip s) = []
     \<and> n_emitted s = map fst (n_batches s)
     \<and> queued (n_mgr s) \<subseteq> (\<Union>(p, fs) \<in> set (n_batches s). set fs)"
proof -
  have "n_loop copied_node = ClipSelect" "cl_events (n_clip copied_node) = [sample_payload]"
    by (simp_all add: copied_node_def started_node_def Let_def)
  then obtain s where s: "node_run sample_node_deps any_frame copied_node s"
      "n_clip s = (n_clip copied_node)\<lparr>cl_events := []\<rparr>"
    using clipboard_event_run [OF _ _ copied_env] by metis
  have run: "node_run sample_node_deps any_frame sample_start_node s"
    using rtranclp_trans [OF copied_reached s(1)] .
  then show ?thesis
    using node_relays_nothing [OF sample_start_new sample_backoff run] s(2)
    by (intro exI [of _ s]) simp
qed

section \<open>Whole calls\<close>

text \<open>C6: The step relation refines the sequential functions. From the \<open>select\<close> of \<open>runClipboardLoop\<close>,
undisturbed, the node runs through one payload exactly as \<open>clipboard_event\<close> with
\<open>broadcastPayload\<close> says: the same tables of the mesh, the same log lines, the same outcome, on
every path; and a pump that holds a completed payload runs exactly as \<open>ApplyRemote\<close> says: the
same ledger, the same native clipboard, and the log line of the same result.\<close>

theorem node_calls_are_runs:
  assumes "n_loop s = ClipSelect" and "cl_events (n_clip s) = p # rest" and "free_env env s"
    and "n_completed s = (src, q) # others"
    and "ApplyRemote (cd_jpeg_decode (nd_clip D)) (cd_png_encode (nd_clip D)) (cd_write (nd_clip D)) ctx_err
      (cl_now (n_clip s)) (cl_pending (n_clip s)) (cl_os (n_clip s)) (Some q) = (l', os', result)"
  shows "(\<exists>s'. node_run D R s s' \<and> n_loop s' = ClipSelect \<and> n_clip s' = (n_clip s)\<lparr>cl_events := rest\<rparr>
      \<and> (n_rt s', n_mgr s') = clipboard_event (nd_canceled D)
          (broadcastPayload (nd_marshal D) (nd_marshal_chunk D) mesh_broadcast env) (Some p) (n_rt s, n_mgr s))
    \<and> node_run D R s (s\<lparr>n_completed := others,
        n_clip := (n_clip s)\<lparr>cl_pending := l', cl_os := os'\<rparr>, n_rt := applied_log src q result (n_rt s)\<rparr>)"
  using clipboard_event_run [OF assms(1-3)] apply_run [of s "[]" src q others, OF _ assms(5)] assms(4) by simp

theorem node_calls_are_runs_witness:
  "node_run sample_node_deps any_frame (copied_node\<lparr>n_completed := [(''a'', sample_payload)]\<rparr>)
     (copied_node\<lparr>n_completed := [],
        n_rt := applied_log ''a'' sample_payload (Some (CtxErr ''context canceled'')) (n_rt copied_node)\<rparr>)"
proof -
  let ?s = "copied_node\<lparr>n_completed := [(''a'', sample_payload)]\<rparr>"
  have "n_loop ?s = ClipSelect" "cl_events (n_clip ?s) = [sample_payload]"
    "free_env (\<lambda>_. (\<lambda>_. 0, [], None)) ?s"
    using copied_env by (simp_all add: copied_node_def started_node_def Let_def free_env_def)
  then show ?thesis
    using node_calls_are_runs [where s = ?s and D = sample_node_deps and p = sample_payload and rest = "[]"
        and env = "\<lambda>_. (\<lambda>_. 0, [], None)" and src = "''a''" and q = sample_payload and others = "[]"
        and ctx_err = "Some ''context canceled''" and l' = "cl_pending (n_clip ?s)" and os' = "cl_os (n_clip ?s)"
        and result = "Some (CtxErr ''context canceled'')"]
    by (auto simp: ApplyRemote_def)
qed

section \<open>Stopping\<close>

text \<open>Once its context is done a node can always run on to its end, from whatever its goroutines are
doing: the clipboard loop leaves the broadcast it is in and ends, the peer log loop ends, and
\<open>waitCh\<close> is closed, so \<open>Wait\<close> returns. And \<open>Wait\<close> never returns before that: not before the context
is done and the mesh has shut down.\<close>

lemma node_stops:
  assumes "NewManager raw hostname opts handler_nil = Inr m" and "o_ReconnectMaxBackoff opts < 2 ^ 62"
    and "node_run D R (started_node eventBuffer now os m) s"
  shows "(rt_waitClosed (n_rt s) \<longrightarrow> n_ctxDone s \<and> n_meshDone s \<and> mg_ctxDone (n_mgr s))
    \<and> (n_ctxDone s \<longrightarrow> (\<exists>s'. node_run D R s s' \<and> n_loop s' = ClipEnded \<and> \<not> n_logLoop s'
         \<and> rt_waitClosed (n_rt s')))"
  using reached_inv [OF assms] node_down by (auto simp: node_inv_def ended_inv_def)

end
