(* ===== verification/NetworkProperties.thy ===== *)
theory NetworkProperties
  imports NetworkRuns NodeProperties
begin

text \<open>
  The properties of several nodes together: what arrives anywhere was copied somewhere, and what
  is copied on one node can reach the clipboard of another.
\<close>

section \<open>A network and a run of it\<close>

text \<open>
  Two nodes: \<open>m\<close>, where a text has been copied, and \<open>x\<close>. Node \<open>m\<close> discovers \<open>x\<close>, its dial loop
  is started and woken up, dials, and attaches the connection; node \<open>x\<close> accepts it.
\<close>

definition x_options :: Options where
  "x_options = sample_options\<lparr>o_NodeID := ''x''\<rparr>"

definition x_start :: Manager where
  "x_start = sample_start\<lparr>mg_opts := x_options, mg_nodeID := ''x''\<rparr>"

definition x_found :: peerState where
  "x_found = (new_peerState ''x'')
     \<lparr>ps_peer := \<lparr>peer_ID = ''x'', peer_Name = ''box'', peer_Host = ''x.local'', peer_Port = 7000,
        peer_Addresses = [map char_of [10::nat, 0, 0, 2]], peer_Connected = False, peer_LastSeen = 5\<rparr>,
      ps_discovered := True, ps_wsPath := ''/ws'', ps_proto := protocolVersion\<rparr>"

definition m_conn :: managedConn where
  "m_conn = (newManagedConn False connectionDirectionOutbound ''x'' ''box'' 2)\<lparr>mc_started := True\<rparr>"

abbreviation m_mesh :: "(string, peerState) fmap \<Rightarrow> (nat, managedConn) fmap \<Rightarrow> (string, dial_pc) fmap
    \<Rightarrow> string list \<Rightarrow> string list \<Rightarrow> MeshState" where
  "m_mesh peers conns loops ensures wakes \<equiv> (initial_state
     (sample_start\<lparr>mg_started := True, mg_peers := peers, mg_conns := conns\<rparr>))
       \<lparr>ms_loops := loops, ms_ensures := ensures, ms_wakes := wakes\<rparr>"

abbreviation x_at :: "'v \<Rightarrow> (string, 'v) fmap" where
  "x_at v \<equiv> fmupd ''x'' v fmempty"

lemmas linking_simps = initial_state_def sample_start_def set_peer_def new_peerState_def x_found_def with_call_def
  update_peer_def set_loop_def set_conn_def zero_Peer_def

lemma linking_steps:
  fixes ps :: peerState
  defines "ps \<equiv> x_found\<lparr>ps_dialLoopStarted := True\<rparr>"
  shows "mesh_step (m_mesh fmempty fmempty fmempty [] []) (m_mesh (x_at x_found) fmempty fmempty [''x''] [])"
    and "mesh_step (m_mesh (x_at x_found) fmempty fmempty [''x''] []) (m_mesh (x_at ps) fmempty (x_at DialIdle) [] [''x''])"
    and "mesh_step (m_mesh (x_at ps) fmempty (x_at DialIdle) [] [''x''])
      (m_mesh (x_at (ps\<lparr>ps_reconnectCh := True\<rparr>)) fmempty (x_at DialIdle) [] [])"
    and "mesh_step (m_mesh (x_at (ps\<lparr>ps_reconnectCh := True\<rparr>)) fmempty (x_at DialIdle) [] [])
      (m_mesh (x_at ps) fmempty (x_at DialReady) [] [])"
proof -
  have entry: "service_update 5 (Some sample_entry) (sample_start\<lparr>mg_started := True\<rparr>)
      = (sample_start\<lparr>mg_started := True, mg_peers := x_at x_found\<rparr>, Some ''x'')"
    by (simp add: service_update_def sample_entry_peer getOrCreatePeer_def Let_def shouldDial_def discover_peer_def
        copyIPs_def linking_simps)
  show "mesh_step (m_mesh fmempty fmempty fmempty [] []) (m_mesh (x_at x_found) fmempty fmempty [''x''] [])"
    using mesh_step.service [of 5 "Some sample_entry" "m_mesh fmempty fmempty fmempty [] []"] entry
    by (simp add: linking_simps)
  show "mesh_step (m_mesh (x_at x_found) fmempty fmempty [''x''] []) (m_mesh (x_at ps) fmempty (x_at DialIdle) [] [''x''])"
    using mesh_step.ensure [of "m_mesh (x_at x_found) fmempty fmempty [''x''] []" "[]" "''x''" "[]"]
    by (simp add: ensure_step_def ensureDialLoop_def loop_started_def ps_def linking_simps)
  show "mesh_step (m_mesh (x_at ps) fmempty (x_at DialIdle) [] [''x''])
      (m_mesh (x_at (ps\<lparr>ps_reconnectCh := True\<rparr>)) fmempty (x_at DialIdle) [] [])"
    using mesh_step.wake [of "m_mesh (x_at ps) fmempty (x_at DialIdle) [] [''x'']" "[]" "''x''" "[]"]
    by (simp add: triggerReconnect_def ps_def linking_simps)
  show "mesh_step (m_mesh (x_at (ps\<lparr>ps_reconnectCh := True\<rparr>)) fmempty (x_at DialIdle) [] [])
      (m_mesh (x_at ps) fmempty (x_at DialReady) [] [])"
    using mesh_step.dial_wake [of "m_mesh (x_at (ps\<lparr>ps_reconnectCh := True\<rparr>)) fmempty (x_at DialIdle) [] []" "''x''"]
    by (simp add: signalled_def take_signal_def ps_def linking_simps)
qed

definition x_linked :: peerState where
  "x_linked = x_found\<lparr>ps_dialLoopStarted := True, ps_conn := Some 1,
     ps_peer := (ps_peer x_found)\<lparr>peer_Connected := True\<rparr>\<rparr>"

lemma dialling_steps:
  fixes ps :: peerState
  defines "ps \<equiv> x_found\<lparr>ps_dialLoopStarted := True\<rparr>"
  shows "mesh_step (m_mesh (x_at ps) fmempty (x_at DialReady) [] [])
      (m_mesh (x_at (ps\<lparr>ps_backoff := 1\<rparr>)) fmempty (x_at (DialCalling (ps_peer x_found) ''/ws'' 1)) [] [])"
    and "mesh_step (m_mesh (x_at (ps\<lparr>ps_backoff := 1\<rparr>)) fmempty (x_at (DialCalling (ps_peer x_found) ''/ws'' 1)) [] [])
      (m_mesh (x_at x_linked) (fmupd 1 m_conn fmempty) (x_at DialIdle) [] [])"
proof -
  have go: "prepareDial ''x'' (sample_start\<lparr>mg_started := True, mg_peers := x_at ps, mg_conns := fmempty\<rparr>)
      = (sample_start\<lparr>mg_started := True, mg_peers := x_at (ps\<lparr>ps_backoff := 1\<rparr>), mg_conns := fmempty\<rparr>,
         Some (ps_peer x_found, ''/ws'', 1))"
    by (simp add: prepareDial_def ps_def shouldDial_def bumpBackoff_def peerCopyLocked_def copyIPs_def
        sample_options_def Let_def linking_simps)
  show "mesh_step (m_mesh (x_at ps) fmempty (x_at DialReady) [] [])
      (m_mesh (x_at (ps\<lparr>ps_backoff := 1\<rparr>)) fmempty (x_at (DialCalling (ps_peer x_found) ''/ws'' 1)) [] [])"
    using mesh_step.dial_go [of "m_mesh (x_at ps) fmempty (x_at DialReady) [] []" "''x''"] go
    by (simp add: set_loop_def initial_state_def)
  let ?m = "sample_start\<lparr>mg_started := True, mg_peers := x_at (ps\<lparr>ps_backoff := 1\<rparr>), mg_conns := fmempty\<rparr>"
  let ?m' = "sample_start\<lparr>mg_started := True, mg_peers := x_at x_linked, mg_conns := fmupd 1 m_conn fmempty\<rparr>"
  have ok: "dialPeer (\<lambda>_. DialOpened (Some (''x'', ''box'', protocolVersion))) ''x'' (ps_peer x_found) ''/ws'' 1 ?m
      = (?m', None)"
    by (simp add: dialPeer_def responseHeaders_def attach_or_close_def attachConnection_def name_peer_def
        install_conn_def ps_def x_linked_def m_conn_def newManagedConn_def sample_options_def Let_def linking_simps)
  have reset: "update_peer ''x'' resetBackoff ?m' = ?m'"
    by (simp add: resetBackoff_def x_linked_def linking_simps)
  show "mesh_step (m_mesh (x_at (ps\<lparr>ps_backoff := 1\<rparr>)) fmempty (x_at (DialCalling (ps_peer x_found) ''/ws'' 1)) [] [])
      (m_mesh (x_at x_linked) (fmupd 1 m_conn fmempty) (x_at DialIdle) [] [])"
    using mesh_step.dial_ok [of "m_mesh (x_at (ps\<lparr>ps_backoff := 1\<rparr>)) fmempty (x_at (DialCalling (ps_peer x_found) ''/ws'' 1)) [] []"
        "''x''" "ps_peer x_found" "''/ws''" 1 1 "\<lambda>_. DialOpened (Some (''x'', ''box'', protocolVersion))" ?m'] ok reset
    by (simp add: set_loop_def initial_state_def)
qed

text \<open>The states of the two nodes, and of the network, once they are connected.\<close>

definition m_node :: "(clipFormat \<times> bytes) list node" where
  "m_node = copied_node\<lparr>n_mesh := m_mesh (x_at x_linked) (fmupd 1 m_conn fmempty) (x_at DialIdle) [] []\<rparr>"

definition x_request :: ws_request where
  "x_request = \<lparr>wr_path = ''/ws'', wr_nodeID = ''m'', wr_nodeName = ''here'', wr_proto = protocolVersion\<rparr>"

abbreviation x_started :: "(clipFormat \<times> bytes) list node" where
  "x_started \<equiv> started_node 0 0 [] x_start"

definition x_conn :: managedConn where
  "x_conn = (newManagedConn False connectionDirectionInbound ''m'' ''here'' 2)\<lparr>mc_started := True\<rparr>"

definition x_mgr :: Manager where
  "x_mgr = x_start\<lparr>mg_started := True, mg_conns := fmupd 4 x_conn fmempty,
     mg_peers := fmupd ''m'' ((new_peerState ''m'')\<lparr>ps_conn := Some 4,
       ps_peer := zero_Peer\<lparr>peer_ID := ''m'', peer_Name := ''here'', peer_Connected := True\<rparr>\<rparr>) fmempty\<rparr>"

definition x_node :: "(clipFormat \<times> bytes) list node" where
  "x_node = x_started\<lparr>n_mesh := (n_mesh x_started)\<lparr>ms_mgr := x_mgr\<rparr>\<rparr>"

lemma quiet_mesh_step:
  "mesh_step a b \<Longrightarrow> queued (ms_mgr b) = {} \<Longrightarrow> node_step D R (s\<lparr>n_mesh := a\<rparr>) (s\<lparr>n_mesh := b\<rparr>)"
  using node_step.mesh [of "s\<lparr>n_mesh := a\<rparr>" b D R] by simp

lemma m_reached: "node_run sample_node_deps R sample_start_node m_node"
proof -
  have start: "copied_node\<lparr>n_mesh := m_mesh fmempty fmempty fmempty [] []\<rparr> = copied_node"
    by (simp add: copied_node_def started_node_def Start_def initial_state_def sample_start_def Let_def)
  note q = quiet_mesh_step [where D = sample_node_deps and R = R and s = copied_node]
  note s1 = q [OF linking_steps(1)] and s2 = q [OF linking_steps(2)] and s3 = q [OF linking_steps(3)]
    and s4 = q [OF linking_steps(4)] and s5 = q [OF dialling_steps(1)] and s6 = q [OF dialling_steps(2)]
  note run = converse_rtranclp_into_rtranclp [where r = "node_step sample_node_deps R"]
  have "queued (ms_mgr (m_mesh (x_at x_linked) (fmupd 1 m_conn fmempty) (x_at DialIdle) [] [])) = {}"
    by (simp add: queued_def m_conn_def newManagedConn_def initial_state_def)
  then have "node_run sample_node_deps R (copied_node\<lparr>n_mesh := m_mesh fmempty fmempty fmempty [] []\<rparr>) m_node"
    unfolding m_node_def
    by (intro run [OF s1] run [OF s2] run [OF s3] run [OF s4] run [OF s5] run [OF s6] rtranclp.rtrancl_refl)
      (simp_all add: initial_state_def queued_def)
  then show ?thesis unfolding start by (rule rtranclp_trans [OF copied_reached])
qed

lemma x_reached: "node_run sample_node_deps R x_started x_node"
proof -
  have m: "ms_mgr (n_mesh x_started) = x_start\<lparr>mg_started := True\<rparr>"
    by (simp add: started_node_def initial_state_def Start_def x_start_def sample_start_def Let_def)
  have "handleWebSocket x_request True 4 (x_start\<lparr>mg_started := True\<rparr>) = (x_mgr, Switched)"
    by (simp add: handleWebSocket_def x_request_def x_start_def x_options_def x_mgr_def x_conn_def getOrCreatePeer_def
        attach_or_close_def attachConnection_def name_peer_def install_conn_def newManagedConn_def
        sample_options_def Let_def linking_simps)
  then have "mesh_step (n_mesh x_started) ((n_mesh x_started)\<lparr>ms_mgr := x_mgr\<rparr>)"
    using mesh_step.inbound [of "n_mesh x_started" 4 x_request True] m
    by (simp add: x_start_def sample_start_def)
  moreover have "queued x_mgr = {}" by (simp add: queued_def x_mgr_def x_conn_def newManagedConn_def)
  ultimately have "node_step sample_node_deps R (x_started\<lparr>n_mesh := n_mesh x_started\<rparr>) x_node"
    unfolding x_node_def by (intro quiet_mesh_step) simp_all
  then show ?thesis by (simp add: r_into_rtranclp)
qed

definition pair_managers :: "bool \<Rightarrow> Manager" where
  "pair_managers b = (if b then x_start else sample_start)"

abbreviation pair_start :: "(bool, (clipFormat \<times> bytes) list) network" where
  "pair_start \<equiv> started_network (\<lambda>_. 0) (\<lambda>_. 0) (\<lambda>_. []) pair_managers"

definition pair_linked :: "(bool, (clipFormat \<times> bytes) list) network" where
  "pair_linked = set_node True x_node (set_node False m_node pair_start)"

abbreviation pair_deps :: "bool \<Rightarrow> (bytes, (clipFormat \<times> bytes) list) node_deps" where
  "pair_deps \<equiv> \<lambda>_. sample_node_deps"

lemma pair_new: "new_managers pair_managers"
proof -
  have "NewManager (Inl ''no entropy'') (Inl ''no name'') x_options False = Inr x_start"
    by (simp add: NewManager_def withDefaults_def x_options_def sample_options_def x_start_def sample_start_def
        or_default_string_def or_default_int_def defaultServiceName_def defaultDomain_def defaultMaxFrameBytes_def Let_def)
  moreover have "o_ReconnectMaxBackoff x_options < 2 ^ 62" using sample_backoff by (simp add: x_options_def)
  ultimately have x: "\<exists>raw hostname opts. NewManager raw hostname opts False = Inr x_start
      \<and> o_ReconnectMaxBackoff opts < 2 ^ 62" by blast
  have m: "\<exists>raw hostname opts. NewManager raw hostname opts False = Inr sample_start
      \<and> o_ReconnectMaxBackoff opts < 2 ^ 62"
    using sample_start_new sample_backoff by blast
  show ?thesis unfolding new_managers_def pair_managers_def using x m by simp
qed

lemma pair_codec: "net_codec pair_deps"
  using sample_payload_codec frame_codec by (simp add: net_codec_def sample_node_deps_def)

lemma pair_reached: "net_run pair_deps pair_start pair_linked"
proof -
  have "nw_node pair_start False = sample_start_node" by (simp add: started_network_def pair_managers_def)
  then have m: "net_run pair_deps pair_start (set_node False m_node pair_start)"
    using local_run [of pair_deps False pair_start m_node] m_reached by simp
  have "nw_node (set_node False m_node pair_start) True = x_started" by (simp add: started_network_def pair_managers_def)
  then have "net_run pair_deps (set_node False m_node pair_start) pair_linked"
    using local_run [of pair_deps True "set_node False m_node pair_start" x_node] x_reached
    unfolding pair_linked_def by simp
  then show ?thesis by (rule rtranclp_trans [OF m])
qed

lemma pair_nodes:
  "nw_node pair_linked False = m_node" "nw_node pair_linked True = x_node"
  "node_id pair_linked False = ''m''" "node_id pair_linked True = ''x''" "nw_wire pair_linked l = []"
proof -
  show n: "nw_node pair_linked False = m_node" "nw_node pair_linked True = x_node" "nw_wire pair_linked l = []"
    by (simp_all add: pair_linked_def started_network_def)
  show "node_id pair_linked False = ''m''" "node_id pair_linked True = ''x''"
    by (simp_all add: node_id_def n m_node_def x_node_def x_mgr_def x_start_def initial_state_def sample_start_def)
qed

lemma pair_can_send: "can_send pair_deps pair_linked False True 1 sample_payload [''whole'']"
proof -
  have a: "n_mgr m_node = sample_start\<lparr>mg_started := True, mg_peers := x_at x_linked, mg_conns := fmupd 1 m_conn fmempty\<rparr>"
    "n_loop m_node = ClipSelect"
    by (simp_all add: m_node_def initial_state_def copied_node_def started_node_def Let_def)
  have b: "n_mgr x_node = x_mgr" "fmlookup (ra_inflight (rt_reassembler (n_rt x_node))) k = None" for k
    by (simp_all add: x_node_def started_node_def Runtime_Start_def newRuntime_def NewReassembler_def Let_def)
  have limit: "int (length ''whole'') \<le> o_MaxFrameBytes (mg_opts (n_mgr m_node))"
    "int (length ''whole'') \<le> o_MaxFrameBytes (mg_opts (n_mgr x_node))"
    by (simp_all add: a b x_mgr_def x_start_def x_options_def sample_start_def sample_options_def defaultMaxFrameBytes_def)
  have active: "active_conn (n_mgr m_node) q = (if q = ''x'' then Some 1 else None)" for q
    by (simp add: a active_conn_def x_linked_def)
  have "room 1 (n_mgr m_node)"
    by (simp add: room_def active) (simp add: a m_conn_def newManagedConn_def)
  moreover have "ChunkPayload (nd_marshal sample_node_deps) (Some sample_payload) DefaultChunkSize = Inr [whole_chunk]"
    "nd_marshal_chunk sample_node_deps whole_chunk = Inr ''whole''"
    using whole_chunks by (simp_all add: sample_node_deps_def frame_encode_def)
  moreover have "map_option mc_sendQ (fmlookup (mg_conns (n_mgr m_node)) 1) = Some []"
    by (simp add: a m_conn_def newManagedConn_def)
  moreover have "fmlookup (mg_conns (n_mgr x_node)) 4 = Some x_conn" "mc_started x_conn" "\<not> mc_cancelled x_conn"
    "mc_peerID x_conn = ''m''"
    by (simp_all add: b x_mgr_def x_conn_def newManagedConn_def)
  ultimately show ?thesis
    unfolding can_send_def pair_nodes Let_def using a(2) b(2) limit active by auto
qed

section \<open>What arrives was copied\<close>

text \<open>C3: Integrity across the network. Whatever the nodes do and however frames are delayed or lost: every
payload a node has received and is about to write to its clipboard, or is writing, is valid and
has the same content digest as a payload that was copied (put on \<open>Events()\<close>, itself valid) on a node
with the identifier the receiver attributes it to. This holds although chunks of payloads with
the same digest from several senders may be mixed in the reassembler.\<close>

theorem network_integrity:
  assumes "new_managers m" and "net_codec D"
    and "net_run D (started_network eventBuffer now os m) N"
    and "(src, p) \<in> set (n_completed (nw_node N j)) \<union> set (n_calls (nw_node N j))"
  shows "ValidatePayload (Some p) = None
    \<and> (\<exists>i q. node_id N i = src \<and> q \<in> set (n_emitted (nw_node N i)) \<and> ValidatePayload (Some q) = None
        \<and> ComputeContentSHA256 (cp_Data q) = ComputeContentSHA256 (cp_Data p))"
proof -
  have inv: "net_inv D N" using net_run_inv [OF assms(3) started_network_inv [OF assms(1)] assms(2)] .
  have p: "valid_payload p" using held_valid [OF net_invD(1) [OF inv]] assms(4) by (auto simp: held_def)
  obtain i q where q: "node_id N i = src" "q \<in> set (n_emitted (nw_node N i))" "cp_Sha256 q = cp_Sha256 p"
    using net_invD(3) [OF inv, of src p j] assms(4) by (auto simp: held_def origin_def)
  have "valid_payload q" by (rule emitted_valid [OF net_invD(1) [OF inv] q(2)])
  moreover from this p have "ComputeContentSHA256 (cp_Data q) = ComputeContentSHA256 (cp_Data p)"
    using q(3) by (simp add: valid_payload_def)
  ultimately show ?thesis using p q(1,2) unfolding ValidatePayload_valid by blast
qed

text \<open>The text copied on \<open>m\<close>, arrived at \<open>x\<close>.\<close>

lemma pair_events: "cl_events (n_clip (nw_node pair_linked False)) = [sample_payload]"
  by (simp add: pair_nodes m_node_def copied_node_def started_node_def Let_def)

theorem network_integrity_witness:
  "\<exists>N q. net_run pair_deps pair_start N \<and> (''m'', sample_payload) \<in> set (n_completed (nw_node N True))
     \<and> (\<exists>i. q \<in> set (n_emitted (nw_node N i))) \<and> ComputeContentSHA256 (cp_Data q) = sample_id"
proof -
  have "net_inv pair_deps pair_linked"
    using net_run_inv [OF pair_reached started_network_inv [OF pair_new] pair_codec] .
  then obtain N where N: "net_run pair_deps pair_linked N" "(''m'', sample_payload) \<in> set (n_completed (nw_node N True))"
    using arrive_run [OF pair_can_send _ pair_codec pair_events] by (auto simp: pair_nodes)
  have run: "net_run pair_deps pair_start N" using pair_reached N(1) by (rule rtranclp_trans)
  have "(''m'', sample_payload) \<in> set (n_completed (nw_node N True)) \<union> set (n_calls (nw_node N True))" using N(2) by simp
  from network_integrity [OF pair_new pair_codec run this] obtain i q where
    "q \<in> set (n_emitted (nw_node N i))" "ComputeContentSHA256 (cp_Data q) = ComputeContentSHA256 (cp_Data sample_payload)"
    by blast
  then show ?thesis using run N(2) by (intro exI [of _ N] exI [of _ q]) (auto simp: sample_payload_def)
qed

section \<open>What is copied arrives\<close>

text \<open>C2: End to end. Take any reachable state of a network in which a payload waits on \<open>Events()\<close> of one
node, all its active connections are open with room in their queues, its connection to a second
node is idle, and the second node has no transfer of the same content in flight. Then the
goroutines can run on so that the payload is taken, chunked, broadcast, written, read and
reassembled, and the second node's clipboard and ledger become what \<open>ApplyRemote\<close> with exactly this
payload makes of them, whatever its outcome.\<close>

theorem network_delivers:
  assumes "new_managers m" and "net_codec D"
    and "net_run D (started_network eventBuffer now os m) N"
    and "can_send D N i j cid p frames" and "cl_events (n_clip (nw_node N i)) = p # rest"
    and "ApplyRemote (cd_jpeg_decode (nd_clip (D j))) (cd_png_encode (nd_clip (D j))) (cd_write (nd_clip (D j))) ctx_err
      (cl_now (n_clip (nw_node N j))) (cl_pending (n_clip (nw_node N j))) (cl_os (n_clip (nw_node N j))) (Some p)
      = (l', os', result)"
  shows "\<exists>N'. net_run D N N' \<and> n_clip (nw_node N' i) = (n_clip (nw_node N i))\<lparr>cl_events := rest\<rparr>
    \<and> n_clip (nw_node N' j) = (n_clip (nw_node N j))\<lparr>cl_pending := l', cl_os := os'\<rparr>"
  using payload_run [OF assms(4) net_run_inv [OF assms(3) started_network_inv [OF assms(1)] assms(2)] assms(2,5,6)] .

text \<open>The text copied on \<open>m\<close> is written to the clipboard of \<open>x\<close>.\<close>

theorem network_delivers_witness:
  "\<exists>N. net_run pair_deps pair_linked N \<and> cl_os (n_clip (nw_node N True)) = [(FmtText, ''hello'')]"
proof -
  have os: "cl_os (n_clip x_node) = []"
    by (simp add: x_node_def started_node_def started_clip_def newManagerWithBackend_def Let_def)
  have valid: "ValidatePayload (Some sample_payload) = None" using sample_valid by (simp add: ValidatePayload_valid)
  have norm: "normalizeWritePayload image_decode image_encode (Some sample_payload) = Inr (FmtText, textBucket, ''hello'')"
    by (simp add: normalizeWritePayload_def sample_payload_def)
  have ar: "\<exists>l'. ApplyRemote (cd_jpeg_decode (nd_clip sample_node_deps)) (cd_png_encode (nd_clip sample_node_deps))
      (cd_write (nd_clip sample_node_deps)) None (cl_now (n_clip x_node)) (cl_pending (n_clip x_node)) (cl_os (n_clip x_node))
      (Some sample_payload) = (l', [(FmtText, ''hello'')], None)"
    using norm valid os by (simp add: ApplyRemote_def sample_node_deps_def sample_deps_def write_log_def Let_def)
  then obtain l' where "ApplyRemote (cd_jpeg_decode (nd_clip sample_node_deps)) (cd_png_encode (nd_clip sample_node_deps))
      (cd_write (nd_clip sample_node_deps)) None (cl_now (n_clip (nw_node pair_linked True)))
      (cl_pending (n_clip (nw_node pair_linked True))) (cl_os (n_clip (nw_node pair_linked True)))
      (Some sample_payload) = (l', [(FmtText, ''hello'')], None)"
    unfolding pair_nodes by blast
  from network_delivers [OF pair_new pair_codec pair_reached pair_can_send pair_events this]
  show ?thesis by auto
qed

end
