(* ===== verification/Flags.thy ===== *)
theory Flags
  imports Discovery
begin

text \<open>
  What \<open>cmd/clippy/main.go\<close> uses of Go's \<open>strconv\<close> and \<open>flag\<close> packages: integers and booleans
  read from text, and \<open>FlagSet.Parse\<close> with the policy \<open>ContinueOnError\<close>.
\<close>

section \<open>strconv: ParseUint, ParseInt, Atoi, ParseBool\<close>

datatype num_error = ErrSyntax | ErrRange

text \<open>\<open>lower(c) = c | ('x' - 'X')\<close>.\<close>

definition lower_byte :: "char \<Rightarrow> nat" where
  "lower_byte c = (if bit (of_char c :: nat) 5 then of_char c else of_char c + 32)"

definition digit_value :: "char \<Rightarrow> nat option" where
  "digit_value c =
     (if 48 \<le> byte_val c \<and> byte_val c \<le> 57 then Some (byte_val c - 48)
      else if 97 \<le> lower_byte c \<and> lower_byte c \<le> 122 then Some (lower_byte c - 87)
      else None)"

text \<open>
  The loop of \<open>ParseUint\<close> for 64 bits: \<open>base0\<close> tells whether underscores may separate digits.
  The two tests of the code, \<open>n >= cutoff\<close> before the multiplication and the wrap-around of the
  sum, together are the test that the next value exceeds 64 bits.
\<close>

fun scan_digits :: "nat \<Rightarrow> bool \<Rightarrow> string \<Rightarrow> nat \<Rightarrow> num_error + nat" where
  "scan_digits base base0 [] n = Inr n"
| "scan_digits base base0 (c # s) n =
     (if c = CHR ''_'' \<and> base0 then scan_digits base base0 s n
      else case digit_value c of
             None \<Rightarrow> Inl ErrSyntax
           | Some d \<Rightarrow>
               if base \<le> d then Inl ErrSyntax
               else if 2 ^ 64 \<le> n * base + d then Inl ErrRange
               else scan_digits base base0 s (n * base + d))"

text \<open>
  \<open>underscoreOK\<close>: underscores only between digits, or between a base prefix and a digit. The
  first argument of the loop is the kind of the last character: a digit or prefix, an
  underscore, or anything else.
\<close>

datatype saw = SawStart | SawDigit | SawUnderscore | SawOther

fun underscore_loop :: "bool \<Rightarrow> saw \<Rightarrow> string \<Rightarrow> bool" where
  "underscore_loop hex saw [] \<longleftrightarrow> saw \<noteq> SawUnderscore"
| "underscore_loop hex saw (c # s) \<longleftrightarrow>
     (if 48 \<le> byte_val c \<and> byte_val c \<le> 57 \<or> hex \<and> 97 \<le> lower_byte c \<and> lower_byte c \<le> 102
      then underscore_loop hex SawDigit s
      else if c = CHR ''_'' then saw = SawDigit \<and> underscore_loop hex SawUnderscore s
      else saw \<noteq> SawUnderscore \<and> underscore_loop hex SawOther s)"

definition strip_sign :: "string \<Rightarrow> string" where
  "strip_sign s = (if s \<noteq> [] \<and> (hd s = CHR ''-'' \<or> hd s = CHR ''+'') then tl s else s)"

definition underscoreOK :: "string \<Rightarrow> bool" where
  "underscoreOK s0 =
     (let s = strip_sign s0 in
      if 2 \<le> length s \<and> hd s = CHR ''0'' \<and> lower_byte (s ! 1) \<in> {98, 111, 120}
      then underscore_loop (lower_byte (s ! 1) = 120) SawDigit (drop 2 s)
      else underscore_loop False SawStart s)"

text \<open>The base and the digits that \<open>ParseUint\<close> reads when the base argument is 0.\<close>

definition detect_base :: "string \<Rightarrow> nat \<times> string" where
  "detect_base s =
     (if hd s \<noteq> CHR ''0'' then (10, s)
      else if 3 \<le> length s \<and> lower_byte (s ! 1) = 98 then (2, drop 2 s)
      else if 3 \<le> length s \<and> lower_byte (s ! 1) = 111 then (8, drop 2 s)
      else if 3 \<le> length s \<and> lower_byte (s ! 1) = 120 then (16, drop 2 s)
      else (8, tl s))"

definition parse_uint :: "bool \<Rightarrow> string \<Rightarrow> num_error + nat" where
  "parse_uint base0 s0 =
     (if s0 = [] then Inl ErrSyntax
      else
        let (base, s) = (if base0 then detect_base s0 else (10, s0)) in
        case scan_digits base base0 s 0 of
          Inl e \<Rightarrow> Inl e
        | Inr n \<Rightarrow>
            if base0 \<and> CHR ''_'' \<in> set s \<and> \<not> underscoreOK s0 then Inl ErrSyntax else Inr n)"

text \<open>\<open>ParseInt(s, 0, 64)\<close> with \<open>base0\<close>, \<open>ParseInt(s, 10, 64)\<close> (and so \<open>Atoi\<close>) without.\<close>

definition parse_int :: "bool \<Rightarrow> string \<Rightarrow> num_error + int" where
  "parse_int base0 s =
     (if s = [] then Inl ErrSyntax
      else
        let neg = (hd s = CHR ''-'') in
        case parse_uint base0 (strip_sign s) of
          Inl e \<Rightarrow> Inl e
        | Inr un \<Rightarrow>
            if \<not> neg \<and> 2 ^ 63 \<le> un then Inl ErrRange
            else if neg \<and> 2 ^ 63 < un then Inl ErrRange
            else Inr (if neg then - int un else int un))"

definition Atoi :: "string \<Rightarrow> num_error + int" where
  "Atoi s = parse_int False s"

definition ParseBool :: "string \<Rightarrow> bool option" where
  "ParseBool s =
     (if s \<in> {''1'', ''t'', ''T'', ''TRUE'', ''true'', ''True''} then Some True
      else if s \<in> {''0'', ''f'', ''F'', ''FALSE'', ''false'', ''False''} then Some False
      else None)"

section \<open>flag: FlagSet.Parse\<close>

datatype flag_kind = ValueFlag | BoolFlag

datatype flag_error =
    BadFlagSyntax string
  | FlagHelp
  | FlagNotDefined string
  | FlagNeedsArgument string
  | FlagInvalidValue string string

text \<open>
  The flags are given by \<open>formal\<close>, their setters by \<open>set_flag\<close> on the variables \<open>'v\<close>;
  \<^const>\<open>None\<close> is a setter's error. Parsing ends at the first argument that is not a flag, or
  after \<open>--\<close>; what remains are the positional arguments.
\<close>

fun parse_flags ::
    "(string \<Rightarrow> flag_kind option) \<Rightarrow> (string \<Rightarrow> string \<Rightarrow> 'v \<Rightarrow> 'v option) \<Rightarrow> string list \<Rightarrow> 'v
     \<Rightarrow> flag_error + 'v \<times> string list" where
  "parse_flags formal set_flag [] v = Inr (v, [])"
| "parse_flags formal set_flag (s # args) v =
     (if length s < 2 \<or> hd s \<noteq> CHR ''-'' then Inr (v, s # args)
      else if s = ''--'' then Inr (v, args)
      else
        let arg = (if s ! 1 = CHR ''-'' then drop 2 s else drop 1 s) in
        if arg = [] \<or> hd arg = CHR ''-'' \<or> hd arg = CHR ''='' then Inl (BadFlagSyntax s)
        else
          let (name, given) = (case strings_cut (CHR ''='') arg of
                                 None \<Rightarrow> (arg, None) | Some (name, x) \<Rightarrow> (name, Some x)) in
          case formal name of
            None \<Rightarrow> Inl (if name = ''help'' \<or> name = ''h'' then FlagHelp else FlagNotDefined name)
          | Some BoolFlag \<Rightarrow>
              let x = (case given of None \<Rightarrow> ''true'' | Some x \<Rightarrow> x) in
              (case set_flag name x v of
                 None \<Rightarrow> Inl (FlagInvalidValue name x)
               | Some v \<Rightarrow> parse_flags formal set_flag args v)
          | Some ValueFlag \<Rightarrow>
              (case given of
                 Some x \<Rightarrow>
                   (case set_flag name x v of
                      None \<Rightarrow> Inl (FlagInvalidValue name x)
                    | Some v \<Rightarrow> parse_flags formal set_flag args v)
               | None \<Rightarrow>
                   (case args of
                      [] \<Rightarrow> Inl (FlagNeedsArgument name)
                    | x # args \<Rightarrow>
                        (case set_flag name x v of
                           None \<Rightarrow> Inl (FlagInvalidValue name x)
                         | Some v \<Rightarrow> parse_flags formal set_flag args v))))"

declare parse_flags.simps(2) [simp del]


section \<open>Facts\<close>

lemma byte_val_digit: "d < 10 \<Longrightarrow> byte_val (digit_char d) = 48 + d"
  by (simp add: digit_char_def)

lemma digit_char_cases:
  assumes "d < 10"
  shows "digit_value (digit_char d) = Some d" "digit_char d \<noteq> CHR ''_''"
    "digit_char d \<noteq> CHR ''-''" "digit_char d \<noteq> CHR ''+''" "digit_char d = CHR ''0'' \<longleftrightarrow> d = 0"
proof -
  note b = byte_val_digit [OF assms]
  show "digit_value (digit_char d) = Some d" using assms by (simp add: digit_value_def b)
  show "digit_char d \<noteq> CHR ''_''" "digit_char d \<noteq> CHR ''-''" "digit_char d \<noteq> CHR ''+''"
    using b assms by auto
  have "digit_char d = CHR ''0'' \<longleftrightarrow> byte_val (digit_char d) = byte_val (CHR ''0'')"
    by (simp only: of_char_eq_iff)
  then show "digit_char d = CHR ''0'' \<longleftrightarrow> d = 0" by (simp add: b)
qed

lemma scan_digits_append:
  "scan_digits base b (xs @ ys) n =
     (case scan_digits base b xs n of Inl e \<Rightarrow> Inl e | Inr m \<Rightarrow> scan_digits base b ys m)"
  by (induction xs arbitrary: n) (auto split: option.split)

lemma digits_small: "n < 10 \<Longrightarrow> digits 10 n = [digit_char n]"
  by (subst digits.simps) simp

lemma digits_big: "\<not> n < 10 \<Longrightarrow> digits 10 n = digits 10 (n div 10) @ [digit_char (n mod 10)]"
  by (subst digits.simps) simp

lemma digits_hd: "digits 10 n \<noteq> [] \<and> (\<exists>d < 10. hd (digits 10 n) = digit_char d \<and> (d = 0 \<longrightarrow> n = 0))"
proof (induction "10 :: nat" n rule: digits.induct)
  case (1 n)
  show ?case
  proof (cases "n < 10")
    case False
    then have "n div 10 \<noteq> 0" by simp
    then show ?thesis using 1 False by (auto simp: digits_big [OF False])
  qed (auto simp: digits_small)
qed

lemma scan_digits_digits: "n < 2 ^ 64 \<Longrightarrow> scan_digits 10 b (digits 10 n) 0 = Inr n"
proof (induction "10 :: nat" n rule: digits.induct)
  case (1 n)
  show ?case
  proof (cases "n < 10")
    case True
    then show ?thesis by (simp add: digits_small digit_char_cases)
  next
    case False
    then have "scan_digits 10 b (digits 10 (n div 10)) 0 = Inr (n div 10)"
      using 1 by (simp add: less_imp_diff_less)
    moreover have "n div 10 * 10 + n mod 10 = n" by simp
    ultimately show ?thesis
      using 1(2) by (simp add: digits_big [OF False] scan_digits_append digit_char_cases del: div_mult_mod_eq)
  qed
qed

lemma digits_no_underscore: "CHR ''_'' \<notin> set (digits 10 n)"
proof (induction "10 :: nat" n rule: digits.induct)
  case (1 n)
  have "digit_char (n mod 10) \<noteq> CHR ''_''" by (simp add: digit_char_cases(2))
  then show ?case using 1 digit_char_cases(2) [of n]
    by (cases "n < 10") (auto simp: digits_small digits_big)
qed

lemma parse_uint_digits:
  assumes "n < 2 ^ 64"
  shows "parse_uint b (digits 10 n) = Inr n"
proof -
  obtain d where d: "digits 10 n \<noteq> []" "d < 10" "hd (digits 10 n) = digit_char d" "d = 0 \<longrightarrow> n = 0"
    using digits_hd by blast
  show ?thesis
  proof (cases "n = 0")
    case True
    have "digit_char 0 = CHR ''0''" using digit_char_cases(5) [of 0] by simp
    then have "detect_base [digit_char 0] = (8, [])" "digit_char 0 \<noteq> CHR ''_''"
      by (simp_all add: detect_base_def)
    moreover have "scan_digits 10 b [digit_char 0] 0 = Inr 0"
      using scan_digits_digits [of 0 b] by (simp add: digits_small)
    ultimately show ?thesis
      using True by (cases b) (simp_all add: parse_uint_def digits_small del: scan_digits.simps(2))
  next
    case False
    then have "hd (digits 10 n) \<noteq> CHR ''0''" using d digit_char_cases(5) by metis
    then show ?thesis
      using d(1) scan_digits_digits [OF assms] digits_no_underscore
      by (simp add: parse_uint_def detect_base_def)
  qed
qed

text \<open>What \<open>Itoa\<close> writes, \<open>ParseInt\<close> and \<open>Atoi\<close> read back.\<close>

lemma parse_int_itoa:
  assumes "- (2 ^ 63) \<le> i" and "i < 2 ^ 63"
  shows "parse_int b (itoa i) = Inr i"
proof -
  obtain d where d: "digits 10 (nat \<bar>i\<bar>) \<noteq> []" "d < 10" "hd (digits 10 (nat \<bar>i\<bar>)) = digit_char d"
    using digits_hd by blast
  have n: "nat \<bar>i\<bar> < 2 ^ 64" "parse_uint b (digits 10 (nat \<bar>i\<bar>)) = Inr (nat \<bar>i\<bar>)"
    using assms by (auto intro!: parse_uint_digits)
  show ?thesis
  proof (cases "i < 0")
    case True
    then show ?thesis using n assms by (simp add: parse_int_def itoa_def strip_sign_def)
  next
    case False
    then have "strip_sign (itoa i) = digits 10 (nat \<bar>i\<bar>)" "itoa i \<noteq> []" "hd (itoa i) \<noteq> CHR ''-''"
      using d(1,3) digit_char_cases(3,4) [OF d(2)] by (simp_all add: itoa_def strip_sign_def)
    then show ?thesis using n(2) assms(2) False by (simp add: parse_int_def)
  qed
qed

lemma parse_int_range: "parse_int b s = Inr i \<Longrightarrow> - (2 ^ 63) \<le> i \<and> i < 2 ^ 63"
  by (auto simp: parse_int_def Let_def split: if_splits sum.splits)

text \<open>A flag and its value as two arguments.\<close>

lemma parse_flags_value:
  assumes "formal name = Some ValueFlag" and "name \<noteq> []" "hd name \<noteq> CHR ''-''" "CHR ''='' \<notin> set name"
  shows "parse_flags formal set_flag ((''--'' @ name) # x # args) v =
    (case set_flag name x v of None \<Rightarrow> Inl (FlagInvalidValue name x)
     | Some v \<Rightarrow> parse_flags formal set_flag args v)"
proof -
  have "hd name \<noteq> CHR ''=''" using assms(2,4) by (metis hd_in_set)
  then show ?thesis
    using assms by (simp add: parse_flags.simps(2) strings_cut_def)
qed


text \<open>One turn of the loop: it ends, or one setter is called and a shorter list is left.\<close>

lemma parse_flags_step:
  assumes "parse_flags formal set_flag (s # args) v = Inr (v', rest)"
  shows "v' = v \<or> (\<exists>name x v1 args1. set_flag name x v = Some v1 \<and> length args1 \<le> length args
    \<and> parse_flags formal set_flag args1 v1 = Inr (v', rest))" (is "?A \<or> ?B")
proof (rule ccontr)
  assume n: "\<not> (?A \<or> ?B)"
  then have B: "\<And>name x v1 args1. set_flag name x v = Some v1 \<Longrightarrow> length args1 \<le> length args \<Longrightarrow>
      parse_flags formal set_flag args1 v1 \<noteq> Inr (v', rest)" by blast
  have "v' \<noteq> v" using n by blast
  then show False
    using assms B [of _ _ _ args] B [of _ _ _ "tl args"]
    by (auto simp: parse_flags.simps(2) Let_def split: if_splits option.splits flag_kind.splits list.splits)
qed

lemma parse_flags_keeps:
  assumes "\<And>name x v v'. set_flag name x v = Some v' \<Longrightarrow> P v \<Longrightarrow> P v'"
    and "P v" and "parse_flags formal set_flag args v = Inr (v', rest)"
  shows "P v'"
  using assms(2,3)
proof (induction "length args" arbitrary: args v rule: less_induct)
  case less
  show ?case
  proof (cases args)
    case (Cons s args')
    show ?thesis
      using parse_flags_step [OF less(3) [unfolded Cons]]
    proof (elim disjE exE conjE)
      fix name x v1 args1
      assume "set_flag name x v = Some v1" "length args1 \<le> length args'"
        "parse_flags formal set_flag args1 v1 = Inr (v', rest)"
      then show ?thesis using less(1) [of args1 v1] assms(1) less(2) Cons by auto
    qed (use less(2) in simp)
  qed (use less in simp)
qed

end
