(* ===== verification/Control.thy ===== *)
theory Control
  imports Runtime
begin

text \<open>
  \<open>internal/app/config.go\<close>, the construction of the runtime's parts in \<open>New\<close>, and the local
  control protocol of \<open>internal/app/control.go\<close>: the server's handling of a connection, its
  accept loop and its close, and the client. The JSON coders of the standard library are
  parameters; a handler has a state of type \<open>'h\<close>, read by \<open>Status\<close> and changed by \<open>Stop\<close>.
\<close>

section \<open>Configuration\<close>

record Config =
  cf_Name :: string
  cf_ListenAddr :: string
  cf_Port :: int
  cf_ServiceName :: string
  cf_Domain :: string
  cf_WebSocketPath :: string
  cf_ControlEndpoint :: string

definition Config_WithDefaults :: "Config \<Rightarrow> Config" where
  "Config_WithDefaults c =
     (let c = (if cf_ServiceName c = '''' then c\<lparr>cf_ServiceName := ''_clippy._tcp''\<rparr> else c);
          c = (if cf_Domain c = '''' then c\<lparr>cf_Domain := ''local.''\<rparr> else c)
      in if cf_WebSocketPath c = '''' then c\<lparr>cf_WebSocketPath := ''/ws''\<rparr> else c)"

text \<open>The options \<open>New\<close> builds for the mesh; what it does not set is the zero value.\<close>

definition mesh_options :: "Config \<Rightarrow> Options" where
  "mesh_options cfg =
     \<lparr>o_NodeID = '''', o_Name = cf_Name cfg, o_ServiceName = cf_ServiceName cfg,
      o_Domain = cf_Domain cfg, o_WebSocketPath = cf_WebSocketPath cfg,
      o_ListenAddr = cf_ListenAddr cfg, o_Port = cf_Port cfg, o_HeartbeatInterval = 0,
      o_PongTimeout = 0, o_PeerStaleAfter = 0, o_BrowseCycle = 0, o_ReconnectMinBackoff = 0,
      o_ReconnectMaxBackoff = 0, o_MaxFrameBytes = 0, o_SendQueueSize = 0\<rparr>"

text \<open>
  \<open>New\<close>: \<open>clip_init\<close> is the error of \<open>clipboard.Init\<close>, \<open>clip\<close> the idle clipboard manager.
\<close>

definition New_runtime ::
    "string option \<Rightarrow> 'c \<Rightarrow> string + bytes \<Rightarrow> string + string \<Rightarrow> Config
     \<Rightarrow> (string + mesh_error) + ('c Runtime \<times> Manager)" where
  "New_runtime clip_init clip raw hostname cfg =
     (case clip_init of
        Some e \<Rightarrow> Inl (Inl e)
      | None \<Rightarrow>
          (case NewManager raw hostname (mesh_options (Config_WithDefaults cfg)) False of
             Inl e \<Rightarrow> Inl (Inr e)
           | Inr mesh \<Rightarrow> Inr (newRuntime clip, mesh)))"

section \<open>The control protocol\<close>

record controlResponse =
  cr_OK :: bool
  cr_Error :: string
  cr_Status :: "Status option"

definition error_response :: "string \<Rightarrow> controlResponse" where
  "error_response e = \<lparr>cr_OK = False, cr_Error = e, cr_Status = None\<rparr>"

definition status_response :: "Status \<Rightarrow> controlResponse" where
  "status_response st = \<lparr>cr_OK = True, cr_Error = '''', cr_Status = Some st\<rparr>"

text \<open>\<open>decode\<close> reads a request: the JSON decoder's error, or the command.\<close>

definition handleConn ::
    "('w \<Rightarrow> string + string) \<Rightarrow> ('h \<Rightarrow> Status) \<Rightarrow> ('h \<Rightarrow> 'h) \<Rightarrow> 'w \<Rightarrow> 'h \<Rightarrow> controlResponse \<times> 'h" where
  "handleConn decode status stop request h =
     (case decode request of
        Inl e \<Rightarrow> (error_response e, h)
      | Inr command \<Rightarrow>
          if command = ''status'' then (status_response (status h), h)
          else if command = ''stop'' then (status_response (status h), stop h)
          else (error_response ''unknown command'', h))"

text \<open>
  \<open>RequestControl\<close>: \<open>dial\<close> and \<open>send\<close> are the errors of dialling and of writing the request, if
  any, \<open>response\<close> is what the decoder returned. An error is a \<open>net.OpError\<close> or another one, with
  its text. The connection has no deadline, so each of the three calls may also never return:
  then it is \<^const>\<open>None\<close>, and so is the result.
\<close>

datatype control_error = OpError string | OtherError string

definition RequestControl ::
    "control_error option option \<Rightarrow> control_error option option \<Rightarrow> (control_error + controlResponse) option
     \<Rightarrow> (control_error + Status option) option" where
  "RequestControl dial send response =
     (case dial of
        None \<Rightarrow> None
      | Some (Some e) \<Rightarrow> Some (Inl e)
      | Some None \<Rightarrow>
          (case send of
             None \<Rightarrow> None
           | Some (Some e) \<Rightarrow> Some (Inl e)
           | Some None \<Rightarrow>
               (case response of
                  None \<Rightarrow> None
                | Some (Inl e) \<Rightarrow> Some (Inl e)
                | Some (Inr resp) \<Rightarrow>
                    Some (if \<not> cr_OK resp then Inl (OtherError (cr_Error resp)) else Inr (cr_Status resp)))))"

section \<open>The server\<close>

datatype close_call = CloseListener | CallCloseFn

record ControlServer =
  cs_closeFn :: bool
  cs_closeDone :: bool
  cs_calls :: "close_call list"

text \<open>
  \<open>Close\<close> (once): \<open>listener_err\<close> and \<open>fn_err\<close> are what the two calls return; the calls made
  are recorded.
\<close>

definition Close :: "string option \<Rightarrow> string option \<Rightarrow> ControlServer \<Rightarrow> ControlServer \<times> string option" where
  "Close listener_err fn_err s =
     (if cs_closeDone s then (s, None)
      else
        let s = s\<lparr>cs_closeDone := True, cs_calls := cs_calls s @ [CloseListener]\<rparr>
        in if cs_closeFn s
           then (s\<lparr>cs_calls := cs_calls s @ [CallCloseFn]\<rparr>,
                 if listener_err = None then fn_err else listener_err)
           else (s, listener_err))"

text \<open>
  What \<open>Accept\<close> returns: a connection, or an error, with whether it is \<open>net.ErrClosed\<close> and
  whether the context is done when it is tested.
\<close>

datatype 'w accepted = AcceptConn 'w | AcceptFailed string bool bool

text \<open>\<open>Serve\<close>: the connections handed to \<open>handleConn\<close>, and the error returned, if it returned.\<close>

fun Serve :: "'w accepted list \<Rightarrow> 'w list \<times> string option option" where
  "Serve [] = ([], None)"
| "Serve (AcceptConn conn # rest) = (let (conns, r) = Serve rest in (conn # conns, r))"
| "Serve (AcceptFailed e closed ctx_done # rest) =
     ([], Some (if closed \<or> ctx_done then None else Some e))"

section \<open>The endpoint of Windows and the construction\<close>

text \<open>\<open>DefaultControlEndpoint\<close> of \<open>ipc_windows.go\<close>: the user name comes from the environment.\<close>

definition DefaultControlEndpoint_windows :: "(string \<Rightarrow> string) \<Rightarrow> string" where
  "DefaultControlEndpoint_windows getenv =
     (let user = getenv ''USERNAME'';
          user = (if user = '''' then ''default'' else user);
          user = map (\<lambda>c. if c = CHR '' '' then CHR ''_'' else c) user
      in [CHR 0x5C, CHR 0x5C] @ ''.'' @ [CHR 0x5C] @ ''pipe'' @ [CHR 0x5C] @ ''clippy-'' @ user)"

text \<open>\<open>NewControlServer\<close>: the server exists exactly if its listener does.\<close>

definition NewControlServer :: "string option \<Rightarrow> string + ControlServer" where
  "NewControlServer listen_err =
     (case listen_err of
        Some e \<Rightarrow> Inl e
      | None \<Rightarrow> Inr \<lparr>cs_closeFn = True, cs_closeDone = False, cs_calls = []\<rparr>)"

section \<open>Facts\<close>

lemma Config_WithDefaults_sel:
  "cf_ServiceName (Config_WithDefaults c) = or_default_string (cf_ServiceName c) ''_clippy._tcp''"
  "cf_Domain (Config_WithDefaults c) = or_default_string (cf_Domain c) ''local.''"
  "cf_WebSocketPath (Config_WithDefaults c) = or_default_string (cf_WebSocketPath c) ''/ws''"
  "cf_Name (Config_WithDefaults c) = cf_Name c"
  "cf_Port (Config_WithDefaults c) = cf_Port c"
  "cf_ListenAddr (Config_WithDefaults c) = cf_ListenAddr c"
  "cf_ControlEndpoint (Config_WithDefaults c) = cf_ControlEndpoint c"
  by (simp_all add: Config_WithDefaults_def or_default_string_def Let_def)

lemma New_runtime_Inr:
  assumes "New_runtime clip_init clip raw hostname cfg = Inr (r, m)"
  shows "r = newRuntime clip" "clip_init = None"
    "NewManager raw hostname (mesh_options (Config_WithDefaults cfg)) False = Inr m"
  using assms by (auto simp: New_runtime_def split: option.splits sum.splits)

end
