(* ===== verification/Cli.thy ===== *)
theory Cli
  imports Flags Control
begin

text \<open>
  The command line program \<open>cmd/clippy/main.go\<close>: its flags and environment, the arguments it
  hands to the daemon it starts, its commands and the daemon's main function.

  The environment variables are a function from names to values, the empty string for a
  variable that is not set.
\<close>

section \<open>Configuration\<close>

definition envString :: "(string \<Rightarrow> string) \<Rightarrow> string \<Rightarrow> string \<Rightarrow> string" where
  "envString getenv name fallback =
     (let value = trim_space (getenv name) in if value = '''' then fallback else value)"

definition envInt :: "(string \<Rightarrow> string) \<Rightarrow> string \<Rightarrow> int \<Rightarrow> int" where
  "envInt getenv name fallback =
     (let value = trim_space (getenv name) in
      if value = '''' then fallback
      else case Atoi value of Inl e \<Rightarrow> fallback | Inr parsed \<Rightarrow> parsed)"

text \<open>The configuration the flags start from; \<open>endpoint\<close> is \<open>app.DefaultControlEndpoint()\<close>.\<close>

definition env_config :: "(string \<Rightarrow> string) \<Rightarrow> string \<Rightarrow> Config" where
  "env_config getenv endpoint =
     \<lparr>cf_Name = envString getenv ''CLIPPY_NAME'' '''',
      cf_ListenAddr = envString getenv ''CLIPPY_LISTEN_ADDR'' '''',
      cf_Port = envInt getenv ''CLIPPY_PORT'' 0,
      cf_ServiceName = envString getenv ''CLIPPY_SERVICE_NAME'' '''',
      cf_Domain = envString getenv ''CLIPPY_DOMAIN'' '''',
      cf_WebSocketPath = envString getenv ''CLIPPY_WEBSOCKET_PATH'' '''',
      cf_ControlEndpoint = envString getenv ''CLIPPY_CONTROL_ENDPOINT'' endpoint\<rparr>"

text \<open>The flags of a command, and their setters on the configuration and \<open>foreground\<close>.\<close>

definition cli_flags :: "string \<Rightarrow> string \<Rightarrow> flag_kind option" where
  "cli_flags command name =
     (if name \<in> {''name'', ''listen-addr'', ''port'', ''service-name'', ''domain'', ''websocket-path'',
                 ''control''}
      then Some ValueFlag
      else if name = ''foreground'' \<and> (command = ''start'' \<or> command = ''daemon'') then Some BoolFlag
      else None)"

definition set_cli_flag :: "string \<Rightarrow> string \<Rightarrow> Config \<times> bool \<Rightarrow> (Config \<times> bool) option" where
  "set_cli_flag name x v =
     (case v of (cfg, foreground) \<Rightarrow>
        if name = ''name'' then Some (cfg\<lparr>cf_Name := x\<rparr>, foreground)
        else if name = ''listen-addr'' then Some (cfg\<lparr>cf_ListenAddr := x\<rparr>, foreground)
        else if name = ''port'' then
          (case parse_int True x of
             Inl e \<Rightarrow> None
           | Inr i \<Rightarrow> Some (cfg\<lparr>cf_Port := i\<rparr>, foreground))
        else if name = ''service-name'' then Some (cfg\<lparr>cf_ServiceName := x\<rparr>, foreground)
        else if name = ''domain'' then Some (cfg\<lparr>cf_Domain := x\<rparr>, foreground)
        else if name = ''websocket-path'' then Some (cfg\<lparr>cf_WebSocketPath := x\<rparr>, foreground)
        else if name = ''control'' then Some (cfg\<lparr>cf_ControlEndpoint := x\<rparr>, foreground)
        else map_option (\<lambda>b. (cfg, b)) (ParseBool x))"

definition parseCommonFlags ::
    "(string \<Rightarrow> string) \<Rightarrow> string \<Rightarrow> string \<Rightarrow> string list \<Rightarrow> flag_error + Config \<times> bool" where
  "parseCommonFlags getenv endpoint name args =
     (case parse_flags (cli_flags name) set_cli_flag args (env_config getenv endpoint, False) of
        Inl e \<Rightarrow> Inl e
      | Inr ((cfg, foreground), rest) \<Rightarrow> Inr (Config_WithDefaults cfg, foreground))"

definition daemonArgs :: "Config \<Rightarrow> string list" where
  "daemonArgs cfg =
     (if cf_Name cfg \<noteq> '''' then [''--name'', cf_Name cfg] else [])
     @ (if cf_ListenAddr cfg \<noteq> '''' then [''--listen-addr'', cf_ListenAddr cfg] else [])
     @ (if cf_Port cfg \<noteq> 0 then [''--port'', itoa (cf_Port cfg)] else [])
     @ (if cf_ServiceName cfg \<noteq> '''' then [''--service-name'', cf_ServiceName cfg] else [])
     @ (if cf_Domain cfg \<noteq> '''' then [''--domain'', cf_Domain cfg] else [])
     @ (if cf_WebSocketPath cfg \<noteq> '''' then [''--websocket-path'', cf_WebSocketPath cfg] else [])
     @ (if cf_ControlEndpoint cfg \<noteq> '''' then [''--control'', cf_ControlEndpoint cfg] else [])"

section \<open>Talking to the daemon\<close>

text \<open>
  \<open>isControlUnavailable\<close>: \<open>strings.ToLower\<close> maps to the letters of \<open>pipe\<close> the ASCII capitals
  and, of all other code points, only U+0130, which becomes an \<open>i\<close>; its encoding is C4 B0.
\<close>

fun lower_ascii :: "string \<Rightarrow> string" where
  "lower_ascii [] = []"
| "lower_ascii (c # s) =
     (if c = CHR 0xC4 \<and> s \<noteq> [] \<and> hd s = CHR 0xB0 then CHR ''i'' # lower_ascii (tl s)
      else if 65 \<le> byte_val c \<and> byte_val c \<le> 90 then char_of (byte_val c + 32) # lower_ascii s
      else c # lower_ascii s)"

fun contains_str :: "string \<Rightarrow> string \<Rightarrow> bool" where
  "contains_str p [] \<longleftrightarrow> p = []"
| "contains_str p (c # s) \<longleftrightarrow> has_prefix p (c # s) \<or> contains_str p s"

fun isControlUnavailable :: "control_error \<Rightarrow> bool" where
  "isControlUnavailable (OpError text) \<longleftrightarrow> True"
| "isControlUnavailable (OtherError text) \<longleftrightarrow> contains_str ''pipe'' (lower_ascii text)"

text \<open>
  \<open>waitForDaemon\<close>: \<open>request i\<close> is the answer to the \<open>i\<close>-th poll, \<^const>\<open>None\<close> if that poll never
  returns; \<open>clock i\<close> is the time read after it. The wait may hang in a poll or go on for ever, so the
  result is an option.
\<close>

fun ready :: "control_error + Status option \<Rightarrow> bool" where
  "ready (Inr (Some status)) \<longleftrightarrow> st_Running status"
| "ready _ \<longleftrightarrow> False"

definition poll_error :: "control_error + Status option \<Rightarrow> control_error" where
  "poll_error r =
     (case r of Inl e \<Rightarrow> e | Inr _ \<Rightarrow> OtherError ''timed out waiting for daemon readiness'')"

partial_function (option) wait_loop ::
    "(nat \<Rightarrow> (control_error + Status option) option) \<Rightarrow> (nat \<Rightarrow> time) \<Rightarrow> time \<Rightarrow> nat
     \<Rightarrow> (control_error + Status) option" where
  "wait_loop request clock deadline i =
     (case request i of
        None \<Rightarrow> None
      | Some r \<Rightarrow>
          if ready r then Some (case r of Inr (Some status) \<Rightarrow> Inr status | _ \<Rightarrow> Inl (poll_error r))
          else if deadline < clock i then Some (Inl (poll_error r))
          else wait_loop request clock deadline (Suc i))"

definition waitForDaemon ::
    "(nat \<Rightarrow> (control_error + Status option) option) \<Rightarrow> (nat \<Rightarrow> time) \<Rightarrow> time \<Rightarrow> duration
     \<Rightarrow> (control_error + Status) option" where
  "waitForDaemon request clock now timeout = wait_loop request clock (now + timeout) 0"


section \<open>The commands\<close>

text \<open>
  What a command meets outside the program: the environment, the daemon's answers to the first
  request and to the polls (\<^const>\<open>None\<close> if one never comes), the path of the executable, whether the detached process starts, and
  how \<open>serveDaemon\<close> ends (\<^const>\<open>None\<close> if it does not).
\<close>

record cli_world =
  cw_getenv :: "string \<Rightarrow> string"
  cw_endpoint :: string
  cw_request :: "string \<Rightarrow> string \<Rightarrow> (control_error + Status option) option"
  cw_poll :: "string \<Rightarrow> nat \<Rightarrow> (control_error + Status option) option"
  cw_clock :: "nat \<Rightarrow> time"
  cw_now :: time
  cw_exe :: "string + string"
  cw_spawn :: "string list \<Rightarrow> string option"
  cw_serve :: "Config \<Rightarrow> string option option"

datatype cli_line =
    AlreadyRunning string string
  | Started string string
  | Stopping string string
  | NotRunning
  | RunningNo
  | RunningYes
  | NameLine string
  | NodeIDLine string
  | StartedAtLine time
  | PeerCountLine nat
  | PeerLine PeerStatus

datatype cli_error =
    FlagError flag_error
  | RequestError control_error
  | SystemError string
  | UsageError

datatype cli_result = CliOk | CliError cli_error | CliPanic | CliHangs

text \<open>What a command does: the lines it prints, the processes it spawns, the configurations it
serves itself, and its result.\<close>

record cli_run =
  cu_lines :: "cli_line list"
  cu_spawned :: "string list list"
  cu_served :: "Config list"
  cu_result :: cli_result

definition cli_only :: "cli_line list \<Rightarrow> cli_result \<Rightarrow> cli_run" where
  "cli_only lines r = \<lparr>cu_lines = lines, cu_spawned = [], cu_served = [], cu_result = r\<rparr>"

definition serve_run :: "cli_world \<Rightarrow> Config \<Rightarrow> cli_run" where
  "serve_run w cfg =
     \<lparr>cu_lines = [], cu_spawned = [], cu_served = [cfg],
      cu_result = (case cw_serve w cfg of
                     None \<Rightarrow> CliHangs
                   | Some None \<Rightarrow> CliOk
                   | Some (Some e) \<Rightarrow> CliError (SystemError e))\<rparr>"

definition cli_config :: "cli_world \<Rightarrow> string \<Rightarrow> string list \<Rightarrow> flag_error + Config \<times> bool" where
  "cli_config w name args = parseCommonFlags (cw_getenv w) (cw_endpoint w) name args"

definition running_status :: "control_error + Status option \<Rightarrow> Status option" where
  "running_status r =
     (case r of Inr (Some status) \<Rightarrow> if st_Running status then Some status else None | _ \<Rightarrow> None)"

definition spawn_daemon :: "cli_world \<Rightarrow> Config \<Rightarrow> cli_run" where
  "spawn_daemon w cfg =
     (case cw_exe w of
        Inl e \<Rightarrow> cli_only [] (CliError (SystemError e))
      | Inr exe \<Rightarrow>
          let argv = exe # ''daemon'' # daemonArgs cfg;
              run = (cli_only [] CliOk)\<lparr>cu_spawned := [argv]\<rparr>
          in case cw_spawn w argv of
               Some e \<Rightarrow> run\<lparr>cu_result := CliError (SystemError e)\<rparr>
             | None \<Rightarrow>
                 (case waitForDaemon (cw_poll w (cf_ControlEndpoint cfg)) (cw_clock w) (cw_now w) (10 * second) of
                    None \<Rightarrow> run\<lparr>cu_result := CliHangs\<rparr>
                  | Some (Inl e) \<Rightarrow> run\<lparr>cu_result := CliError (RequestError e)\<rparr>
                  | Some (Inr status) \<Rightarrow>
                      run\<lparr>cu_lines := [Started (st_Name status) (st_NodeID status)]\<rparr>))"

definition runStart :: "cli_world \<Rightarrow> string list \<Rightarrow> cli_run" where
  "runStart w args =
     (case cli_config w ''start'' args of
        Inl e \<Rightarrow> cli_only [] (CliError (FlagError e))
      | Inr (cfg, foreground) \<Rightarrow>
          (case cw_request w (cf_ControlEndpoint cfg) ''status'' of
             None \<Rightarrow> cli_only [] CliHangs
           | Some r \<Rightarrow>
               (case running_status r of
                  Some status \<Rightarrow> cli_only [AlreadyRunning (st_Name status) (st_NodeID status)] CliOk
                | None \<Rightarrow> if foreground then serve_run w cfg else spawn_daemon w cfg)))"

text \<open>A status that is nil is dereferenced, which panics.\<close>

definition runStop :: "cli_world \<Rightarrow> string list \<Rightarrow> cli_run" where
  "runStop w args =
     (case cli_config w ''stop'' args of
        Inl e \<Rightarrow> cli_only [] (CliError (FlagError e))
      | Inr (cfg, _) \<Rightarrow>
          (case cw_request w (cf_ControlEndpoint cfg) ''stop'' of
             None \<Rightarrow> cli_only [] CliHangs
           | Some (Inl e) \<Rightarrow> if isControlUnavailable e then cli_only [NotRunning] CliOk
                      else cli_only [] (CliError (RequestError e))
           | Some (Inr None) \<Rightarrow> cli_only [] CliPanic
           | Some (Inr (Some status)) \<Rightarrow> cli_only [Stopping (st_Name status) (st_NodeID status)] CliOk))"

definition runStatus :: "cli_world \<Rightarrow> string list \<Rightarrow> cli_run" where
  "runStatus w args =
     (case cli_config w ''status'' args of
        Inl e \<Rightarrow> cli_only [] (CliError (FlagError e))
      | Inr (cfg, _) \<Rightarrow>
          (case cw_request w (cf_ControlEndpoint cfg) ''status'' of
             None \<Rightarrow> cli_only [] CliHangs
           | Some (Inl e) \<Rightarrow> if isControlUnavailable e then cli_only [RunningNo] CliOk
                      else cli_only [] (CliError (RequestError e))
           | Some (Inr None) \<Rightarrow> cli_only [RunningYes] CliPanic
           | Some (Inr (Some status)) \<Rightarrow>
               cli_only ([RunningYes, NameLine (st_Name status), NodeIDLine (st_NodeID status),
                          StartedAtLine (st_StartedAt status), PeerCountLine (length (st_Peers status))]
                         @ map PeerLine (st_Peers status)) CliOk))"

definition runDaemon :: "cli_world \<Rightarrow> string list \<Rightarrow> cli_run" where
  "runDaemon w args =
     (case cli_config w ''daemon'' args of
        Inl e \<Rightarrow> cli_only [] (CliError (FlagError e))
      | Inr (cfg, _) \<Rightarrow> serve_run w cfg)"

definition run :: "cli_world \<Rightarrow> string list \<Rightarrow> cli_run" where
  "run w args =
     (case args of
        [] \<Rightarrow> cli_only [] (CliError UsageError)
      | command # rest \<Rightarrow>
          if command = ''start'' then runStart w rest
          else if command = ''stop'' then runStop w rest
          else if command = ''status'' then runStatus w rest
          else if command = ''daemon'' then runDaemon w rest
          else cli_only [] (CliError UsageError))"

section \<open>The daemon's main function\<close>

text \<open>
  \<open>serveDaemon\<close> after \<open>New\<close>, \<open>Start\<close> and \<open>NewControlServer\<close> have succeeded, with the goroutines it
  waits for: its own at the \<open>select\<close>, in \<open>rt.Wait\<close>, at the last receive, or returned; \<open>Serve\<close>; the
  goroutine of \<open>Serve\<close> that closes the listener when the context is done; and the runtime.
\<close>

datatype daemon_pc = AtSelect | AtWait "string option" | AtReceive | Returned "string option"

record daemon_state =
  dm_pc :: daemon_pc
  dm_ctxDone :: bool
  dm_closed :: bool
  dm_serving :: bool
  dm_errCh :: "string option option"
  dm_stopped :: bool

definition daemon_start :: daemon_state where
  "daemon_start =
     \<lparr>dm_pc = AtSelect, dm_ctxDone = False, dm_closed = False, dm_serving = True, dm_errCh = None,
      dm_stopped = False\<rparr>"

inductive daemon_step :: "daemon_state \<Rightarrow> daemon_state \<Rightarrow> bool" where
  signal: "\<not> dm_ctxDone s \<Longrightarrow> daemon_step s (s\<lparr>dm_ctxDone := True\<rparr>)"
| close_listener: "dm_ctxDone s \<Longrightarrow> \<not> dm_closed s \<Longrightarrow> daemon_step s (s\<lparr>dm_closed := True\<rparr>)"
| accept_fails: "dm_serving s \<Longrightarrow> \<not> dm_closed s \<Longrightarrow> snd (Serve [AcceptFailed e False (dm_ctxDone s) :: unit accepted]) = Some r \<Longrightarrow>
    daemon_step s (s\<lparr>dm_serving := False, dm_errCh := Some r\<rparr>)"
| accept_closed: "dm_serving s \<Longrightarrow> dm_closed s \<Longrightarrow> snd (Serve [AcceptFailed e True (dm_ctxDone s) :: unit accepted]) = Some r \<Longrightarrow>
    daemon_step s (s\<lparr>dm_serving := False, dm_errCh := Some r\<rparr>)"
| runtime_stops: "dm_ctxDone s \<Longrightarrow> \<not> dm_stopped s \<Longrightarrow> daemon_step s (s\<lparr>dm_stopped := True\<rparr>)"
| select_server: "dm_pc s = AtSelect \<Longrightarrow> dm_errCh s = Some r \<Longrightarrow>
    daemon_step s (s\<lparr>dm_pc := AtWait r, dm_errCh := None, dm_ctxDone := dm_ctxDone s \<or> r \<noteq> None\<rparr>)"
| select_context: "dm_pc s = AtSelect \<Longrightarrow> dm_ctxDone s \<Longrightarrow> daemon_step s (s\<lparr>dm_pc := AtWait None\<rparr>)"
| wait_error: "dm_pc s = AtWait (Some e) \<Longrightarrow> dm_stopped s \<Longrightarrow>
    daemon_step s (s\<lparr>dm_pc := Returned (Some e)\<rparr>)"
| wait_ok: "dm_pc s = AtWait None \<Longrightarrow> dm_stopped s \<Longrightarrow> daemon_step s (s\<lparr>dm_pc := AtReceive\<rparr>)"
| receive: "dm_pc s = AtReceive \<Longrightarrow> dm_errCh s = Some r \<Longrightarrow>
    daemon_step s (s\<lparr>dm_pc := Returned r, dm_errCh := None\<rparr>)"

inductive_cases daemon_stepE: "daemon_step s s'"

inductive daemon_reachable :: "daemon_state \<Rightarrow> bool" where
  init: "daemon_reachable daemon_start"
| step: "daemon_reachable s \<Longrightarrow> daemon_step s s' \<Longrightarrow> daemon_reachable s'"


section \<open>Facts\<close>

lemma wait_loop_hangs: "request i = None \<Longrightarrow> wait_loop request clock deadline i = None"
  by (subst wait_loop.simps) simp

lemma wait_loop_stops:
  "request i = Some r \<Longrightarrow> ready r \<or> deadline < clock i \<Longrightarrow>
     wait_loop request clock deadline i = Some (if ready r
       then (case r of Inr (Some status) \<Rightarrow> Inr status | _ \<Rightarrow> Inl (poll_error r))
       else Inl (poll_error r))"
  by (subst wait_loop.simps) auto

text \<open>A poll after which the loop goes on.\<close>

definition poll_passed ::
    "(nat \<Rightarrow> (control_error + Status option) option) \<Rightarrow> (nat \<Rightarrow> time) \<Rightarrow> time \<Rightarrow> nat \<Rightarrow> bool" where
  "poll_passed request clock deadline i \<longleftrightarrow>
     (case request i of None \<Rightarrow> False | Some r \<Rightarrow> \<not> ready r) \<and> clock i \<le> deadline"

lemma wait_loop_skip:
  assumes "\<And>j. j < n \<Longrightarrow> poll_passed request clock deadline (i + j)"
  shows "wait_loop request clock deadline i = wait_loop request clock deadline (i + n)"
  using assms
proof (induction n)
  case (Suc n)
  then have "wait_loop request clock deadline i = wait_loop request clock deadline (i + n)" by simp
  also have "\<dots> = wait_loop request clock deadline (Suc (i + n))"
    using Suc.prems [of n] by (subst wait_loop.simps) (auto simp: poll_passed_def split: option.splits)
  finally show ?case by simp
qed simp

text \<open>A clock that advances by at least \<open>step\<close> between polls passes every deadline.\<close>

lemma clock_advances:
  fixes clock :: "nat \<Rightarrow> time"
  assumes "\<And>i. clock i + step \<le> clock (Suc i)"
  shows "clock 0 + int i * step \<le> clock i"
proof (induction i)
  case (Suc i)
  then show ?case using assms [of i] by (simp add: algebra_simps)
qed simp

lemma running_status_ready: "running_status r = None \<longleftrightarrow> \<not> ready r"
  by (auto simp: running_status_def split: sum.split option.split)

text \<open>Every step of the daemon uses something up.\<close>

fun pc_rank :: "daemon_pc \<Rightarrow> nat" where
  "pc_rank AtSelect = 3"
| "pc_rank (AtWait e) = 2"
| "pc_rank AtReceive = 1"
| "pc_rank (Returned e) = 0"

definition daemon_rank :: "daemon_state \<Rightarrow> nat" where
  "daemon_rank s = pc_rank (dm_pc s) + of_bool (\<not> dm_ctxDone s) + of_bool (\<not> dm_closed s)
     + of_bool (dm_serving s) + of_bool (\<not> dm_stopped s)"

lemma daemon_step_rank: "daemon_step s s' \<Longrightarrow> daemon_rank s' < daemon_rank s"
  by (erule daemon_stepE) (auto simp: daemon_rank_def split: if_splits)

definition daemon_inv :: "daemon_state \<Rightarrow> bool" where
  "daemon_inv s \<longleftrightarrow>
     (dm_serving s \<longrightarrow> dm_errCh s = None)
     \<and> (dm_stopped s \<or> dm_closed s \<longrightarrow> dm_ctxDone s)
     \<and> (dm_pc s = AtReceive \<or> (\<exists>e. dm_pc s = AtWait (Some e)) \<longrightarrow> dm_ctxDone s)
     \<and> (dm_pc s = AtSelect \<and> \<not> dm_serving s \<longrightarrow> dm_errCh s \<noteq> None)
     \<and> (dm_errCh s = Some None \<longrightarrow> dm_ctxDone s)
     \<and> (dm_pc s = AtWait None \<longrightarrow> dm_ctxDone s)"

lemma daemon_step_inv: "daemon_step s s' \<Longrightarrow> daemon_inv s \<Longrightarrow> daemon_inv s'"
  by (erule daemon_stepE) (auto simp: daemon_inv_def split: if_splits)

lemma daemon_reachable_inv: "daemon_reachable s \<Longrightarrow> daemon_inv s"
proof (induction rule: daemon_reachable.induct)
  case init
  show ?case by (simp add: daemon_inv_def daemon_start_def)
qed (rule daemon_step_inv)

end
