(* ===== verification/Daemon.thy ===== *)
theory Daemon
  imports NodeRuns Cli
begin

text \<open>
  The daemon as a whole: \<open>serveDaemon\<close> of \<open>cmd/clippy/main.go\<close> around the node of \<open>NodeSystem\<close>, with
  the control server of \<open>internal/app/control.go\<close> and the goroutines that answer its clients.
  \<open>daemon_step\<close> of \<open>Cli\<close> is the abstract view of its end, which knows of the node only that it
  stops some time after the context is done; here the node does its own steps, and the daemon is
  shown to refine that view.
\<close>

section \<open>State\<close>

datatype serve_error =
    ErrNew "string + mesh_error"
  | ErrStart mesh_error
  | ErrControl string
  | ErrWait mesh_error
  | ErrServe string

text \<open>
  Where \<open>serveDaemon\<close> is after \<open>rt.Start\<close>: at \<open>NewControlServer\<close>; in \<open>rt.Wait\<close> because that has
  failed; at its \<open>select\<close>; in the last \<open>rt.Wait\<close> with \<open>serverErr\<close>; at the last receive; returned.
\<close>

datatype main_pc =
    MainListen
  | MainFailed string
  | MainSelect
  | MainWait "string option"
  | MainReceive
  | MainReturned "serve_error option"

text \<open>
  \<open>d_handlers\<close> are the accepted connections whose goroutine has not answered yet, by what the
  client sent; \<open>d_answers\<close> is history.
\<close>

record ('w, 'os) daemon =
  d_main :: main_pc
  d_node :: "'os node"
  d_server :: "ControlServer option"
  d_serving :: bool
  d_errCh :: "string option option"
  d_handlers :: "'w list"
  d_answers :: "controlResponse list"

definition listener_closed :: "('w, 'os) daemon \<Rightarrow> bool" where
  "listener_closed s = (case d_server s of None \<Rightarrow> False | Some srv \<Rightarrow> cs_closeDone srv)"

text \<open>\<open>rt.Wait\<close>: once \<open>waitCh\<close> is closed it returns the error \<open>Start\<close> left.\<close>

definition Runtime_Wait :: "'c Runtime \<Rightarrow> mesh_error option option" where
  "Runtime_Wait r = (if rt_waitClosed r then Some (rt_waitErr r) else None)"

text \<open>\<open>stop\<close> of \<open>signal.NotifyContext\<close>, which is also what a signal does: the context is done.\<close>

definition stop_node :: "'os node \<Rightarrow> 'os node" where
  "stop_node s = s\<lparr>n_ctxDone := True, n_mesh := (n_mesh s)\<lparr>ms_mgr := cancel_ctx (n_mgr s)\<rparr>\<rparr>"

section \<open>The beginning\<close>

text \<open>
  \<open>serveDaemon\<close> up to \<open>rt.Start\<close>: \<open>clip_init\<close> is the error of \<open>clipboard.Init\<close>, \<open>listen\<close> that of the
  mesh's listener.
\<close>

definition serveDaemon_begin ::
    "string option \<Rightarrow> string + bytes \<Rightarrow> string + string \<Rightarrow> string option \<Rightarrow> time \<Rightarrow> 'os \<Rightarrow> Config
     \<Rightarrow> serve_error + ('w, 'os) daemon" where
  "serveDaemon_begin clip_init raw hostname listen now os cfg =
     (case New_runtime clip_init () raw hostname cfg of
        Inl e \<Rightarrow> Inl (ErrNew e)
      | Inr (rt, m) \<Rightarrow>
          (case snd (Start listen m) of
             Some e \<Rightarrow> Inl (ErrStart e)
           | None \<Rightarrow> Inr \<lparr>d_main = MainListen, d_node = started_node 0 now os m, d_server = None,
                          d_serving = False, d_errCh = None, d_handlers = [], d_answers = []\<rparr>))"

section \<open>Steps\<close>

text \<open>
  \<open>daemonController\<close>: the two methods by which the control server acts on the daemon.
\<close>

definition controller_status :: "string list \<Rightarrow> 'os node \<Rightarrow> Status" where
  "controller_status order s =
     Runtime_Status (mg_name (n_mgr s)) (mg_nodeID (n_mgr s)) (Peers order (n_mgr s)) (n_rt s)"

inductive serve_step ::
    "('img, 'os) node_deps \<Rightarrow> ('w \<Rightarrow> string + string) \<Rightarrow> ('w, 'os) daemon \<Rightarrow> ('w, 'os) daemon \<Rightarrow> bool"
  for D :: "('img, 'os) node_deps" and decode :: "'w \<Rightarrow> string + string" where
  node_moves: "node_step D any_frame (d_node s) n \<Longrightarrow> serve_step D decode s (s\<lparr>d_node := n\<rparr>)"
| listen_ok: "d_main s = MainListen \<Longrightarrow> NewControlServer None = Inr srv \<Longrightarrow>
    serve_step D decode s (s\<lparr>d_main := MainSelect, d_server := Some srv, d_serving := True\<rparr>)"
| listen_failed: "d_main s = MainListen \<Longrightarrow> NewControlServer (Some err) = Inl e \<Longrightarrow>
    serve_step D decode s (s\<lparr>d_main := MainFailed e, d_node := stop_node (d_node s)\<rparr>)"
| failed_end: "d_main s = MainFailed e \<Longrightarrow> Runtime_Wait (n_rt (d_node s)) \<noteq> None \<Longrightarrow>
    serve_step D decode s (s\<lparr>d_main := MainReturned (Some (ErrControl e))\<rparr>)"
| accept: "d_serving s \<Longrightarrow> \<not> listener_closed s \<Longrightarrow>
    serve_step D decode s (s\<lparr>d_handlers := d_handlers s @ [request]\<rparr>)"
| answer: "d_handlers s = xs @ request # ys \<Longrightarrow> enumerates order (n_mgr (d_node s)) \<Longrightarrow>
    handleConn decode (controller_status order) stop_node request (d_node s) = (response, n) \<Longrightarrow>
    serve_step D decode s (s\<lparr>d_handlers := xs @ ys, d_node := n, d_answers := d_answers s @ [response]\<rparr>)"
| close_listener: "d_server s = Some srv \<Longrightarrow> n_ctxDone (d_node s) \<Longrightarrow> \<not> cs_closeDone srv \<Longrightarrow>
    serve_step D decode s (s\<lparr>d_server := Some (fst (Close listener_err fn_err srv))\<rparr>)"
| accept_fails: "d_serving s \<Longrightarrow>
    snd (Serve [AcceptFailed e (listener_closed s) (n_ctxDone (d_node s)) :: 'w accepted]) = Some r \<Longrightarrow>
    serve_step D decode s (s\<lparr>d_serving := False, d_errCh := Some r\<rparr>)"
| select_server: "d_main s = MainSelect \<Longrightarrow> d_errCh s = Some r \<Longrightarrow>
    serve_step D decode s (s\<lparr>d_main := MainWait r, d_errCh := None,
      d_node := (if r \<noteq> None then stop_node (d_node s) else d_node s)\<rparr>)"
| select_context: "d_main s = MainSelect \<Longrightarrow> n_ctxDone (d_node s) \<Longrightarrow>
    serve_step D decode s (s\<lparr>d_main := MainWait None\<rparr>)"
| waited: "d_main s = MainWait r \<Longrightarrow> Runtime_Wait (n_rt (d_node s)) = Some w \<Longrightarrow>
    serve_step D decode s (s\<lparr>d_main :=
      (case w of Some e \<Rightarrow> MainReturned (Some (ErrWait e))
       | None \<Rightarrow> (case r of Some e \<Rightarrow> MainReturned (Some (ErrServe e)) | None \<Rightarrow> MainReceive))\<rparr>)"
| receive: "d_main s = MainReceive \<Longrightarrow> d_errCh s = Some r \<Longrightarrow>
    serve_step D decode s (s\<lparr>d_main := MainReturned (map_option ErrServe r), d_errCh := None\<rparr>)"

inductive_cases serve_stepE: "serve_step D decode s s'"

abbreviation serve_daemon_run ::
    "('img, 'os) node_deps \<Rightarrow> ('w \<Rightarrow> string + string) \<Rightarrow> ('w, 'os) daemon \<Rightarrow> ('w, 'os) daemon \<Rightarrow> bool" where
  "serve_daemon_run D decode \<equiv> (serve_step D decode)\<^sup>*\<^sup>*"

lemma stop_node_sel [simp]:
  "n_ctxDone (stop_node s)" "n_rt (stop_node s) = n_rt s" "n_mgr (stop_node s) = cancel_ctx (n_mgr s)"
  by (simp_all add: stop_node_def)

lemma stop_node_step: "node_step D R s (stop_node s)"
  unfolding stop_node_def by (rule node_step.cancelled)

text \<open>What a client's request does to the node: nothing, or what \<open>stop\<close> does.\<close>

lemma handleConn_node:
  "snd (handleConn decode status stop request h) = (if decode request = Inr ''stop'' then stop h else h)"
  by (simp add: handleConn_def split: sum.split)

section \<open>The node inside the daemon\<close>

text \<open>Every step of the daemon is for the node one of its own steps or nothing.\<close>

lemma serve_step_node:
  "serve_step D decode s s' \<Longrightarrow> (node_step D any_frame)\<^sup>=\<^sup>= (d_node s) (d_node s')"
proof (induction rule: serve_step.induct)
  case (answer s xs request ys order response n)
  then have "n = (if decode request = Inr ''stop'' then stop_node (d_node s) else d_node s)"
    using handleConn_node by (metis snd_conv)
  then show ?case using stop_node_step [of D any_frame "d_node s"] by simp
qed (simp_all add: stop_node_step)

lemma serve_run_node:
  assumes "serve_daemon_run D decode s s'"
  shows "node_run D any_frame (d_node s) (d_node s')"
  using assms
proof (induction rule: rtranclp_induct)
  case (step s1 s2)
  show ?case using serve_step_node [OF step.hyps(2)] step.IH by (auto intro: rtranclp.rtrancl_into_rtrancl)
qed simp

lemma node_run_serve:
  "node_run D any_frame (d_node s) n \<Longrightarrow> serve_daemon_run D decode s (s\<lparr>d_node := n\<rparr>)"
proof (induction rule: rtranclp_induct)
  case (step n n')
  have "serve_step D decode (s\<lparr>d_node := n\<rparr>) (s\<lparr>d_node := n'\<rparr>)"
    using serve_step.node_moves [of D "s\<lparr>d_node := n\<rparr>" n' decode] step.hyps(2) by simp
  then show ?case using step.IH by (rule rtranclp.rtrancl_into_rtrancl [rotated])
qed simp

text \<open>The two flags of a node the daemon looks at.\<close>

lemma receive_chunk_waitErr: "receive_chunk uc up from frame r = (r', result) \<Longrightarrow> rt_waitErr r' = rt_waitErr r"
  by (auto simp: receive_chunk_def Let_def log_line_def split: sum.splits prod.splits)

lemma node_step_flags:
  "node_step D R s s' \<Longrightarrow>
     rt_waitErr (n_rt s') = rt_waitErr (n_rt s)
     \<and> (n_ctxDone s' = n_ctxDone s \<and> rt_waitClosed (n_rt s') = rt_waitClosed (n_rt s)
        \<or> n_ctxDone s' \<and> rt_waitClosed (n_rt s') = rt_waitClosed (n_rt s)
        \<or> n_ctxDone s \<and> n_ctxDone s' \<and> \<not> rt_waitClosed (n_rt s) \<and> rt_waitClosed (n_rt s'))"
proof (induction rule: node_step.induct)
  case (frame "from" frame s r result)
  then show ?case using receive_chunk_waits [OF frame(2)] receive_chunk_waitErr [OF frame(2)] by simp
next
  case (log_tick s porder order)
  then show ?case by (simp add: logPeerChanges_def log_line_def Let_def)
qed (simp_all add: log_line_def loop_failed_def)

section \<open>The invariant\<close>

text \<open>What holds where the main function stands, of the context, \<open>waitCh\<close> and the server.\<close>

fun main_ok :: "main_pc \<Rightarrow> bool \<Rightarrow> bool \<Rightarrow> bool \<Rightarrow> bool" where
  "main_ok MainListen ctx closed server \<longleftrightarrow> \<not> server"
| "main_ok (MainFailed e) ctx closed server \<longleftrightarrow> ctx \<and> \<not> server"
| "main_ok MainSelect ctx closed server \<longleftrightarrow> server"
| "main_ok (MainWait r) ctx closed server \<longleftrightarrow> ctx \<and> server"
| "main_ok MainReceive ctx closed server \<longleftrightarrow> closed \<and> ctx \<and> server"
| "main_ok (MainReturned (Some (ErrControl e))) ctx closed server \<longleftrightarrow> closed \<and> \<not> server"
| "main_ok (MainReturned (Some (ErrServe e))) ctx closed server \<longleftrightarrow> closed \<and> server"
| "main_ok (MainReturned None) ctx closed server \<longleftrightarrow> closed \<and> server"
| "main_ok (MainReturned r) ctx closed server \<longleftrightarrow> False"

definition server_ok :: "('w, 'os) daemon \<Rightarrow> bool" where
  "server_ok s \<longleftrightarrow>
     (d_server s = None \<longrightarrow> \<not> d_serving s \<and> d_errCh s = None)
     \<and> (d_serving s \<longrightarrow> d_errCh s = None)
     \<and> (d_main s = MainSelect \<longrightarrow> \<not> d_serving s \<longrightarrow> d_errCh s \<noteq> None)
     \<and> (d_errCh s = Some None \<or> listener_closed s \<longrightarrow> n_ctxDone (d_node s))"

definition serve_inv :: "('img, 'os) node_deps \<Rightarrow> ('w, 'os) daemon \<Rightarrow> bool" where
  "serve_inv D s \<longleftrightarrow>
     node_inv D (d_node s) \<and> rt_waitErr (n_rt (d_node s)) = None \<and> server_ok s
     \<and> main_ok (d_main s) (n_ctxDone (d_node s)) (rt_waitClosed (n_rt (d_node s))) (d_server s \<noteq> None)"

lemma main_ok_mono:
  "main_ok pc ctx closed server \<Longrightarrow> ctx \<longrightarrow> ctx' \<Longrightarrow> closed \<longrightarrow> closed' \<Longrightarrow> main_ok pc ctx' closed' server"
  by (induction pc ctx closed server rule: main_ok.induct) simp_all

lemma Close_sel [simp]: "cs_closeDone (fst (Close le fe srv))"
  by (simp add: Close_def Let_def)

lemma Serve_failed [simp]: "snd (Serve [AcceptFailed e closed done :: 'w accepted]) = Some r \<longleftrightarrow>
    r = (if closed \<or> done then None else Some e)"
  by auto

lemma serve_step_inv:
  assumes "serve_step D decode s s'" and inv: "serve_inv D s"
  shows "serve_inv D s'"
proof -
  have node: "node_inv D (d_node s)" using inv by (simp add: serve_inv_def)
  note step = serve_step_node [OF assms(1)]
  have node': "node_inv D (d_node s')" using step node node_step_inv by auto
  have err: "rt_waitErr (n_rt (d_node s)) = None" using inv by (simp add: serve_inv_def)
  have flags: "rt_waitErr (n_rt (d_node s')) = None \<and> (n_ctxDone (d_node s) \<longrightarrow> n_ctxDone (d_node s'))
      \<and> (rt_waitClosed (n_rt (d_node s)) \<longrightarrow> rt_waitClosed (n_rt (d_node s')))"
  proof (cases "d_node s' = d_node s")
    case False
    then have "node_step D any_frame (d_node s) (d_node s')" using step by simp
    from node_step_flags [OF this] show ?thesis using err by metis
  qed (simp add: err)
  have old: "server_ok s" "main_ok (d_main s) (n_ctxDone (d_node s)) (rt_waitClosed (n_rt (d_node s))) (d_server s \<noteq> None)"
    using inv by (simp_all add: serve_inv_def)
  have mono: "main_ok (d_main s) (n_ctxDone (d_node s')) (rt_waitClosed (n_rt (d_node s'))) (d_server s \<noteq> None)"
    using main_ok_mono [OF old(2)] flags by blast
  have "server_ok s' \<and> main_ok (d_main s') (n_ctxDone (d_node s')) (rt_waitClosed (n_rt (d_node s'))) (d_server s' \<noteq> None)"
    using assms(1)
  proof cases
    case (node_moves n)
    then show ?thesis using old(1) mono flags by (auto simp: server_ok_def listener_closed_def)
  next
    case (listen_ok srv)
    then show ?thesis using old by (auto simp: server_ok_def listener_closed_def NewControlServer_def)
  next
    case (failed_end e)
    then show ?thesis using old by (auto simp: server_ok_def listener_closed_def Runtime_Wait_def split: if_splits)
  next
    case (answer xs request ys order response n)
    then show ?thesis using old(1) mono flags by (auto simp: server_ok_def listener_closed_def)
  next
    case (select_server r)
    then show ?thesis using old by (cases r) (auto simp: server_ok_def listener_closed_def)
  next
    case (waited r w)
    then show ?thesis
      using old err by (cases r) (auto simp: server_ok_def listener_closed_def Runtime_Wait_def split: if_splits)
  next
    case (receive r)
    then show ?thesis using old by (cases r) (auto simp: server_ok_def listener_closed_def)
  qed (use old in \<open>auto simp: server_ok_def listener_closed_def split: if_splits\<close>)
  then show ?thesis using node' flags by (simp add: serve_inv_def)
qed

lemma serve_run_inv: "serve_daemon_run D decode s s' \<Longrightarrow> serve_inv D s \<Longrightarrow> serve_inv D s'"
  by (induction rule: rtranclp_induct) (auto intro: serve_step_inv)

text \<open>The beginning establishes it.\<close>

lemma serveDaemon_begin_cases:
  assumes "serveDaemon_begin clip_init raw hostname listen now os cfg = Inr s"
  obtains m where "NewManager raw hostname (mesh_options (Config_WithDefaults cfg)) False = Inr m"
    "s = \<lparr>d_main = MainListen, d_node = started_node 0 now os m, d_server = None, d_serving = False,
      d_errCh = None, d_handlers = [], d_answers = []\<rparr>"
  using assms New_runtime_Inr
  by (fastforce simp: serveDaemon_begin_def split: sum.splits prod.splits option.splits)

lemma serve_begin_inv:
  assumes "serveDaemon_begin clip_init raw hostname listen now os cfg = Inr s"
  shows "serve_inv D s"
proof -
  obtain m where m: "NewManager raw hostname (mesh_options (Config_WithDefaults cfg)) False = Inr m"
      "s = \<lparr>d_main = MainListen, d_node = started_node 0 now os m, d_server = None, d_serving = False,
      d_errCh = None, d_handlers = [], d_answers = []\<rparr>"
    using serveDaemon_begin_cases [OF assms] .
  have "node_inv D (started_node 0 now os m)"
    by (rule started_node_inv [OF m(1)]) (simp add: mesh_options_def)
  then show ?thesis
    by (simp add: m(2) serve_inv_def server_ok_def listener_closed_def started_node_def Runtime_Start_def newRuntime_def
        Let_def) (simp add: log_line_def)
qed

section \<open>Refinement of the abstract daemon\<close>

fun pc_of :: "main_pc \<Rightarrow> daemon_pc" where
  "pc_of (MainWait r) = AtWait r"
| "pc_of MainReceive = AtReceive"
| "pc_of (MainReturned (Some (ErrServe e))) = Returned (Some e)"
| "pc_of (MainReturned r) = Returned None"
| "pc_of pc = AtSelect"

definition daemon_view :: "('w, 'os) daemon \<Rightarrow> daemon_state" where
  "daemon_view s =
     \<lparr>dm_pc = pc_of (d_main s), dm_ctxDone = n_ctxDone (d_node s), dm_closed = listener_closed s,
      dm_serving = d_serving s, dm_errCh = d_errCh s, dm_stopped = rt_waitClosed (n_rt (d_node s))\<rparr>"

text \<open>What the node does is seen as a signal, as the end of the runtime, or not at all.\<close>

lemma node_view_step:
  assumes "(node_step D any_frame)\<^sup>=\<^sup>= (d_node s) n"
  shows "daemon_step\<^sup>=\<^sup>= (daemon_view s) (daemon_view (s\<lparr>d_node := n\<rparr>))"
proof (cases "n = d_node s")
  case False
  then have "node_step D any_frame (d_node s) n" using assms by auto
  from node_step_flags [OF this] consider
      (same) "n_ctxDone n = n_ctxDone (d_node s)" "rt_waitClosed (n_rt n) = rt_waitClosed (n_rt (d_node s))"
    | (signal) "\<not> n_ctxDone (d_node s)" "n_ctxDone n" "rt_waitClosed (n_rt n) = rt_waitClosed (n_rt (d_node s))"
    | (stops) "n_ctxDone (d_node s)" "n_ctxDone n" "\<not> rt_waitClosed (n_rt (d_node s))" "rt_waitClosed (n_rt n)"
    by blast
  then show ?thesis
  proof cases
    case same
    then show ?thesis by (simp add: daemon_view_def listener_closed_def)
  next
    case signal
    then show ?thesis
      using daemon_step.signal [of "daemon_view s"] by (simp add: daemon_view_def listener_closed_def)
  next
    case stops
    then show ?thesis
      using daemon_step.runtime_stops [of "daemon_view s"] by (simp add: daemon_view_def listener_closed_def)
  qed
qed simp

lemma serve_view_step:
  assumes "serve_step D decode s s'" and inv: "serve_inv D s" and server: "d_server s \<noteq> None"
  shows "daemon_step\<^sup>=\<^sup>= (daemon_view s) (daemon_view s')"
proof -
  note node = serve_step_node [OF assms(1)]
  have ok: "main_ok (d_main s) (n_ctxDone (d_node s)) (rt_waitClosed (n_rt (d_node s))) True"
    "rt_waitErr (n_rt (d_node s)) = None"
    using inv server by (simp_all add: serve_inv_def)
  show ?thesis
    using assms(1)
  proof cases
    case (node_moves n)
    then show ?thesis using node_view_step [of D s n] by simp
  next
    case (answer xs request ys order response n)
    have "daemon_view s' = daemon_view (s\<lparr>d_node := n\<rparr>)"
      by (simp add: answer(1) daemon_view_def listener_closed_def)
    then show ?thesis using node_view_step [of D s n] node by (simp add: answer(1))
  next
    case (close_listener srv listener_err fn_err)
    then show ?thesis
      using daemon_step.close_listener [of "daemon_view s"] by (simp add: daemon_view_def listener_closed_def)
  next
    case (accept_fails e r)
    then show ?thesis
      using daemon_step.accept_fails [of "daemon_view s" e r] daemon_step.accept_closed [of "daemon_view s" e r]
      by (cases "listener_closed s") (auto simp: daemon_view_def listener_closed_def)
  next
    case (select_server r)
    then show ?thesis
      using daemon_step.select_server [of "daemon_view s" r]
      by (cases r) (simp_all add: daemon_view_def listener_closed_def)
  next
    case select_context
    then show ?thesis
      using daemon_step.select_context [of "daemon_view s"] by (simp add: daemon_view_def listener_closed_def)
  next
    case (waited r w)
    then show ?thesis
      using daemon_step.wait_error [of "daemon_view s"] daemon_step.wait_ok [of "daemon_view s"] ok(2)
      by (cases r) (auto simp: daemon_view_def listener_closed_def Runtime_Wait_def split: if_splits)
  next
    case (receive r)
    then show ?thesis
      using daemon_step.receive [of "daemon_view s" r]
      by (cases r) (simp_all add: daemon_view_def listener_closed_def)
  qed (use ok server in \<open>auto simp: daemon_view_def listener_closed_def\<close>)
qed

text \<open>
  Until the server is there the view is the abstract start, up to a signal and the end of the
  runtime.
\<close>

lemma daemon_view_start:
  assumes "serve_inv D s" and "d_main s = MainListen"
  shows "daemon_reachable (daemon_view (s\<lparr>d_main := MainSelect, d_server := Some srv, d_serving := True\<rparr>))
    \<or> cs_closeDone srv"
proof -
  let ?v = "daemon_view (s\<lparr>d_main := MainSelect, d_server := Some srv, d_serving := True\<rparr>)"
  let ?signalled = "daemon_start\<lparr>dm_ctxDone := True\<rparr>"
  have "d_errCh s = None" "rt_waitClosed (n_rt (d_node s)) \<Longrightarrow> n_ctxDone (d_node s)"
    using assms by (simp_all add: serve_inv_def server_ok_def node_inv_def ended_inv_def)
  then have "\<not> cs_closeDone srv \<Longrightarrow> ?v = daemon_start \<or> ?v = ?signalled \<or> ?v = ?signalled\<lparr>dm_stopped := True\<rparr>"
    by (auto simp: daemon_view_def daemon_start_def listener_closed_def)
  moreover have "daemon_reachable ?signalled"
    by (rule daemon_reachable.step [OF daemon_reachable.init daemon_step.signal]) (simp add: daemon_start_def)
  moreover from this have "daemon_reachable (?signalled\<lparr>dm_stopped := True\<rparr>)"
    by (rule daemon_reachable.step [OF _ daemon_step.runtime_stops]) (simp_all add: daemon_start_def)
  ultimately show ?thesis using daemon_reachable.init by metis
qed

lemma serve_run_view:
  assumes "serve_daemon_run D decode s0 s" and "serve_inv D s0" and "d_server s0 = None"
  shows "d_server s \<noteq> None \<longrightarrow> daemon_reachable (daemon_view s)"
  using assms(1)
proof (induction rule: rtranclp_induct)
  case base
  show ?case using assms(3) by simp
next
  case (step s s')
  have inv: "serve_inv D s" by (rule serve_run_inv [OF step.hyps(1) assms(2)])
  show ?case
  proof (cases "d_server s = None")
    case False
    then show ?thesis
      using serve_view_step [OF step.hyps(2) inv False] step.IH daemon_reachable.step by auto
  next
    case True
    show ?thesis
      using step.hyps(2)
    proof cases
      case (listen_ok srv)
      then show ?thesis using daemon_view_start [OF inv listen_ok(2), of srv] by (auto simp: NewControlServer_def)
    qed (use True in auto)
  qed
qed

section \<open>The way down\<close>

text \<open>
  Blocked for ever: the \<open>select\<close> has taken the nil of \<open>Serve\<close>, so the last receive has no sender.
\<close>

definition hung :: "('w, 'os) daemon \<Rightarrow> bool" where
  "hung s \<longleftrightarrow> d_main s \<in> {MainWait None, MainReceive} \<and> d_errCh s = None \<and> \<not> d_serving s"

lemma hung_step:
  assumes "serve_step D decode s s'" and "hung s" and "serve_inv D s"
  shows "hung s'"
  using assms(1)
proof cases
  case (waited r w)
  then show ?thesis using assms(2,3) by (auto simp: hung_def serve_inv_def Runtime_Wait_def split: if_splits)
qed (use assms(2) in \<open>auto simp: hung_def\<close>)

lemma hung_run: "serve_daemon_run D decode s s' \<Longrightarrow> hung s \<Longrightarrow> serve_inv D s \<Longrightarrow> hung s' \<and> serve_inv D s'"
  by (induction rule: rtranclp_induct) (auto intro: hung_step serve_step_inv)

lemma daemon_view_ended:
  "(\<exists>r. dm_pc (daemon_view s) = Returned r)
     \<or> dm_pc (daemon_view s) = AtReceive \<and> dm_errCh (daemon_view s) = None \<and> \<not> dm_serving (daemon_view s)
   \<Longrightarrow> (\<exists>r. d_main s = MainReturned r) \<or> hung s"
  by (cases "d_main s") (auto simp: daemon_view_def hung_def)

text \<open>The runtime's way down, inside the daemon.\<close>

lemma runtime_down:
  assumes "serve_inv D s" and "n_ctxDone (d_node s)"
  shows "\<exists>n. serve_daemon_run D decode s (s\<lparr>d_node := n\<rparr>) \<and> n_ctxDone n \<and> rt_waitClosed (n_rt n)
    \<and> rt_waitErr (n_rt n) = None \<and> n_loop n = ClipEnded \<and> \<not> n_logLoop n"
proof -
  have "node_inv D (d_node s)" using assms(1) by (simp add: serve_inv_def)
  then obtain n where n: "node_run D any_frame (d_node s) n" "n_loop n = ClipEnded" "\<not> n_logLoop n"
      "rt_waitClosed (n_rt n)"
    using node_down assms(2) by blast
  have run: "serve_daemon_run D decode s (s\<lparr>d_node := n\<rparr>)" by (rule node_run_serve [OF n(1)])
  have inv: "serve_inv D (s\<lparr>d_node := n\<rparr>)" by (rule serve_run_inv [OF run assms(1)])
  have "n_ctxDone n" using inv n(4) by (simp add: serve_inv_def node_inv_def ended_inv_def)
  then show ?thesis using run n inv by (auto simp: serve_inv_def)
qed

text \<open>
  With the runtime down, the main function can go from wherever it stands to its return: each
  lemma takes it one stage further.
\<close>

definition runtime_ended :: "('w, 'os) daemon \<Rightarrow> bool" where
  "runtime_ended s \<longleftrightarrow> n_ctxDone (d_node s) \<and> rt_waitClosed (n_rt (d_node s)) \<and> rt_waitErr (n_rt (d_node s)) = None"

definition returns_from :: "('img, 'os) node_deps \<Rightarrow> ('w \<Rightarrow> string + string) \<Rightarrow> ('w, 'os) daemon \<Rightarrow> bool" where
  "returns_from D decode s \<longleftrightarrow> (\<exists>s'. serve_daemon_run D decode s s' \<and> d_node s' = d_node s
     \<and> (\<exists>r. d_main s' = MainReturned r))"

lemma returns_step:
  "serve_step D decode s s' \<Longrightarrow> d_node s' = d_node s \<Longrightarrow> returns_from D decode s' \<Longrightarrow> returns_from D decode s"
  unfolding returns_from_def by (metis converse_rtranclp_into_rtranclp)

lemma returned_returns: "d_main s = MainReturned r \<Longrightarrow> returns_from D decode s"
  unfolding returns_from_def by blast

lemma receive_returns: "d_main s = MainReceive \<Longrightarrow> d_errCh s = Some r \<Longrightarrow> returns_from D decode s"
  by (rule returns_step [OF serve_step.receive]) (auto intro: returned_returns)

lemma closed_returns:
  "d_main s = MainReceive \<Longrightarrow> d_serving s \<Longrightarrow> listener_closed s \<Longrightarrow> returns_from D decode s"
  using serve_step.accept_fails [of s "[]" None D decode]
  by (intro returns_step [of D decode s "s\<lparr>d_serving := False, d_errCh := Some None\<rparr>"] receive_returns) simp_all

lemma serving_returns:
  assumes "d_main s = MainReceive" and "d_serving s" and "d_server s = Some srv" and "n_ctxDone (d_node s)"
  shows "returns_from D decode s"
proof (cases "cs_closeDone srv")
  case True
  then show ?thesis using assms by (intro closed_returns) (simp_all add: listener_closed_def)
next
  case False
  show ?thesis
    by (rule returns_step [OF serve_step.close_listener [OF assms(3,4) False]], simp, rule closed_returns)
      (use assms in \<open>simp_all add: listener_closed_def\<close>)
qed

lemma receiving_returns:
  assumes "serve_inv D s" and "d_main s = MainReceive" and "n_ctxDone (d_node s)" and "\<not> hung s"
  shows "returns_from D decode s"
proof (cases "d_errCh s")
  case None
  then have "d_serving s" using assms(2,4) by (simp add: hung_def)
  moreover obtain srv where "d_server s = Some srv" using assms(1,2) by (auto simp: serve_inv_def)
  ultimately show ?thesis using serving_returns assms(2,3) by blast
qed (use receive_returns assms(2) in blast)

lemma waiting_returns:
  assumes inv: "serve_inv D s" and "d_main s = MainWait r" and ended: "runtime_ended s" and "\<not> hung s"
  shows "returns_from D decode s"
proof -
  have w: "Runtime_Wait (n_rt (d_node s)) = Some None" using ended by (simp add: Runtime_Wait_def runtime_ended_def)
  note step = serve_step.waited [OF assms(2) w, of D decode]
  show ?thesis
  proof (cases r)
    case None
    let ?t = "s\<lparr>d_main := MainReceive\<rparr>"
    have t: "serve_step D decode s ?t" using step None by simp
    have "returns_from D decode ?t"
      by (rule receiving_returns [OF serve_step_inv [OF t inv]])
        (use ended assms(2,4) None in \<open>simp_all add: runtime_ended_def hung_def\<close>)
    then show ?thesis by (intro returns_step [OF t]) simp
  next
    case (Some e)
    then show ?thesis by (intro returns_step [OF step] returned_returns [of _ "Some (ErrServe e)"]) simp_all
  qed
qed

lemma selecting_returns:
  assumes inv: "serve_inv D s" and "d_main s = MainSelect" and ended: "runtime_ended s"
  shows "returns_from D decode s"
proof -
  have "n_ctxDone (d_node s)" using ended by (simp add: runtime_ended_def)
  note t = serve_step.select_context [OF assms(2) this, of D decode]
  have "returns_from D decode (s\<lparr>d_main := MainWait None\<rparr>)"
    by (rule waiting_returns [OF serve_step_inv [OF t inv]])
      (use inv ended assms(2) in \<open>auto simp: runtime_ended_def hung_def serve_inv_def server_ok_def\<close>)
  then show ?thesis by (intro returns_step [OF t]) simp
qed

lemma ended_returns:
  assumes inv: "serve_inv D s" and ended: "runtime_ended s" and "\<not> hung s"
  shows "returns_from D decode s"
proof (cases "d_main s")
  case MainListen
  obtain srv where srv: "NewControlServer None = Inr srv" by (simp add: NewControlServer_def)
  note t = serve_step.listen_ok [OF MainListen srv, of D decode]
  have "returns_from D decode (s\<lparr>d_main := MainSelect, d_server := Some srv, d_serving := True\<rparr>)"
    by (rule selecting_returns [OF serve_step_inv [OF t inv]]) (use ended in \<open>simp_all add: runtime_ended_def\<close>)
  then show ?thesis by (intro returns_step [OF t]) simp
next
  case (MainFailed e)
  have "Runtime_Wait (n_rt (d_node s)) \<noteq> None" using ended by (simp add: Runtime_Wait_def runtime_ended_def)
  then show ?thesis
    by (intro returns_step [OF serve_step.failed_end [OF MainFailed]] returned_returns) simp_all
next
  case MainSelect
  then show ?thesis by (rule selecting_returns [OF inv _ ended])
next
  case (MainWait r)
  then show ?thesis by (rule waiting_returns [OF inv _ ended assms(3)])
next
  case MainReceive
  then show ?thesis using receiving_returns [OF inv _ _ assms(3)] ended by (simp add: runtime_ended_def)
next
  case (MainReturned r)
  then show ?thesis by (rule returned_returns)
qed

text \<open>From the context's end: the daemon returns, unless it is blocked.\<close>

lemma daemon_down:
  assumes inv: "serve_inv D s" and "n_ctxDone (d_node s)" and "\<not> hung s"
  shows "\<exists>s'. serve_daemon_run D decode s s' \<and> (\<exists>r. d_main s' = MainReturned r)
    \<and> n_loop (d_node s') = ClipEnded \<and> \<not> n_logLoop (d_node s')"
proof -
  obtain n where n: "serve_daemon_run D decode s (s\<lparr>d_node := n\<rparr>)" "n_ctxDone n" "rt_waitClosed (n_rt n)"
      "rt_waitErr (n_rt n) = None" "n_loop n = ClipEnded" "\<not> n_logLoop n"
    using runtime_down [OF inv assms(2)] by blast
  have "returns_from D decode (s\<lparr>d_node := n\<rparr>)"
    by (rule ended_returns [OF serve_run_inv [OF n(1) inv]]) (use n assms(3) in \<open>simp_all add: runtime_ended_def hung_def\<close>)
  then obtain s' r where "serve_daemon_run D decode (s\<lparr>d_node := n\<rparr>) s'" "d_node s' = n" "d_main s' = MainReturned r"
    unfolding returns_from_def by auto
  then show ?thesis using n(1,5,6) by (intro exI [of _ s']) (auto intro: rtranclp_trans)
qed

text \<open>A pending stop request can be answered: then the context is done.\<close>

lemma stop_answered:
  assumes inv: "serve_inv D s" and "\<not> hung s"
    and "n_ctxDone (d_node s) \<or> (\<exists>request \<in> set (d_handlers s). decode request = Inr ''stop'')"
  shows "\<exists>t. serve_daemon_run D decode s t \<and> n_ctxDone (d_node t) \<and> \<not> hung t \<and> serve_inv D t"
proof (cases "n_ctxDone (d_node s)")
  case True
  then show ?thesis using assms(1,2) by blast
next
  case False
  then obtain xs request ys where req: "d_handlers s = xs @ request # ys" "decode request = Inr ''stop''"
    using assms(3) by (metis split_list)
  obtain order where order: "enumerates order (n_mgr (d_node s))" using enumeration_exists by blast
  obtain response n where n: "handleConn decode (controller_status order) stop_node request (d_node s) = (response, n)"
    by (metis surj_pair)
  then have "n = stop_node (d_node s)" using handleConn_node req(2) by (metis snd_conv)
  then have ctx: "n_ctxDone n" by simp
  note step = serve_step.answer [OF req(1) order n]
  show ?thesis
    using step ctx assms(2) serve_step_inv [OF step inv] by (intro exI conjI) (rule r_into_rtranclp, simp_all add: hung_def)
qed

text \<open>
  How the main function gets blocked while \<open>Serve\<close> is running: the context is done, the listener is
  closed, \<open>Serve\<close> returns nil, and the \<open>select\<close> takes it.
\<close>

lemma closes_run:
  assumes "d_server s = Some srv" and "n_ctxDone (d_node s)"
  shows "\<exists>srv'. serve_daemon_run D decode s (s\<lparr>d_server := Some srv'\<rparr>) \<and> cs_closeDone srv'"
proof (cases "cs_closeDone srv")
  case True
  moreover have "s\<lparr>d_server := Some srv\<rparr> = s" using assms(1) by simp
  ultimately show ?thesis using rtranclp.rtrancl_refl [of "serve_step D decode" s] by metis
next
  case False
  then show ?thesis
    using serve_step.close_listener [OF assms False, of D decode None None]
    by (intro exI [of _ "fst (Close None None srv)"]) (simp add: r_into_rtranclp)
qed

lemma block_run:
  assumes inv: "serve_inv D s" and "d_main s = MainSelect" and "d_serving s"
  shows "\<exists>s'. serve_daemon_run D decode s s' \<and> hung s' \<and> rt_waitClosed (n_rt (d_node s'))"
proof -
  let ?a = "s\<lparr>d_node := stop_node (d_node s)\<rparr>"
  have a: "serve_step D decode s ?a" by (rule serve_step.node_moves [OF stop_node_step])
  obtain srv where "d_server ?a = Some srv" using inv assms(2) by (auto simp: serve_inv_def)
  then obtain srv' where b: "serve_daemon_run D decode ?a (?a\<lparr>d_server := Some srv'\<rparr>)" "cs_closeDone srv'"
    using closes_run [of ?a srv D decode] by auto
  let ?b = "?a\<lparr>d_server := Some srv'\<rparr>"
  let ?c = "?b\<lparr>d_serving := False, d_errCh := Some None\<rparr>"
  have c: "serve_step D decode ?b ?c"
    using serve_step.accept_fails [of ?b "[]" None D decode] assms(3) b(2) by (simp add: listener_closed_def)
  let ?d = "?c\<lparr>d_main := MainWait None, d_errCh := None, d_node := d_node ?c\<rparr>"
  have d: "serve_step D decode ?c ?d"
    using serve_step.select_server [of ?c None D decode] assms(2) by simp
  have run: "serve_daemon_run D decode s ?d"
    by (rule rtranclp.rtrancl_into_rtrancl [OF rtranclp.rtrancl_into_rtrancl [OF
          converse_rtranclp_into_rtranclp [where r = "serve_step D decode", OF a b(1)] c] d])
  have "n_ctxDone (d_node ?d)" by simp
  from runtime_down [OF serve_run_inv [OF run inv] this]
  obtain n where n: "serve_daemon_run D decode ?d (?d\<lparr>d_node := n\<rparr>)" "rt_waitClosed (n_rt n)" by blast
  have "hung (?d\<lparr>d_node := n\<rparr>)" by (simp add: hung_def)
  then show ?thesis using rtranclp_trans [OF run n(1)] n(2) by (intro exI [of _ "?d\<lparr>d_node := n\<rparr>"]) simp
qed

section \<open>What clients are told\<close>

lemma main_ok_returned: "main_ok (MainReturned r) ctx closed server \<Longrightarrow> closed \<and> (\<forall>e. r \<noteq> Some (ErrWait e))"
  by (cases "(MainReturned r, ctx, closed, server)" rule: main_ok.cases) auto

definition honest :: "('w, 'os) daemon \<Rightarrow> bool" where
  "honest s \<longleftrightarrow> (\<forall>answer \<in> set (d_answers s). cr_OK answer \<longrightarrow>
     (\<exists>st. cr_Status answer = Some st \<and> st_Running st \<and> st_NodeID st = mg_nodeID (n_mgr (d_node s))))"

lemma handleConn_OK:
  "handleConn decode status stop request h = (response, h') \<Longrightarrow> cr_OK response \<Longrightarrow> cr_Status response = Some (status h)"
  by (auto simp: handleConn_def error_response_def status_response_def split: sum.splits if_splits)

lemma serve_step_honest:
  assumes "serve_step D decode s s'" and "serve_inv D s" and "honest s"
  shows "honest s'"
proof -
  have "node_inv D (d_node s)" using assms(2) by (simp add: serve_inv_def)
  then have id: "mg_nodeID (n_mgr (d_node s')) = mg_nodeID (n_mgr (d_node s))"
    using serve_step_node [OF assms(1)] node_step_id by auto
  show ?thesis
    using assms(1)
  proof cases
    case (answer xs request ys order response n)
    have "cr_OK response \<Longrightarrow> cr_Status response = Some (controller_status order (d_node s))"
      using handleConn_OK [OF answer(4)] .
    then show ?thesis
      using assms(3) id by (auto simp: answer(1) honest_def controller_status_def Runtime_Status_def)
  qed (use assms(3) id in \<open>simp_all add: honest_def\<close>)
qed

lemma serve_run_honest:
  "serve_daemon_run D decode s s' \<Longrightarrow> serve_inv D s \<Longrightarrow> honest s \<Longrightarrow> honest s'"
proof (induction rule: rtranclp_induct)
  case (step s1 s2)
  then show ?case using serve_step_honest serve_run_inv by blast
qed simp

end
