(* ===== verification/CliProperties.thy ===== *)
theory CliProperties
  imports Cli Samples
begin

text \<open>
  The properties of \<open>cmd/clippy\<close>: what the daemon inherits from the command that starts it, the
  outcome of the commands, the wait for the daemon, and the end of the daemon's main function.
\<close>

section \<open>From the command line to the daemon\<close>

lemma cli_flag_names [simp]:
  "cli_flags c ''name'' = Some ValueFlag" "cli_flags c ''listen-addr'' = Some ValueFlag"
  "cli_flags c ''port'' = Some ValueFlag" "cli_flags c ''service-name'' = Some ValueFlag"
  "cli_flags c ''domain'' = Some ValueFlag" "cli_flags c ''websocket-path'' = Some ValueFlag"
  "cli_flags c ''control'' = Some ValueFlag"
  by (simp_all add: cli_flags_def)

lemma cli_flag_value:
  assumes "name \<in> {''name'', ''listen-addr'', ''port'', ''service-name'', ''domain'', ''websocket-path'', ''control''}"
  shows "parse_flags (cli_flags c) set_cli_flag ((''--'' @ name) # x # args) v =
    (case set_cli_flag name x v of None \<Rightarrow> Inl (FlagInvalidValue name x)
     | Some v \<Rightarrow> parse_flags (cli_flags c) set_cli_flag args v)"
  using assms by (intro parse_flags_value) auto

text \<open>The argument list made of the flags that are not zero, parsed on top of any configuration.\<close>

lemma parse_daemonArgs:
  assumes "- (2 ^ 63) \<le> cf_Port cfg" "cf_Port cfg < 2 ^ 63"
  shows "parse_flags (cli_flags c) set_cli_flag (daemonArgs cfg) (base, fg) =
    Inr ((\<lparr>cf_Name = or_default_string (cf_Name cfg) (cf_Name base),
          cf_ListenAddr = or_default_string (cf_ListenAddr cfg) (cf_ListenAddr base),
          cf_Port = (if cf_Port cfg = 0 then cf_Port base else cf_Port cfg),
          cf_ServiceName = or_default_string (cf_ServiceName cfg) (cf_ServiceName base),
          cf_Domain = or_default_string (cf_Domain cfg) (cf_Domain base),
          cf_WebSocketPath = or_default_string (cf_WebSocketPath cfg) (cf_WebSocketPath base),
          cf_ControlEndpoint = or_default_string (cf_ControlEndpoint cfg) (cf_ControlEndpoint base)\<rparr>, fg), [])"
proof -
  note v = cli_flag_value [of "''name''", simplified] cli_flag_value [of "''listen-addr''", simplified]
    cli_flag_value [of "''port''", simplified] cli_flag_value [of "''service-name''", simplified]
    cli_flag_value [of "''domain''", simplified] cli_flag_value [of "''websocket-path''", simplified]
    cli_flag_value [of "''control''", simplified]
  show ?thesis
    by (cases base) (simp add: daemonArgs_def v set_cli_flag_def parse_int_itoa [OF assms] or_default_string_def)
qed


lemma parsed_config:
  assumes "parseCommonFlags getenv endpoint name args = Inr (cfg, fg)"
  shows "- (2 ^ 63) \<le> cf_Port cfg" "cf_Port cfg < 2 ^ 63" "cf_ServiceName cfg \<noteq> ''''"
    "cf_Domain cfg \<noteq> ''''" "cf_WebSocketPath cfg \<noteq> ''''"
proof -
  obtain c rest where c: "parse_flags (cli_flags name) set_cli_flag args (env_config getenv endpoint, False) = Inr ((c, fg), rest)"
      "cfg = Config_WithDefaults c"
    using assms by (auto simp: parseCommonFlags_def split: sum.splits)
  let ?P = "\<lambda>v :: Config \<times> bool. - (2 ^ 63) \<le> cf_Port (fst v) \<and> cf_Port (fst v) < 2 ^ 63"
  have "?P (c, fg)"
  proof (rule parse_flags_keeps [where P = ?P, OF _ _ c(1)])
    show "?P (env_config getenv endpoint, False)"
      by (auto simp: env_config_def envInt_def Atoi_def Let_def dest: parse_int_range split: sum.split)
  qed (auto simp: set_cli_flag_def dest: parse_int_range split: prod.splits if_splits sum.splits)
  then show "- (2 ^ 63) \<le> cf_Port cfg" "cf_Port cfg < 2 ^ 63"
    by (simp_all add: c(2) Config_WithDefaults_sel)
  show "cf_ServiceName cfg \<noteq> ''''" "cf_Domain cfg \<noteq> ''''" "cf_WebSocketPath cfg \<noteq> ''''"
    by (simp_all add: c(2) Config_WithDefaults_sel or_default_string_def)
qed

text \<open>C35: \<open>clippy start\<close> hands its configuration to the daemon it starts: the daemon, in the same
environment, accepts the arguments \<open>daemonArgs\<close> makes, whatever characters the values contain,
and arrives at the same configuration, except that a name, a listen address, a port or a
control endpoint that the user set to the zero value is replaced by the one of the
environment.\<close>

theorem daemon_inherits_config:
  assumes "parseCommonFlags getenv endpoint ''start'' args = Inr (cfg, fg)"
  shows "parseCommonFlags getenv endpoint ''daemon'' (daemonArgs cfg) =
    Inr (cfg\<lparr>cf_Name := or_default_string (cf_Name cfg) (envString getenv ''CLIPPY_NAME'' ''''),
             cf_ListenAddr := or_default_string (cf_ListenAddr cfg) (envString getenv ''CLIPPY_LISTEN_ADDR'' ''''),
             cf_Port := (if cf_Port cfg = 0 then envInt getenv ''CLIPPY_PORT'' 0 else cf_Port cfg),
             cf_ControlEndpoint := or_default_string (cf_ControlEndpoint cfg)
               (envString getenv ''CLIPPY_CONTROL_ENDPOINT'' endpoint)\<rparr>, False)"
  using parsed_config [OF assms]
  by (cases cfg) (simp add: parseCommonFlags_def parse_daemonArgs env_config_def Config_WithDefaults_def
      or_default_string_def)

text \<open>An environment that names the node, in which a user starts it without a name.\<close>

definition sample_getenv :: "string \<Rightarrow> string" where
  "sample_getenv name = (if name = ''CLIPPY_NAME'' then ''desk'' else '''')"

lemma sample_start_args:
  "\<exists>cfg. parseCommonFlags sample_getenv ''/tmp/clippy.sock'' ''start'' [''--name'', '''', ''--port'', ''0x1F90''] = Inr (cfg, False)
    \<and> cf_Name cfg = '''' \<and> cf_Port cfg = 8080"
proof -
  have p: "parse_int True ''0x1F90'' = Inr 8080"
    by (simp add: parse_int_def parse_uint_def strip_sign_def detect_base_def lower_byte_def digit_value_def)
  have v: "parse_flags (cli_flags ''start'') set_cli_flag [''--name'', '''', ''--port'', ''0x1F90''] (cfg, False) =
      Inr ((cfg\<lparr>cf_Name := '''', cf_Port := 8080\<rparr>, False), [])" for cfg
    using cli_flag_value [of "''name''"] cli_flag_value [of "''port''"]
    by (simp add: set_cli_flag_def p)
  show ?thesis
    by (simp add: parseCommonFlags_def v Config_WithDefaults_sel)
qed

theorem daemon_inherits_config_witness:
  "\<exists>cfg daemon_cfg.
     parseCommonFlags sample_getenv ''/tmp/clippy.sock'' ''start'' [''--name'', '''', ''--port'', ''0x1F90''] = Inr (cfg, False)
   \<and> parseCommonFlags sample_getenv ''/tmp/clippy.sock'' ''daemon'' (daemonArgs cfg) = Inr (daemon_cfg, False)
   \<and> cf_Name cfg = '''' \<and> cf_Name daemon_cfg = ''desk'' \<and> cf_Port daemon_cfg = 8080"
proof -
  obtain cfg where cfg: "parseCommonFlags sample_getenv ''/tmp/clippy.sock'' ''start''
      [''--name'', '''', ''--port'', ''0x1F90''] = Inr (cfg, False)" "cf_Name cfg = ''''" "cf_Port cfg = 8080"
    using sample_start_args by blast
  have "trim_space ''desk'' = ''desk''" by code_simp
  then show ?thesis
    using daemon_inherits_config [OF cfg(1)] cfg
    by (auto simp: envString_def sample_getenv_def or_default_string_def)
qed


section \<open>Waiting for the daemon\<close>

text \<open>C36: When the wait for a started daemon ends, and when it does not. On every clock that moves on by at
least the 200 ms of the sleep between two polls, one of three things happens within
\<open>timeout\<close>/200 ms + 1 further polls, and before it all polls have returned, none of them with a running daemon and
none after the deadline. A poll answers with a running daemon, and the wait returns its status. Or
a poll returns after the deadline, and the wait returns its error, or the time-out error if it had none. Or a
poll never returns, since its connection has no deadline: then the wait never returns, whatever
the time-out, and this is the only way in which it does not.\<close>

theorem wait_for_daemon_ends:
  assumes sleep: "\<And>i. clock i + 200 * millisecond \<le> clock (Suc i)" and "now \<le> clock 0" and "0 \<le> timeout"
  shows "\<exists>i. int i \<le> timeout div (200 * millisecond) + 1
    \<and> (\<forall>j < i. \<exists>r. request j = Some r \<and> \<not> ready r \<and> clock j \<le> now + timeout)
    \<and> (case request i of
         None \<Rightarrow> waitForDaemon request clock now timeout = None
       | Some r \<Rightarrow>
           (ready r \<and> (\<exists>status. r = Inr (Some status) \<and> st_Running status
              \<and> waitForDaemon request clock now timeout = Some (Inr status)))
           \<or> (\<not> ready r \<and> now + timeout < clock i
              \<and> waitForDaemon request clock now timeout = Some (Inl (poll_error r))))"
proof -
  let ?stop = "\<lambda>i. \<not> poll_passed request clock (now + timeout) i"
  define n where "n = nat (timeout div (200 * millisecond) + 1)"
  have "int n = timeout div (200 * millisecond) + 1"
    using assms(3) by (simp add: n_def pos_imp_zdiv_nonneg_iff)
  then have n: "int n \<le> timeout div (200 * millisecond) + 1" "timeout < int n * (200 * millisecond)"
    by (simp_all add: algebra_simps)
  then have "?stop n"
    using clock_advances [of clock "200 * millisecond" n, OF sleep] assms(2) by (simp add: poll_passed_def)
  then obtain i where i: "?stop i" "i \<le> n" "\<forall>j < i. \<not> ?stop j"
    using LeastI [of ?stop n] Least_le [of ?stop n] not_less_Least [of _ ?stop] that [of "LEAST i. ?stop i"]
    by blast
  have w: "waitForDaemon request clock now timeout = wait_loop request clock (now + timeout) i"
    unfolding waitForDaemon_def using wait_loop_skip [of i request clock "now + timeout" 0] i(3) by simp
  have "int i \<le> timeout div (200 * millisecond) + 1" using i(2) n(1) by simp
  moreover have "\<forall>j < i. \<exists>r. request j = Some r \<and> \<not> ready r \<and> clock j \<le> now + timeout"
    using i(3) by (auto simp: poll_passed_def split: option.splits)
  moreover have "waitForDaemon request clock now timeout = None" if "request i = None"
    using w wait_loop_hangs [of request i clock "now + timeout"] that by simp
  moreover have "waitForDaemon request clock now timeout = Some (Inl (poll_error r))" "now + timeout < clock i"
    if "request i = Some r" "\<not> ready r" for r
    using w wait_loop_stops [of request i r "now + timeout" clock] that i(1) by (auto simp: poll_passed_def)
  moreover have "\<exists>status. r = Inr (Some status) \<and> st_Running status
      \<and> waitForDaemon request clock now timeout = Some (Inr status)" if "request i = Some r" "ready r" for r
    using w wait_loop_stops [of request i r "now + timeout" clock] that by (cases r rule: ready.cases) auto
  ultimately show ?thesis by (intro exI [of _ i]) (auto split: option.split)
qed

text \<open>A daemon that refuses every connection, and one that accepts them and does not answer.\<close>

theorem wait_for_daemon_ends_witness:
  "waitForDaemon (\<lambda>_. Some (Inl (OpError ''refused''))) (\<lambda>i. int i * second) 0 (10 * second) = Some (Inl (OpError ''refused''))
   \<and> waitForDaemon (\<lambda>_. None) (\<lambda>i. int i * second) 0 (10 * second) = None"
  using wait_for_daemon_ends [of "\<lambda>i. int i * second" 0 "10 * second" "\<lambda>_. Some (Inl (OpError ''refused''))"]
    wait_for_daemon_ends [of "\<lambda>i. int i * second" 0 "10 * second" "\<lambda>_. None"]
  by (auto simp: algebra_simps poll_error_def)

section \<open>The commands and a running daemon\<close>

text \<open>C37: Commands that reach a running daemon: \<open>start\<close> reports that it is running and starts
nothing, not even in the foreground; \<open>status\<close> prints the daemon's status with one line per peer
of its peer table; \<open>stop\<close> reports the daemon that stops; and none of them fails or panics.\<close>

theorem commands_meet_daemon:
  assumes world: "\<And>endpoint command. cw_request w endpoint command = RequestControl (Some None) (Some None)
      (Some (Inr (fst (handleConn Inr (\<lambda>h. Runtime_Status name nodeID (Peers order m) h) stop command r))))"
    and start: "cli_config w ''start'' start_args = Inr (cfg1, foreground)"
    and status: "cli_config w ''status'' status_args = Inr (cfg2, fg2)"
    and stop: "cli_config w ''stop'' stop_args = Inr (cfg3, fg3)"
  shows "run w (''start'' # start_args) = cli_only [AlreadyRunning name nodeID] CliOk
    \<and> run w (''status'' # status_args) = cli_only
        ([RunningYes, NameLine name, NodeIDLine nodeID, StartedAtLine (rt_startedAt r),
          PeerCountLine (length (Peers order m))] @ map (PeerLine \<circ> peer_status) (Peers order m)) CliOk
    \<and> run w (''stop'' # stop_args) = cli_only [Stopping name nodeID] CliOk"
proof -
  have r: "cw_request w endpoint command = Some (Inr (Some (Runtime_Status name nodeID (Peers order m) r)))"
    if "command = ''status'' \<or> command = ''stop''" for endpoint command
    using that by (auto simp: world RequestControl_def handleConn_def status_response_def)
  show ?thesis
    using start status stop
    by (simp add: run_def runStart_def runStatus_def runStop_def r running_status_def Runtime_Status_def)
qed

definition daemon_world :: cli_world where
  "daemon_world =
     \<lparr>cw_getenv = sample_getenv, cw_endpoint = ''/tmp/clippy.sock'',
      cw_request = (\<lambda>endpoint command. RequestControl (Some None) (Some None)
        (Some (Inr (fst (handleConn Inr (\<lambda>h. Runtime_Status ''desk'' ''id'' (Peers [''a'', ''z''] sample_mesh) h) (\<lambda>h. h) command (newRuntime ())))))),
      cw_poll = (\<lambda>_ _. Some (Inr None)), cw_clock = (\<lambda>i. int i * second), cw_now = 0, cw_exe = Inr ''clippy'',
      cw_spawn = (\<lambda>_. None), cw_serve = (\<lambda>_. Some None)\<rparr>"

theorem commands_meet_daemon_witness:
  "run daemon_world [''start''] = cli_only [AlreadyRunning ''desk'' ''id''] CliOk
   \<and> run daemon_world [''stop''] = cli_only [Stopping ''desk'' ''id''] CliOk"
proof -
  have c: "\<exists>cfg. cli_config daemon_world command [] = Inr (cfg, False)" for command
    by (simp add: cli_config_def parseCommonFlags_def)
  obtain c1 c2 c3 where "cli_config daemon_world ''start'' [] = Inr (c1, False)"
    "cli_config daemon_world ''status'' [] = Inr (c2, False)" "cli_config daemon_world ''stop'' [] = Inr (c3, False)"
    using c by metis
  then show ?thesis
    using commands_meet_daemon [of daemon_world "''desk''" "''id''" "[''a'', ''z'']" sample_mesh "\<lambda>h. h" "newRuntime ()"
        "[]" c1 False "[]" c2 False "[]" c3 False]
    by (simp add: daemon_world_def)
qed

section \<open>The end of the daemon\<close>

text \<open>Once its context is done, the daemon's main function comes to an end within seven steps of the
goroutines involved, however they interleave: whenever none of them can move, it has returned,
or it is blocked for ever at its last receive because its \<open>select\<close> had already taken the nil
that \<open>Serve\<close> returned.\<close>

lemma daemon_shutdown:
  assumes "daemon_reachable s" and "dm_ctxDone s"
  shows "daemon_rank s \<le> 6 \<and> (\<forall>s'. daemon_step s s' \<longrightarrow> daemon_rank s' < daemon_rank s)
    \<and> ((\<nexists>s'. daemon_step s s') \<longrightarrow>
         (\<exists>r. dm_pc s = Returned r) \<or> dm_pc s = AtReceive \<and> dm_errCh s = None \<and> \<not> dm_serving s)"
proof -
  have inv: "daemon_inv s" by (rule daemon_reachable_inv [OF assms(1)])
  have rank: "daemon_rank s \<le> 6"
    using assms(2) by (cases "dm_pc s") (simp_all add: daemon_rank_def of_bool_def)
  have "\<exists>s'. daemon_step s s'" if "\<nexists>r. dm_pc s = Returned r"
      "\<not> (dm_pc s = AtReceive \<and> dm_errCh s = None \<and> \<not> dm_serving s)"
  proof (cases "dm_closed s \<and> dm_stopped s \<and> \<not> dm_serving s")
    case False
    then show ?thesis
      using daemon_step.close_listener [OF assms(2)] daemon_step.runtime_stops [OF assms(2)]
        daemon_step.accept_closed [of s] by (cases "dm_closed s") auto
  next
    case True
    show ?thesis
    proof (cases "dm_pc s")
      case AtSelect
      then show ?thesis using daemon_step.select_context [OF _ assms(2)] by blast
    next
      case (AtWait e)
      then show ?thesis using True daemon_step.wait_ok [of s] daemon_step.wait_error [of s] by (cases e) blast+
    next
      case AtReceive
      then show ?thesis using True that(2) daemon_step.receive [of s] by (cases "dm_errCh s") blast+
    qed (use that(1) in simp)
  qed
  then show ?thesis using rank daemon_step_rank by blast
qed

text \<open>Its context is cancelled before the main function has reached its \<open>select\<close>.\<close>

definition daemon_signalled :: daemon_state where
  "daemon_signalled = daemon_start\<lparr>dm_ctxDone := True\<rparr>"

lemma daemon_signalled_reachable: "daemon_reachable daemon_signalled"
proof -
  have "daemon_step daemon_start daemon_signalled"
    unfolding daemon_signalled_def by (rule daemon_step.signal) (simp add: daemon_start_def)
  then show ?thesis by (rule daemon_reachable.step [OF daemon_reachable.init])
qed

text \<open>The blocked end can be reached: when the context is done and \<open>Serve\<close> has returned nil before
the main function looks at its \<open>select\<close>, both cases are ready; if it takes the server's, the
daemon never returns, although its runtime has stopped and no goroutine can move any more.\<close>

lemma daemon_can_hang:
  "\<exists>s. daemon_reachable s \<and> dm_ctxDone s \<and> dm_stopped s \<and> dm_pc s = AtReceive \<and> (\<nexists>s'. daemon_step s s')"
proof -
  let ?s2 = "daemon_signalled\<lparr>dm_closed := True\<rparr>"
  let ?s3 = "?s2\<lparr>dm_serving := False, dm_errCh := Some None\<rparr>"
  let ?s4 = "?s3\<lparr>dm_pc := AtWait None, dm_errCh := None, dm_ctxDone := dm_ctxDone ?s3 \<or> False\<rparr>"
  let ?s5 = "?s4\<lparr>dm_stopped := True\<rparr>"
  let ?s6 = "?s5\<lparr>dm_pc := AtReceive\<rparr>"
  have d: "dm_ctxDone daemon_signalled" "dm_pc daemon_signalled = AtSelect" "dm_serving daemon_signalled"
    "\<not> dm_closed daemon_signalled" "\<not> dm_stopped daemon_signalled"
    by (simp_all add: daemon_signalled_def daemon_start_def)
  note r = daemon_reachable.step
  have "daemon_reachable ?s2"
    by (rule r [OF daemon_signalled_reachable daemon_step.close_listener]) (simp_all add: d)
  then have "daemon_reachable ?s3"
    by (rule r [OF _ daemon_step.accept_closed]) (simp_all add: d)
  then have "daemon_reachable ?s4"
    using daemon_step.select_server [of ?s3 None] r d by simp
  then have "daemon_reachable ?s5"
    by (rule r [OF _ daemon_step.runtime_stops]) (simp_all add: d)
  then have "daemon_reachable ?s6"
    by (rule r [OF _ daemon_step.wait_ok]) simp_all
  moreover have "\<not> daemon_step ?s6 s'" for s'
    by (rule notI, erule daemon_stepE) (simp_all add: d)
  ultimately show ?thesis using d by (intro exI [of _ ?s6]) simp
qed

end
