(* ===== verification/DaemonProperties.thy ===== *)
theory DaemonProperties
  imports Daemon NodeProperties CliProperties
begin

text \<open>
  The properties of the daemon as a whole, in every state that any interleaving of its main
  function, its control server, its clients and its node reaches after \<open>rt.Start\<close>.
\<close>

section \<open>A daemon and a run of it\<close>

definition sample_config :: Config where
  "sample_config = \<lparr>cf_Name = ''desk'', cf_ListenAddr = '''', cf_Port = 0, cf_ServiceName = '''', cf_Domain = '''',
     cf_WebSocketPath = '''', cf_ControlEndpoint = ''/tmp/clippy.sock''\<rparr>"

abbreviation sample_begin :: "serve_error + (string, (clipFormat \<times> bytes) list) daemon" where
  "sample_begin \<equiv> serveDaemon_begin None (Inr (replicate 16 CHR ''a'')) (Inr ''host'') None 0 [] sample_config"

lemma sample_begins: "\<exists>s. sample_begin = Inr s \<and> d_main s = MainListen \<and> d_handlers s = []"
  by (simp add: serveDaemon_begin_def New_runtime_def NewManager_def withDefaults_def mesh_options_def Let_def
      Config_WithDefaults_def sample_config_def newNodeID_def Start_def or_default_string_def or_default_int_def
      defaultReconnectMaxBackoff_def defaultReconnectMinBackoff_def)

text \<open>Its control server is up, and a client has asked it to stop.\<close>

lemma sample_asked:
  obtains s where "\<exists>s0. sample_begin = Inr s0 \<and> serve_daemon_run sample_node_deps Inr s0 s"
    "d_main s = MainSelect" "d_handlers s = [''stop'']" "d_serving s"
proof -
  obtain s0 where s0: "sample_begin = Inr s0" "d_main s0 = MainListen" "d_handlers s0 = []"
    using sample_begins by blast
  obtain srv where srv: "NewControlServer None = Inr srv" "\<not> cs_closeDone srv" by (simp add: NewControlServer_def)
  let ?s1 = "s0\<lparr>d_main := MainSelect, d_server := Some srv, d_serving := True\<rparr>"
  have a: "serve_step sample_node_deps Inr s0 ?s1" by (rule serve_step.listen_ok [OF s0(2) srv(1)])
  have b: "serve_step sample_node_deps Inr ?s1 (?s1\<lparr>d_handlers := [] @ [''stop'']\<rparr>)"
    using serve_step.accept [of ?s1 sample_node_deps Inr "''stop''"] s0(3) srv(2) by (simp add: listener_closed_def)
  have "serve_daemon_run sample_node_deps Inr s0 (?s1\<lparr>d_handlers := [] @ [''stop'']\<rparr>)"
    using a b by (meson r_into_rtranclp rtranclp.rtrancl_into_rtrancl)
  then show thesis using that [of "?s1\<lparr>d_handlers := [] @ [''stop'']\<rparr>"] s0(1) by auto
qed

text \<open>Then it comes to its end.\<close>

lemma sample_returned:
  obtains s0 s r where "sample_begin = Inr s0" "serve_daemon_run sample_node_deps Inr s0 s" "d_main s = MainReturned r"
proof -
  obtain s where s: "\<exists>s0. sample_begin = Inr s0 \<and> serve_daemon_run sample_node_deps Inr s0 s"
      "d_main s = MainSelect" "d_handlers s = [''stop'']" using sample_asked .
  then obtain s0 where s0: "sample_begin = Inr s0" "serve_daemon_run sample_node_deps Inr s0 s" by blast
  have inv: "serve_inv sample_node_deps s" by (rule serve_run_inv [OF s0(2) serve_begin_inv [OF s0(1)]])
  have "\<not> hung s" using s(2) by (simp add: hung_def)
  then obtain t where t: "serve_daemon_run sample_node_deps Inr s t" "n_ctxDone (d_node t)" "\<not> hung t"
      "serve_inv sample_node_deps t"
    using stop_answered [OF inv, of Inr] s(3) by auto
  obtain u r where "serve_daemon_run sample_node_deps Inr t u" "d_main u = MainReturned r"
    using daemon_down [OF t(4,2,3), of Inr] by blast
  then show thesis using that [OF s0(1)] rtranclp_trans [OF rtranclp_trans [OF s0(2) t(1)]] by blast
qed

section \<open>What the daemon is made of\<close>

text \<open>C10: The composition of the daemon is sound in both directions. Whatever its goroutines and clients
do, the node inside it is in a state that the node reaches on its own from \<open>Start\<close>, so everything
proved of nodes holds inside the daemon; and from the moment its control server exists, the
daemon is in a state of the abstract daemon \<open>daemon_step\<close>, which knows of the node only that it
stops after its context is done. Once the context is done, at most six steps that the abstract
daemon sees are left, under every schedule; when none is possible any more, the main function has
returned or is blocked.\<close>

theorem daemon_composes:
  assumes "serveDaemon_begin clip_init raw hostname listen now os cfg = Inr s0"
    and "serve_daemon_run D decode s0 s"
  shows "(\<exists>m. NewManager raw hostname (mesh_options (Config_WithDefaults cfg)) False = Inr m
      \<and> node_run D any_frame (started_node 0 now os m) (d_node s))
    \<and> (d_server s \<noteq> None \<longrightarrow> daemon_reachable (daemon_view s)
        \<and> (\<forall>s'. serve_step D decode s s' \<longrightarrow> daemon_step\<^sup>=\<^sup>= (daemon_view s) (daemon_view s')))
    \<and> (d_server s \<noteq> None \<and> n_ctxDone (d_node s) \<longrightarrow> daemon_rank (daemon_view s) \<le> 6
        \<and> (\<forall>s'. serve_step D decode s s' \<longrightarrow> daemon_view s' = daemon_view s
             \<or> daemon_rank (daemon_view s') < daemon_rank (daemon_view s))
        \<and> ((\<nexists>v. daemon_step (daemon_view s) v) \<longrightarrow> (\<exists>r. d_main s = MainReturned r) \<or> hung s))"
proof -
  have inv: "serve_inv D s" by (rule serve_run_inv [OF assms(2) serve_begin_inv [OF assms(1)]])
  obtain m where m: "NewManager raw hostname (mesh_options (Config_WithDefaults cfg)) False = Inr m"
      "d_node s0 = started_node 0 now os m" "d_server s0 = None"
    using serveDaemon_begin_cases [OF assms(1)] by (metis daemon.select_convs(2,3))
  have node: "node_run D any_frame (started_node 0 now os m) (d_node s)" using serve_run_node [OF assms(2)] m(2) by simp
  have view: "d_server s \<noteq> None \<Longrightarrow> daemon_reachable (daemon_view s)"
    using serve_run_view [OF assms(2) serve_begin_inv [OF assms(1)] m(3)] by blast
  have step: "d_server s \<noteq> None \<Longrightarrow> serve_step D decode s s' \<Longrightarrow> daemon_step\<^sup>=\<^sup>= (daemon_view s) (daemon_view s')" for s'
    using serve_view_step [OF _ inv] .
  have ends: "daemon_rank (daemon_view s) \<le> 6
      \<and> ((\<nexists>v. daemon_step (daemon_view s) v) \<longrightarrow> (\<exists>r. d_main s = MainReturned r) \<or> hung s)"
    if "d_server s \<noteq> None" "n_ctxDone (d_node s)"
  proof -
    have "dm_ctxDone (daemon_view s)" using that(2) by (simp add: daemon_view_def)
    then show ?thesis using daemon_shutdown [OF view [OF that(1)]] daemon_view_ended [of s] by blast
  qed
  have "\<forall>s'. serve_step D decode s s' \<longrightarrow> daemon_view s' = daemon_view s
      \<or> daemon_rank (daemon_view s') < daemon_rank (daemon_view s)" if "d_server s \<noteq> None"
    using step [OF that] daemon_step_rank by fastforce
  then show ?thesis using m(1) node view step ends by blast
qed

theorem daemon_composes_witness:
  "\<exists>s :: (string, (clipFormat \<times> bytes) list) daemon. d_handlers s = [''stop''] \<and> daemon_reachable (daemon_view s)"
proof -
  obtain s where s: "\<exists>s0. sample_begin = Inr s0 \<and> serve_daemon_run sample_node_deps Inr s0 s"
      "d_main s = MainSelect" "d_handlers s = [''stop'']" using sample_asked .
  then obtain s0 where s0: "sample_begin = Inr s0" "serve_daemon_run sample_node_deps Inr s0 s" by blast
  have "d_server s \<noteq> None" using serve_run_inv [OF s0(2) serve_begin_inv [OF s0(1)]] s(2) by (simp add: serve_inv_def)
  then show ?thesis using daemon_composes [OF s0] s(3) by blast
qed

section \<open>Its end\<close>

text \<open>C8: A client's stop request, or a signal, brings the whole daemon down. In every reachable state in
which the context is done or a client has sent \<open>stop\<close> and waits for the answer: if the daemon is not
blocked, it can run on until \<open>serveDaemon\<close> has returned and the loops of its node have ended; and
if it is blocked (its \<open>select\<close> has consumed the nil of \<open>Serve\<close>) it never returns.\<close>

theorem daemon_comes_down:
  assumes "serveDaemon_begin clip_init raw hostname listen now os cfg = Inr s0"
    and "serve_daemon_run D decode s0 s"
    and "n_ctxDone (d_node s) \<or> (\<exists>request \<in> set (d_handlers s). decode request = Inr ''stop'')"
  shows "if hung s then (\<forall>s'. serve_daemon_run D decode s s' \<longrightarrow> (\<nexists>r. d_main s' = MainReturned r))
    else (\<exists>s'. serve_daemon_run D decode s s' \<and> (\<exists>r. d_main s' = MainReturned r)
      \<and> n_loop (d_node s') = ClipEnded \<and> \<not> n_logLoop (d_node s'))"
proof -
  have inv: "serve_inv D s" by (rule serve_run_inv [OF assms(2) serve_begin_inv [OF assms(1)]])
  show ?thesis
  proof (cases "hung s")
    case True
    then show ?thesis using hung_run [OF _ True inv] by (fastforce simp: hung_def)
  next
    case False
    obtain t where t: "serve_daemon_run D decode s t" "n_ctxDone (d_node t)" "\<not> hung t" "serve_inv D t"
      using stop_answered [OF inv False assms(3)] by blast
    then show ?thesis using daemon_down [OF t(4,2,3), of decode] False by (auto intro: rtranclp_trans)
  qed
qed

theorem daemon_comes_down_witness:
  "\<exists>s0 s. sample_begin = Inr s0 \<and> serve_daemon_run sample_node_deps Inr s0 s \<and> (\<exists>r. d_main s = MainReturned r)"
proof -
  obtain s where s: "\<exists>s0. sample_begin = Inr s0 \<and> serve_daemon_run sample_node_deps Inr s0 s"
      "d_main s = MainSelect" "d_handlers s = [''stop'']" using sample_asked .
  then obtain s0 where s0: "sample_begin = Inr s0" "serve_daemon_run sample_node_deps Inr s0 s" by blast
  have "n_ctxDone (d_node s) \<or> (\<exists>request \<in> set (d_handlers s). Inr request = (Inr ''stop'' :: string + string))"
    using s(3) by simp
  from daemon_comes_down [OF s0 this] obtain t where t: "serve_daemon_run sample_node_deps Inr s t"
      "\<exists>r. d_main t = MainReturned r"
    using s(2) by (auto simp: hung_def)
  show ?thesis using s0(1) rtranclp_trans [OF s0(2) t(1)] t(2) by blast
qed

text \<open>C38: The daemon can block for ever. From every reachable state in which the main function is at its
\<open>select\<close> and \<open>Serve\<close> is running, the goroutines can run on so that the context is done, \<open>Serve\<close> has
returned nil and the \<open>select\<close>, with both cases ready, takes the server's: then the main function
never returns, whatever happens, although the runtime has come to its end.\<close>

theorem daemon_can_block:
  assumes "serveDaemon_begin clip_init raw hostname listen now os cfg = Inr s0"
    and "serve_daemon_run D decode s0 s" and "d_main s = MainSelect" and "d_serving s"
  shows "\<exists>s'. serve_daemon_run D decode s s' \<and> rt_waitClosed (n_rt (d_node s'))
    \<and> (\<forall>t. serve_daemon_run D decode s' t \<longrightarrow> (\<nexists>r. d_main t = MainReturned r))"
proof -
  have inv: "serve_inv D s" by (rule serve_run_inv [OF assms(2) serve_begin_inv [OF assms(1)]])
  obtain s' where s': "serve_daemon_run D decode s s'" "hung s'" "rt_waitClosed (n_rt (d_node s'))"
    using block_run [OF inv assms(3,4)] by blast
  have "\<nexists>r. d_main t = MainReturned r" if "serve_daemon_run D decode s' t" for t
    using hung_run [OF that s'(2) serve_run_inv [OF s'(1) inv]] by (auto simp: hung_def)
  then show ?thesis using s' by blast
qed

theorem daemon_can_block_witness:
  "\<exists>s :: (string, (clipFormat \<times> bytes) list) daemon. rt_waitClosed (n_rt (d_node s))
     \<and> (\<forall>t. serve_daemon_run sample_node_deps Inr s t \<longrightarrow> (\<nexists>r. d_main t = MainReturned r))"
proof -
  obtain s where s: "\<exists>s0. sample_begin = Inr s0 \<and> serve_daemon_run sample_node_deps Inr s0 s"
      "d_main s = MainSelect" "d_handlers s = [''stop'']" "d_serving s" using sample_asked .
  then obtain s0 where s0: "sample_begin = Inr s0" "serve_daemon_run sample_node_deps Inr s0 s" by blast
  show ?thesis using daemon_can_block [OF s0 s(2,4)] by blast
qed

text \<open>C9: No orphans and honest answers. In every reachable state: if \<open>serveDaemon\<close> has returned, its node
has stopped, that is, its context is done and the mesh has shut down, also when the control
server could not listen; it never returns an error of \<open>rt.Wait\<close>. And every client that has got an
OK answer, to \<open>status\<close> or to \<open>stop\<close>, got the status of this node, running; so no client sees an OK
answer without a status.\<close>

theorem daemon_returns_clean:
  assumes "serveDaemon_begin clip_init raw hostname listen now os cfg = Inr s0"
    and "serve_daemon_run D decode s0 s"
  shows "(\<forall>r. d_main s = MainReturned r \<longrightarrow> n_ctxDone (d_node s) \<and> n_meshDone (d_node s)
      \<and> mg_ctxDone (n_mgr (d_node s)) \<and> (\<forall>e. r \<noteq> Some (ErrWait e)))
    \<and> (\<forall>answer \<in> set (d_answers s). cr_OK answer \<longrightarrow> (\<exists>st. cr_Status answer = Some st \<and> st_Running st
        \<and> st_NodeID st = mg_nodeID (n_mgr (d_node s))))"
proof -
  have inv: "serve_inv D s" by (rule serve_run_inv [OF assms(2) serve_begin_inv [OF assms(1)]])
  have "rt_waitClosed (n_rt (d_node s)) \<and> (\<forall>e. r \<noteq> Some (ErrWait e))" if "d_main s = MainReturned r" for r
    using inv main_ok_returned unfolding serve_inv_def that by blast
  moreover have "rt_waitClosed (n_rt (d_node s)) \<Longrightarrow> n_ctxDone (d_node s) \<and> n_meshDone (d_node s) \<and> mg_ctxDone (n_mgr (d_node s))"
    using inv by (auto simp: serve_inv_def node_inv_def ended_inv_def)
  moreover have "honest s"
    by (rule serve_run_honest [OF assms(2) serve_begin_inv [OF assms(1)]])
      (use assms(1) in \<open>auto simp: honest_def elim: serveDaemon_begin_cases\<close>)
  ultimately show ?thesis by (auto simp: honest_def)
qed

theorem daemon_returns_clean_witness:
  "\<exists>s :: (string, (clipFormat \<times> bytes) list) daemon. (\<exists>r. d_main s = MainReturned r) \<and> n_meshDone (d_node s)"
proof -
  obtain s0 s r where s: "sample_begin = Inr s0" "serve_daemon_run sample_node_deps Inr s0 s" "d_main s = MainReturned r"
    using sample_returned .
  then show ?thesis using daemon_returns_clean [OF s(1,2)] by blast
qed

end
