(* ===== verification/Lifecycle.thy ===== *)
theory Lifecycle
  imports Prelude
begin

text \<open>
  The life of a mesh manager from \<open>Start\<close> to \<open>Wait\<close>: the goroutines that \<open>Start\<close> launches
  (\<open>serveHTTP\<close>, \<open>advertiseLoop\<close>, \<open>browseLoop\<close>, \<open>pruneLoop\<close>, and the one that calls \<open>shutdown\<close>), the
  dial loops and pumps that come and go, the wait group that counts them, and the mDNS services
  that are registered. What the goroutines do to the peer and connection tables is in
  \<open>MeshSystem\<close>; here is when they start and end, and what they leave behind.

  The libraries are the environment: \<open>zeroconf.Register\<close>, \<open>NewResolver\<close>, \<open>Browse\<close> and \<open>Serve\<close>
  succeed or fail as they like, timers fire at any time, and a \<open>select\<close> with several ready
  cases takes any of them.
\<close>

section \<open>State\<close>

text \<open>
  \<open>advertiseLoop\<close>: at the head of its loop, in \<open>Register\<close>, in \<open>sleepContext\<close> after an error, or
  with a registered server: before it is published, waiting, before it is cleared, before its
  \<open>Shutdown\<close>.
\<close>

datatype adv_pc =
    AdvHead | AdvRegister | AdvSleep
  | AdvPublish nat | AdvHold nat | AdvClear nat | AdvWithdraw nat
  | AdvEnded

text \<open>\<open>browseLoop\<close>: its head, \<open>NewResolver\<close>, \<open>Browse\<close>, a session, the pause before the next one.\<close>

datatype browse_pc = BrowseHead | BrowseResolver | BrowseStart | BrowseSession | BrowsePause | BrowseEnded

text \<open>\<open>shutdown\<close>: waiting for the context, then its statements in order, up to \<open>close(m.done)\<close>.\<close>

datatype shut_pc = ShutBlocked | ShutAdvertiser | ShutServer | ShutConns | ShutWait | ShutEnded

record lifecycle =
  lc_ctxDone :: bool
  lc_serving :: bool
  lc_serverClosed :: bool
  lc_adv :: adv_pc
  lc_advertiser :: "nat option"
  lc_registered :: "nat set"
  lc_browse :: browse_pc
  lc_pruning :: bool
  lc_dials :: nat
  lc_pumps :: nat
  lc_wg :: nat
  lc_shut :: shut_pc
  lc_done :: bool

text \<open>After \<open>Start\<close>: four goroutines have been added to the wait group.\<close>

definition started_lifecycle :: lifecycle where
  "started_lifecycle =
     \<lparr>lc_ctxDone = False, lc_serving = True, lc_serverClosed = False, lc_adv = AdvHead,
      lc_advertiser = None, lc_registered = {}, lc_browse = BrowseHead, lc_pruning = True,
      lc_dials = 0, lc_pumps = 0, lc_wg = 4, lc_shut = ShutBlocked, lc_done = False\<rparr>"

section \<open>Steps\<close>

text \<open>A goroutine that returns: its deferred \<open>wg.Done()\<close>.\<close>

definition wg_done :: "lifecycle \<Rightarrow> lifecycle" where
  "wg_done s = s\<lparr>lc_wg := lc_wg s - 1\<rparr>"

text \<open>The steps of \<open>advertiseLoop\<close>; a fresh server gets a fresh number.\<close>

inductive adv_step :: "lifecycle \<Rightarrow> lifecycle \<Rightarrow> bool" where
  adv_end: "lc_adv s = AdvHead \<or> lc_adv s = AdvSleep \<Longrightarrow> lc_ctxDone s \<Longrightarrow>
    adv_step s (wg_done (s\<lparr>lc_adv := AdvEnded\<rparr>))"
| adv_go: "lc_adv s = AdvHead \<Longrightarrow> \<not> lc_ctxDone s \<Longrightarrow> adv_step s (s\<lparr>lc_adv := AdvRegister\<rparr>)"
| adv_error: "lc_adv s = AdvRegister \<Longrightarrow> adv_step s (s\<lparr>lc_adv := AdvSleep\<rparr>)"
| adv_retry: "lc_adv s = AdvSleep \<Longrightarrow> adv_step s (s\<lparr>lc_adv := AdvHead\<rparr>)"
| adv_registered: "lc_adv s = AdvRegister \<Longrightarrow> n \<notin> lc_registered s \<Longrightarrow>
    adv_step s (s\<lparr>lc_adv := AdvPublish n, lc_registered := insert n (lc_registered s)\<rparr>)"
| adv_publish: "lc_adv s = AdvPublish n \<Longrightarrow>
    adv_step s (s\<lparr>lc_adv := AdvHold n, lc_advertiser := Some n\<rparr>)"
| adv_wake: "lc_adv s = AdvHold n \<Longrightarrow> adv_step s (s\<lparr>lc_adv := AdvClear n\<rparr>)"
| adv_clear: "lc_adv s = AdvClear n \<Longrightarrow>
    adv_step s (s\<lparr>lc_adv := AdvWithdraw n,
      lc_advertiser := (if lc_advertiser s = Some n then None else lc_advertiser s)\<rparr>)"
| adv_withdraw: "lc_adv s = AdvWithdraw n \<Longrightarrow>
    adv_step s (s\<lparr>lc_adv := AdvHead, lc_registered := lc_registered s - {n}\<rparr>)"

text \<open>The steps of \<open>browseLoop\<close>; an entry may start a dial loop (\<open>ensureDialLoop\<close>).\<close>

inductive browse_step :: "lifecycle \<Rightarrow> lifecycle \<Rightarrow> bool" where
  browse_end: "lc_browse s \<in> {BrowseHead, BrowsePause, BrowseSession} \<Longrightarrow> lc_ctxDone s \<Longrightarrow>
    browse_step s (wg_done (s\<lparr>lc_browse := BrowseEnded\<rparr>))"
| browse_go: "lc_browse s = BrowseHead \<Longrightarrow> \<not> lc_ctxDone s \<Longrightarrow> browse_step s (s\<lparr>lc_browse := BrowseResolver\<rparr>)"
| browse_resolver: "lc_browse s = BrowseResolver \<Longrightarrow> browse_step s (s\<lparr>lc_browse := BrowseStart\<rparr>)"
| browse_start: "lc_browse s = BrowseStart \<Longrightarrow> browse_step s (s\<lparr>lc_browse := BrowseSession\<rparr>)"
| browse_error: "lc_browse s = BrowseResolver \<or> lc_browse s = BrowseStart \<Longrightarrow>
    browse_step s (s\<lparr>lc_browse := BrowsePause\<rparr>)"
| browse_entry: "lc_browse s = BrowseSession \<Longrightarrow>
    browse_step s (s\<lparr>lc_dials := lc_dials s + 1, lc_wg := lc_wg s + 1\<rparr>)"
| browse_closed: "lc_browse s = BrowseSession \<Longrightarrow> browse_step s (s\<lparr>lc_browse := BrowsePause\<rparr>)"
| browse_next: "lc_browse s = BrowsePause \<Longrightarrow> browse_step s (s\<lparr>lc_browse := BrowseHead\<rparr>)"

text \<open>
  The statements of \<open>shutdown\<close>. It closes the connections that are active then (the pumps of all
  connections end by themselves, since their contexts are children of the manager's) and waits
  for the wait group.
\<close>

inductive shut_step :: "lifecycle \<Rightarrow> lifecycle \<Rightarrow> bool" where
  shut_begin: "lc_shut s = ShutBlocked \<Longrightarrow> lc_ctxDone s \<Longrightarrow> shut_step s (s\<lparr>lc_shut := ShutAdvertiser\<rparr>)"
| shut_advertiser: "lc_shut s = ShutAdvertiser \<Longrightarrow>
    shut_step s (s\<lparr>lc_shut := ShutServer, lc_advertiser := None,
      lc_registered := lc_registered s - set_option (lc_advertiser s)\<rparr>)"
| shut_server: "lc_shut s = ShutServer \<Longrightarrow> shut_step s (s\<lparr>lc_shut := ShutConns, lc_serverClosed := True\<rparr>)"
| shut_conns: "lc_shut s = ShutConns \<Longrightarrow> shut_step s (s\<lparr>lc_shut := ShutWait\<rparr>)"
| shut_wait: "lc_shut s = ShutWait \<Longrightarrow> lc_wg s = 0 \<Longrightarrow> shut_step s (s\<lparr>lc_shut := ShutEnded, lc_done := True\<rparr>)"

text \<open>
  \<open>pruneLoop\<close>: a tick, at which \<open>pruneStalePeers\<close> works on the peer table (\<open>prune\<close> of
  \<open>mesh_step\<close>), or the end.
\<close>

inductive prune_step :: "lifecycle \<Rightarrow> lifecycle \<Rightarrow> bool" where
  prune_tick: "lc_pruning s \<Longrightarrow> prune_step s s"
| prune_end: "lc_pruning s \<Longrightarrow> lc_ctxDone s \<Longrightarrow> prune_step s (wg_done (s\<lparr>lc_pruning := False\<rparr>))"

text \<open>\<open>start\<close> of a connection that has been attached: its two pumps.\<close>

definition start_pumps :: "lifecycle \<Rightarrow> lifecycle" where
  "start_pumps s = s\<lparr>lc_pumps := lc_pumps s + 2, lc_wg := lc_wg s + 2\<rparr>"

text \<open>
  Everything: the three above, \<open>serveHTTP\<close>, \<open>pruneLoop\<close>, the dial loops, the pumps (two per
  attached connection; HTTP handlers may attach at any time, even after the server has been
  closed, since an upgraded connection is no longer the server's), and the caller's context.
\<close>

inductive life_step :: "lifecycle \<Rightarrow> lifecycle \<Rightarrow> bool" where
  advertise: "adv_step s s' \<Longrightarrow> life_step s s'"
| browse: "browse_step s s' \<Longrightarrow> life_step s s'"
| shutdown: "shut_step s s' \<Longrightarrow> life_step s s'"
| cancelled: "life_step s (s\<lparr>lc_ctxDone := True\<rparr>)"
| serve_closed: "lc_serving s \<Longrightarrow> lc_serverClosed s \<Longrightarrow> life_step s (wg_done (s\<lparr>lc_serving := False\<rparr>))"
| serve_failed: "lc_serving s \<Longrightarrow>
    life_step s (wg_done (s\<lparr>lc_serving := False, lc_ctxDone := True\<rparr>))"
| prune: "prune_step s s' \<Longrightarrow> life_step s s'"
| dial_end: "0 < lc_dials s \<Longrightarrow> lc_ctxDone s \<Longrightarrow> life_step s (wg_done (s\<lparr>lc_dials := lc_dials s - 1\<rparr>))"
| attach: "life_step s (start_pumps s)"
| pump_end: "0 < lc_pumps s \<Longrightarrow> life_step s (wg_done (s\<lparr>lc_pumps := lc_pumps s - 1\<rparr>))"

inductive_cases adv_stepE: "adv_step s s'"
inductive_cases browse_stepE: "browse_step s s'"
inductive_cases shut_stepE: "shut_step s s'"
inductive_cases prune_stepE: "prune_step s s'"

abbreviation life_run :: "lifecycle \<Rightarrow> lifecycle \<Rightarrow> bool" where
  "life_run \<equiv> life_step\<^sup>*\<^sup>*"


section \<open>Invariant\<close>

text \<open>The server the advertising loop holds, if any.\<close>

fun adv_server :: "adv_pc \<Rightarrow> nat set" where
  "adv_server (AdvPublish n) = {n}"
| "adv_server (AdvHold n) = {n}"
| "adv_server (AdvClear n) = {n}"
| "adv_server (AdvWithdraw n) = {n}"
| "adv_server _ = {}"

definition alive :: "lifecycle \<Rightarrow> nat" where
  "alive s = of_bool (lc_serving s) + of_bool (lc_adv s \<noteq> AdvEnded) + of_bool (lc_browse s \<noteq> BrowseEnded)
     + of_bool (lc_pruning s) + lc_dials s + lc_pumps s"

text \<open>
  The wait group counts the goroutines that are alive; a registered service is the one the
  advertising loop holds; the loops end only when the context is done; and when \<open>done\<close> is closed
  everything but late pumps has ended.
\<close>

definition adv_inv :: "lifecycle \<Rightarrow> bool" where
  "adv_inv s \<longleftrightarrow> lc_registered s \<subseteq> adv_server (lc_adv s)
     \<and> set_option (lc_advertiser s) \<subseteq> adv_server (lc_adv s)
     \<and> (\<forall>n. lc_adv s = AdvWithdraw n \<longrightarrow> lc_advertiser s = None)"

definition phase_inv :: "lifecycle \<Rightarrow> bool" where
  "phase_inv s \<longleftrightarrow>
     (lc_adv s = AdvEnded \<or> lc_browse s = BrowseEnded \<or> \<not> lc_pruning s \<or> lc_shut s \<noteq> ShutBlocked
        \<longrightarrow> lc_ctxDone s)
     \<and> (lc_shut s \<in> {ShutConns, ShutWait, ShutEnded} \<longrightarrow> lc_serverClosed s)
     \<and> (lc_done s \<longleftrightarrow> lc_shut s = ShutEnded)
     \<and> (lc_done s \<longrightarrow> lc_adv s = AdvEnded \<and> lc_browse s = BrowseEnded \<and> \<not> lc_pruning s
          \<and> \<not> lc_serving s \<and> lc_dials s = 0)"

definition life_inv :: "lifecycle \<Rightarrow> bool" where
  "life_inv s \<longleftrightarrow> lc_wg s = alive s \<and> adv_inv s \<and> phase_inv s"

lemma life_inv_start: "life_inv started_lifecycle"
  by (simp add: life_inv_def adv_inv_def phase_inv_def started_lifecycle_def alive_def)

lemma wg_done_sel [simp]:
  "lc_ctxDone (wg_done s) = lc_ctxDone s" "lc_serving (wg_done s) = lc_serving s"
  "lc_serverClosed (wg_done s) = lc_serverClosed s" "lc_adv (wg_done s) = lc_adv s"
  "lc_advertiser (wg_done s) = lc_advertiser s" "lc_registered (wg_done s) = lc_registered s"
  "lc_browse (wg_done s) = lc_browse s" "lc_pruning (wg_done s) = lc_pruning s"
  "lc_dials (wg_done s) = lc_dials s" "lc_pumps (wg_done s) = lc_pumps s"
  "lc_wg (wg_done s) = lc_wg s - 1" "lc_shut (wg_done s) = lc_shut s" "lc_done (wg_done s) = lc_done s"
  by (simp_all add: wg_done_def)

lemma set_option_subset_singleton: "set_option v \<subseteq> {n} \<longleftrightarrow> v = None \<or> v = Some n"
  by (cases v) auto

text \<open>One lemma for each part of the invariant and each group of steps.\<close>

lemma adv_step_count: "adv_step s s' \<Longrightarrow> lc_wg s = alive s \<Longrightarrow> lc_wg s' = alive s'"
  by (erule adv_stepE) (simp_all add: alive_def, auto)

lemma adv_step_adv: "adv_step s s' \<Longrightarrow> adv_inv s \<Longrightarrow> adv_inv s'"
  by (erule adv_stepE) (simp_all add: adv_inv_def set_option_subset_singleton, auto)

lemma adv_step_phase: "adv_step s s' \<Longrightarrow> phase_inv s \<Longrightarrow> phase_inv s'"
  by (erule adv_stepE) (simp_all add: phase_inv_def, auto)

lemma browse_step_count: "browse_step s s' \<Longrightarrow> lc_wg s = alive s \<Longrightarrow> lc_wg s' = alive s'"
  by (erule browse_stepE) (simp_all add: alive_def, auto)

lemma browse_step_adv: "browse_step s s' \<Longrightarrow> adv_inv s \<Longrightarrow> adv_inv s'"
  by (erule browse_stepE) (simp_all add: adv_inv_def)

lemma browse_step_phase: "browse_step s s' \<Longrightarrow> phase_inv s \<Longrightarrow> phase_inv s'"
  by (erule browse_stepE) (simp_all add: phase_inv_def, auto)

lemma shut_step_count: "shut_step s s' \<Longrightarrow> lc_wg s = alive s \<Longrightarrow> lc_wg s' = alive s'"
  by (erule shut_stepE) (simp_all add: alive_def)

lemma shut_step_adv: "shut_step s s' \<Longrightarrow> adv_inv s \<Longrightarrow> adv_inv s'"
  by (erule shut_stepE) (simp_all add: adv_inv_def, auto)

lemma alive_zero:
  "alive s = 0 \<longleftrightarrow> \<not> lc_serving s \<and> lc_adv s = AdvEnded \<and> lc_browse s = BrowseEnded \<and> \<not> lc_pruning s
     \<and> lc_dials s = 0 \<and> lc_pumps s = 0"
  by (auto simp: alive_def)

lemma shut_step_phase: "shut_step s s' \<Longrightarrow> lc_wg s = alive s \<Longrightarrow> phase_inv s \<Longrightarrow> phase_inv s'"
  by (erule shut_stepE) (simp_all add: phase_inv_def alive_zero)

lemma prune_step_inv: "prune_step s s' \<Longrightarrow> life_inv s \<Longrightarrow> life_inv s'"
  by (erule prune_stepE) (simp_all add: life_inv_def adv_inv_def phase_inv_def alive_def, auto)

lemma life_step_inv:
  assumes "life_step s s'" and "life_inv s"
  shows "life_inv s'"
proof -
  have "lc_wg s' = alive s'"
    using assms
  proof (cases rule: life_step.cases)
    case advertise
    then show ?thesis using adv_step_count assms(2) by (simp add: life_inv_def)
  next
    case browse
    then show ?thesis using browse_step_count assms(2) by (simp add: life_inv_def)
  next
    case shutdown
    then show ?thesis using shut_step_count assms(2) by (simp add: life_inv_def)
  next
    case prune
    then show ?thesis using prune_step_inv assms(2) by (simp add: life_inv_def)
  qed (simp_all add: start_pumps_def alive_def life_inv_def)
  moreover have "adv_inv s'"
    using assms
  proof (cases rule: life_step.cases)
    case advertise
    then show ?thesis using adv_step_adv assms(2) by (simp add: life_inv_def)
  next
    case browse
    then show ?thesis using browse_step_adv assms(2) by (simp add: life_inv_def)
  next
    case shutdown
    then show ?thesis using shut_step_adv assms(2) by (simp add: life_inv_def)
  next
    case prune
    then show ?thesis using prune_step_inv assms(2) by (simp add: life_inv_def)
  qed (simp_all add: start_pumps_def adv_inv_def life_inv_def)
  moreover have "phase_inv s'"
    using assms
  proof (cases rule: life_step.cases)
    case advertise
    then show ?thesis using adv_step_phase assms(2) by (simp add: life_inv_def)
  next
    case browse
    then show ?thesis using browse_step_phase assms(2) by (simp add: life_inv_def)
  next
    case shutdown
    then show ?thesis using shut_step_phase assms(2) by (simp add: life_inv_def)
  next
    case prune
    then show ?thesis using prune_step_inv assms(2) by (simp add: life_inv_def)
  qed (auto simp: start_pumps_def phase_inv_def life_inv_def)
  ultimately show ?thesis by (simp add: life_inv_def)
qed

lemma life_run_inv: "life_run s s' \<Longrightarrow> life_inv s \<Longrightarrow> life_inv s'"
  by (induction rule: rtranclp_induct) (auto intro: life_step_inv)

section \<open>The way down\<close>

fun adv_rank :: "adv_pc \<Rightarrow> nat" where
  "adv_rank AdvEnded = 0" | "adv_rank AdvHead = 1" | "adv_rank AdvSleep = 2"
| "adv_rank (AdvWithdraw n) = 2" | "adv_rank (AdvClear n) = 3" | "adv_rank (AdvHold n) = 4"
| "adv_rank (AdvPublish n) = 5" | "adv_rank AdvRegister = 6"

fun browse_rank :: "browse_pc \<Rightarrow> nat" where
  "browse_rank BrowseEnded = 0" | "browse_rank BrowseHead = 1" | "browse_rank BrowsePause = 2"
| "browse_rank BrowseSession = 3" | "browse_rank BrowseStart = 4" | "browse_rank BrowseResolver = 5"

fun shut_rank :: "shut_pc \<Rightarrow> nat" where
  "shut_rank ShutEnded = 0" | "shut_rank ShutWait = 1" | "shut_rank ShutConns = 2"
| "shut_rank ShutServer = 3" | "shut_rank ShutAdvertiser = 4" | "shut_rank ShutBlocked = 5"

definition life_rank :: "lifecycle \<Rightarrow> nat" where
  "life_rank s = adv_rank (lc_adv s) + browse_rank (lc_browse s) + shut_rank (lc_shut s)
     + of_bool (lc_serving s) + of_bool (lc_pruning s) + lc_dials s + lc_pumps s"

text \<open>Each goroutine that is alive when the context is done has a step towards its end.\<close>

lemma adv_ends:
  assumes "lc_ctxDone s" and "lc_adv s \<noteq> AdvEnded"
  shows "\<exists>s'. adv_step s s' \<and> lc_ctxDone s' \<and> life_rank s' < life_rank s"
proof (cases "lc_adv s")
  case AdvHead
  then show ?thesis using adv_step.adv_end [of s] assms(1)
    by (intro exI [of _ "wg_done (s\<lparr>lc_adv := AdvEnded\<rparr>)"]) (simp add: life_rank_def)
next
  case AdvSleep
  then show ?thesis using adv_step.adv_end [of s] assms(1)
    by (intro exI [of _ "wg_done (s\<lparr>lc_adv := AdvEnded\<rparr>)"]) (simp add: life_rank_def)
next
  case AdvRegister
  then show ?thesis using adv_step.adv_error [of s] assms(1)
    by (intro exI [of _ "s\<lparr>lc_adv := AdvSleep\<rparr>"]) (simp add: life_rank_def)
next
  case (AdvPublish n)
  then show ?thesis using adv_step.adv_publish [of s n] assms(1)
    by (intro exI [of _ "s\<lparr>lc_adv := AdvHold n, lc_advertiser := Some n\<rparr>"]) (simp add: life_rank_def)
next
  case (AdvHold n)
  then show ?thesis using adv_step.adv_wake [of s n] assms(1)
    by (intro exI [of _ "s\<lparr>lc_adv := AdvClear n\<rparr>"]) (simp add: life_rank_def)
next
  case (AdvClear n)
  show ?thesis using adv_step.adv_clear [OF AdvClear] assms(1) AdvClear
    by (intro exI conjI) (assumption, simp_all add: life_rank_def)
next
  case (AdvWithdraw n)
  show ?thesis using adv_step.adv_withdraw [OF AdvWithdraw] assms(1) AdvWithdraw
    by (intro exI conjI) (assumption, simp_all add: life_rank_def)
qed (use assms in simp)

lemma browse_ends:
  assumes "lc_ctxDone s" and "lc_browse s \<noteq> BrowseEnded"
  shows "\<exists>s'. browse_step s s' \<and> lc_ctxDone s' \<and> life_rank s' < life_rank s"
proof (cases "lc_browse s \<in> {BrowseHead, BrowsePause, BrowseSession}")
  case True
  show ?thesis
    by (rule exI, rule conjI, rule browse_step.browse_end [OF True assms(1)])
      (use True assms(1) in \<open>auto simp: life_rank_def\<close>)
next
  case False
  then have b: "lc_browse s = BrowseResolver \<or> lc_browse s = BrowseStart"
    using assms(2) by (cases "lc_browse s") auto
  show ?thesis
    by (rule exI, rule conjI, rule browse_step.browse_error [OF b])
      (use b assms(1) in \<open>auto simp: life_rank_def\<close>)
qed

lemma shut_ends:
  assumes "lc_ctxDone s" and "lc_shut s \<noteq> ShutEnded" and "lc_shut s = ShutWait \<Longrightarrow> lc_wg s = 0"
  shows "\<exists>s'. shut_step s s' \<and> lc_ctxDone s' \<and> life_rank s' < life_rank s"
proof (cases "lc_shut s")
  case ShutBlocked
  show ?thesis by (rule exI, rule conjI, rule shut_step.shut_begin [OF ShutBlocked assms(1)])
    (use ShutBlocked assms(1) in \<open>simp add: life_rank_def\<close>)
next
  case ShutAdvertiser
  show ?thesis by (rule exI, rule conjI, rule shut_step.shut_advertiser [OF ShutAdvertiser])
    (use ShutAdvertiser assms(1) in \<open>simp add: life_rank_def\<close>)
next
  case ShutServer
  show ?thesis by (rule exI, rule conjI, rule shut_step.shut_server [OF ShutServer])
    (use ShutServer assms(1) in \<open>simp add: life_rank_def\<close>)
next
  case ShutConns
  show ?thesis by (rule exI, rule conjI, rule shut_step.shut_conns [OF ShutConns])
    (use ShutConns assms(1) in \<open>simp add: life_rank_def\<close>)
next
  case ShutWait
  show ?thesis by (rule exI, rule conjI, rule shut_step.shut_wait [OF ShutWait assms(3) [OF ShutWait]])
    (use ShutWait assms(1) in \<open>simp add: life_rank_def\<close>)
qed (use assms in simp)

text \<open>As long as \<open>done\<close> is open after a cancellation, some goroutine has such a step.\<close>

lemma counted_ends:
  assumes "life_inv s" and "lc_ctxDone s" and "lc_serverClosed s" and "lc_wg s \<noteq> 0"
  shows "\<exists>s'. life_step s s' \<and> lc_ctxDone s' \<and> life_rank s' < life_rank s"
proof -
  have "alive s \<noteq> 0" using assms(1,4) by (simp add: life_inv_def)
  then consider (serve) "lc_serving s" | (adv) "lc_adv s \<noteq> AdvEnded" | (browse) "lc_browse s \<noteq> BrowseEnded"
    | (prune) "lc_pruning s" | (dial) "0 < lc_dials s" | (pump) "0 < lc_pumps s"
    by (auto simp: alive_zero)
  then show ?thesis
  proof cases
    case serve
    show ?thesis by (rule exI, rule conjI, rule life_step.serve_closed [OF serve assms(3)])
      (simp add: life_rank_def serve assms(2))
  next
    case adv
    then show ?thesis using adv_ends assms(2) life_step.advertise by blast
  next
    case browse
    then show ?thesis using browse_ends assms(2) life_step.browse by blast
  next
    case prune
    show ?thesis by (rule exI, rule conjI, rule life_step.prune [OF prune_step.prune_end [OF prune assms(2)]])
      (simp add: life_rank_def prune assms(2))
  next
    case dial
    show ?thesis by (rule exI, rule conjI, rule life_step.dial_end [OF dial assms(2)])
      (use dial in \<open>simp add: life_rank_def assms(2)\<close>)
  next
    case pump
    show ?thesis by (rule exI, rule conjI, rule life_step.pump_end [OF pump])
      (use pump in \<open>simp add: life_rank_def assms(2)\<close>)
  qed
qed

lemma life_progress:
  assumes "life_inv s" and "lc_ctxDone s" and "\<not> lc_done s"
  shows "\<exists>s'. life_step s s' \<and> lc_ctxDone s' \<and> life_rank s' < life_rank s"
proof (cases "lc_shut s = ShutWait \<and> lc_wg s \<noteq> 0")
  case True
  then show ?thesis using counted_ends assms(1,2) by (simp add: life_inv_def phase_inv_def)
next
  case False
  have "lc_shut s \<noteq> ShutEnded" using assms(1,3) by (simp add: life_inv_def phase_inv_def)
  then obtain s' where "shut_step s s'" "lc_ctxDone s'" "life_rank s' < life_rank s"
    using shut_ends [OF assms(2)] False by auto
  then show ?thesis using life_step.shutdown by blast
qed

lemma life_down: "life_inv s \<Longrightarrow> lc_ctxDone s \<Longrightarrow> \<exists>s'. life_run s s' \<and> lc_done s'"
proof (induction "life_rank s" arbitrary: s rule: less_induct)
  case less
  show ?case
  proof (cases "lc_done s")
    case False
    then obtain s' where "life_step s s'" "lc_ctxDone s'" "life_rank s' < life_rank s"
      using life_progress less.prems by blast
    then show ?thesis
      using less.hyps life_step_inv less.prems(1) by (meson converse_rtranclp_into_rtranclp)
  qed blast
qed

lemma started_runs_inv: "life_run started_lifecycle s \<Longrightarrow> life_inv s"
  using life_run_inv life_inv_start by blast

text \<open>C14: \<open>shutdown\<close> leaves nothing behind, and is never stuck. However the goroutines of a started
  manager have interleaved, (1) the wait group is the number of goroutines alive; (2) once
  \<open>done\<close> is closed (\<open>Wait\<close> returns) the listener, the advertising, browsing and pruning loops
  and every dial loop have ended, no mDNS service is registered and no server is published;
  (3) once the context is done, a run of steps that need no further event leads to \<open>done\<close>,
  also from the state in which the advertising loop publishes a server after \<open>shutdown\<close> has
  looked for one.
\<close>

theorem shutdown_completes:
  assumes "life_run started_lifecycle s"
  shows "lc_wg s = alive s
    \<and> (lc_done s \<longrightarrow> \<not> lc_serving s \<and> lc_adv s = AdvEnded \<and> lc_browse s = BrowseEnded \<and> \<not> lc_pruning s
         \<and> lc_dials s = 0 \<and> lc_registered s = {} \<and> lc_advertiser s = None)
    \<and> (lc_ctxDone s \<longrightarrow> (\<exists>s'. life_run s s' \<and> lc_done s'))"
proof -
  have inv: "life_inv s" using started_runs_inv assms by blast
  then have "lc_done s \<longrightarrow> \<not> lc_serving s \<and> lc_adv s = AdvEnded \<and> lc_browse s = BrowseEnded \<and> \<not> lc_pruning s
         \<and> lc_dials s = 0" by (simp add: life_inv_def phase_inv_def)
  moreover have "lc_adv s = AdvEnded \<longrightarrow> lc_registered s = {} \<and> lc_advertiser s = None"
    using inv by (auto simp: life_inv_def adv_inv_def)
  ultimately show ?thesis using inv life_down by (auto simp: life_inv_def)
qed

text \<open>A run in which the server is published after \<open>shutdown\<close> has passed the advertiser.\<close>

definition late_publish :: lifecycle where
  "late_publish = started_lifecycle\<lparr>lc_adv := AdvHold 7, lc_registered := {7}, lc_advertiser := Some 7,
     lc_ctxDone := True, lc_shut := ShutServer\<rparr>"

lemma late_publish_reached: "life_run started_lifecycle late_publish"
proof -
  let ?s0 = started_lifecycle
  let ?s1 = "?s0\<lparr>lc_adv := AdvRegister\<rparr>"
  let ?s2 = "?s1\<lparr>lc_adv := AdvPublish 7, lc_registered := insert 7 (lc_registered ?s1)\<rparr>"
  let ?s3 = "?s2\<lparr>lc_ctxDone := True\<rparr>"
  let ?s4 = "?s3\<lparr>lc_shut := ShutAdvertiser\<rparr>"
  let ?s5 = "?s4\<lparr>lc_shut := ShutServer, lc_advertiser := None,
      lc_registered := lc_registered ?s4 - set_option (lc_advertiser ?s4)\<rparr>"
  let ?s6 = "?s5\<lparr>lc_adv := AdvHold 7, lc_advertiser := Some 7\<rparr>"
  have "life_step ?s0 ?s1"
    by (rule life_step.advertise, rule adv_step.adv_go) (simp_all add: started_lifecycle_def)
  moreover have "life_step ?s1 ?s2"
    by (rule life_step.advertise, rule adv_step.adv_registered) (simp_all add: started_lifecycle_def)
  moreover have "life_step ?s2 ?s3" by (rule life_step.cancelled)
  moreover have "life_step ?s3 ?s4"
    by (rule life_step.shutdown, rule shut_step.shut_begin) (simp_all add: started_lifecycle_def)
  moreover have "life_step ?s4 ?s5"
    by (rule life_step.shutdown, rule shut_step.shut_advertiser) simp
  moreover have "life_step ?s5 ?s6"
    by (rule life_step.advertise, rule adv_step.adv_publish) simp
  ultimately have "life_run ?s0 ?s6" by (meson rtranclp.rtrancl_into_rtrancl rtranclp.rtrancl_refl)
  moreover have "?s6 = late_publish" by (simp add: late_publish_def started_lifecycle_def)
  ultimately show ?thesis by simp
qed

theorem shutdown_completes_witness:
  "life_run started_lifecycle late_publish \<and> lc_advertiser late_publish = Some 7
     \<and> (\<exists>s'. life_run late_publish s' \<and> lc_done s')"
  using shutdown_completes [OF late_publish_reached] late_publish_reached by (simp add: late_publish_def)

end
