(* ===== verification/NodeLife.thy ===== *)
theory NodeLife
  imports NodeProperties Lifecycle
begin

text \<open>
  The node together with the life of its mesh manager. In \<open>node_step\<close> the end of the mesh is one
  event; in \<open>life_step\<close> it is the end of \<open>shutdown\<close>, after all goroutines of the wait group. Here
  both run side by side: they share the mesh manager's context, and \<open>m.done\<close>, which the runtime's
  \<open>Wait\<close> waits for, is closed by \<open>shutdown\<close>.
\<close>

section \<open>The product\<close>

record 'os full_node =
  fn_node :: "'os node"
  fn_life :: lifecycle

definition started_full :: "int \<Rightarrow> time \<Rightarrow> 'os \<Rightarrow> Manager \<Rightarrow> 'os full_node" where
  "started_full eventBuffer now os m =
     \<lparr>fn_node = started_node eventBuffer now os m, fn_life = started_lifecycle\<rparr>"

text \<open>
  What the node sees of a step of the life cycle: the mesh manager's context is cancelled
  (\<open>serveHTTP\<close> after a failure), or \<open>m.done\<close> is closed.
\<close>

definition life_seen :: "lifecycle \<Rightarrow> 'os node \<Rightarrow> 'os node" where
  "life_seen l s =
     (let s = (if lc_ctxDone l \<and> \<not> mg_ctxDone (n_mgr s)
               then s\<lparr>n_mesh := (n_mesh s)\<lparr>ms_mgr := cancel_ctx (n_mgr s)\<rparr>\<rparr> else s)
      in s\<lparr>n_meshDone := lc_done l\<rparr>)"

inductive full_step ::
    "('img, 'os) node_deps \<Rightarrow> (Peer \<Rightarrow> bytes \<Rightarrow> bool) \<Rightarrow> 'os full_node \<Rightarrow> 'os full_node \<Rightarrow> bool"
  for D :: "('img, 'os) node_deps" and R :: "Peer \<Rightarrow> bytes \<Rightarrow> bool" where
  node_side: "node_step D R (fn_node s) n \<Longrightarrow> n_meshDone n = n_meshDone (fn_node s) \<Longrightarrow>
    full_step D R s (s\<lparr>fn_node := n, fn_life := (fn_life s)\<lparr>lc_ctxDone := mg_ctxDone (n_mgr n)\<rparr>\<rparr>)"
| life_side: "life_step (fn_life s) l \<Longrightarrow>
    full_step D R s (s\<lparr>fn_node := life_seen l (fn_node s), fn_life := l\<rparr>)"

abbreviation full_run ::
    "('img, 'os) node_deps \<Rightarrow> (Peer \<Rightarrow> bytes \<Rightarrow> bool) \<Rightarrow> 'os full_node \<Rightarrow> 'os full_node \<Rightarrow> bool" where
  "full_run D R \<equiv> (full_step D R)\<^sup>*\<^sup>*"

definition full_inv :: "('img, 'os) node_deps \<Rightarrow> 'os full_node \<Rightarrow> bool" where
  "full_inv D s \<longleftrightarrow> node_inv D (fn_node s) \<and> life_inv (fn_life s)
     \<and> lc_ctxDone (fn_life s) = mg_ctxDone (n_mgr (fn_node s)) \<and> lc_done (fn_life s) = n_meshDone (fn_node s)"

section \<open>Each side takes its own steps\<close>

lemma life_inv_ended:
  "life_inv l \<Longrightarrow> lc_done l \<Longrightarrow> \<not> lc_serving l \<and> lc_adv l = AdvEnded \<and> lc_browse l = BrowseEnded
     \<and> \<not> lc_pruning l \<and> lc_dials l = 0 \<and> lc_registered l = {}"
  by (auto simp: life_inv_def phase_inv_def adv_inv_def)

lemma life_inv_done: "life_inv l \<Longrightarrow> lc_done l \<Longrightarrow> lc_ctxDone l"
  by (simp add: life_inv_def phase_inv_def)

text \<open>Contexts stay done and \<open>m.done\<close> stays closed, in a step of the life cycle.\<close>

lemma life_step_monotone:
  "life_step l l' \<Longrightarrow> life_inv l \<Longrightarrow> (lc_ctxDone l \<longrightarrow> lc_ctxDone l') \<and> (lc_done l \<longrightarrow> lc_done l')"
proof (induction rule: life_step.induct)
  case (advertise s s')
  then show ?case by (auto elim!: adv_stepE)
next
  case (browse s s')
  then show ?case by (auto elim!: browse_stepE)
next
  case (shutdown s s')
  then show ?case by (auto elim!: shut_stepE simp: life_inv_def phase_inv_def)
next
  case (prune s s')
  then show ?case by (auto elim!: prune_stepE)
qed (simp_all add: start_pumps_def)

lemma life_ctx_same: "lc_ctxDone l = b \<Longrightarrow> l\<lparr>lc_ctxDone := b\<rparr> = l"
  by simp

lemma mesh_done_same: "n_meshDone s = b \<Longrightarrow> s\<lparr>n_meshDone := b\<rparr> = s"
  by simp

lemma life_seen_run:
  assumes inv: "full_inv D s" and step: "life_step (fn_life s) l"
  shows "node_run D R (fn_node s) (life_seen l (fn_node s))"
proof -
  let ?n = "fn_node s"
  let ?c = "if lc_ctxDone l \<and> \<not> mg_ctxDone (n_mgr ?n)
    then ?n\<lparr>n_mesh := (n_mesh ?n)\<lparr>ms_mgr := cancel_ctx (n_mgr ?n)\<rparr>\<rparr> else ?n"
  have li: "life_inv (fn_life s)" using inv by (simp add: full_inv_def)
  have "node_step D R ?n (?n\<lparr>n_mesh := (n_mesh ?n)\<lparr>ms_mgr := cancel_ctx (n_mgr ?n)\<rparr>\<rparr>)"
    by (rule node_step.mesh [OF mesh_step.cancel]) simp
  then have cancel: "node_run D R ?n ?c" by (auto intro: r_into_rtranclp)
  have "node_run D R ?c (?c\<lparr>n_meshDone := lc_done l\<rparr>)"
  proof (cases "lc_done l")
    case True
    then have "lc_ctxDone l" using life_inv_done [OF life_step_inv [OF step li]] by blast
    then have "mg_ctxDone (n_mgr ?c)" by (simp add: cancel_ctx_def)
    from node_step.mesh_done [OF this, of D R] show ?thesis using True by (simp add: r_into_rtranclp)
  next
    case False
    then have "\<not> n_meshDone ?n" using life_step_monotone [OF step li] inv by (simp add: full_inv_def)
    then have "n_meshDone ?c = lc_done l" using False by simp
    from mesh_done_same [OF this] show ?thesis by simp
  qed
  then have "node_run D R ?n (?c\<lparr>n_meshDone := lc_done l\<rparr>)" by (rule rtranclp_trans [OF cancel])
  then show ?thesis unfolding life_seen_def Let_def .
qed

lemma life_seen_sel:
  "n_meshDone (life_seen l s) = lc_done l" "mg_ctxDone (n_mgr (life_seen l s)) = (lc_ctxDone l \<or> mg_ctxDone (n_mgr s))"
  by (auto simp: life_seen_def Let_def cancel_ctx_def)

lemma full_step_sides:
  assumes "full_step D R s s'" and inv: "full_inv D s"
  shows "node_run D R (fn_node s) (fn_node s')" "life_step\<^sup>=\<^sup>= (fn_life s) (fn_life s')" "full_inv D s'"
proof -
  have i: "node_inv D (fn_node s)" "life_inv (fn_life s)" "lc_ctxDone (fn_life s) = mg_ctxDone (n_mgr (fn_node s))"
    "lc_done (fn_life s) = n_meshDone (fn_node s)"
    using inv by (simp_all add: full_inv_def)
  have "node_run D R (fn_node s) (fn_node s') \<and> life_step\<^sup>=\<^sup>= (fn_life s) (fn_life s') \<and> full_inv D s'"
    using assms(1)
  proof cases
    case (node_side n)
    let ?l = "(fn_life s)\<lparr>lc_ctxDone := mg_ctxDone (n_mgr n)\<rparr>"
    have "mg_ctxDone (n_mgr (fn_node s)) \<Longrightarrow> mg_ctxDone (n_mgr n)"
      using node_step_opts(4) [OF node_side(2)] i(1) by (simp add: node_inv_def)
    then have l: "?l = fn_life s \<or> ?l = (fn_life s)\<lparr>lc_ctxDone := True\<rparr>"
    proof (cases "mg_ctxDone (n_mgr n)")
      case False
      then have "lc_ctxDone (fn_life s) = mg_ctxDone (n_mgr n)"
        using i(3) \<open>mg_ctxDone (n_mgr (fn_node s)) \<Longrightarrow> mg_ctxDone (n_mgr n)\<close> by auto
      from life_ctx_same [OF this] show ?thesis by blast
    qed simp
    then have ls: "life_step\<^sup>=\<^sup>= (fn_life s) ?l" using life_step.cancelled [of "fn_life s"] by auto
    then have "life_inv ?l" using i(2) life_step_inv by auto
    then show ?thesis
      using node_side node_step_inv [OF node_side(2) i(1)] ls i(4) by (simp add: full_inv_def r_into_rtranclp)
  next
    case (life_side l)
    note run = life_seen_run [OF inv life_side(2), of R]
    have "node_inv D (life_seen l (fn_node s))" by (rule node_run_inv [OF run i(1)])
    moreover have "mg_ctxDone (n_mgr (fn_node s)) \<Longrightarrow> lc_ctxDone l"
      using life_step_monotone [OF life_side(2) i(2)] i(3) by simp
    ultimately show ?thesis
      using life_side run life_step_inv [OF life_side(2) i(2)] by (auto simp: full_inv_def life_seen_sel)
  qed
  then show "node_run D R (fn_node s) (fn_node s')" "life_step\<^sup>=\<^sup>= (fn_life s) (fn_life s')" "full_inv D s'"
    by blast+
qed

lemma full_run_sides:
  assumes "full_run D R s s'" and "full_inv D s"
  shows "node_run D R (fn_node s) (fn_node s') \<and> life_run (fn_life s) (fn_life s') \<and> full_inv D s'"
  using assms(1)
proof (induction rule: rtranclp_induct)
  case (step s1 s2)
  have inv: "full_inv D s1" using step.IH by blast
  have "life_run (fn_life s1) (fn_life s2)" using full_step_sides(2) [OF step.hyps(2) inv] by auto
  then show ?case
    using step.IH full_step_sides(1,3) [OF step.hyps(2) inv] by (auto intro: rtranclp_trans)
qed (simp add: assms(2))

lemma started_full_inv:
  assumes "NewManager raw hostname opts handler_nil = Inr m" and "o_ReconnectMaxBackoff opts < 2 ^ 62"
  shows "full_inv D (started_full eventBuffer now os m)"
proof -
  have "\<not> mg_ctxDone m" using NewManager_Inr(6) [OF assms(1)] .
  then show ?thesis
    using started_node_inv [OF assms, of D eventBuffer now os] life_inv_start
    by (simp add: full_inv_def started_full_def started_lifecycle_def started_node_def initial_state_def Start_def Let_def)
qed

section \<open>The way down\<close>

text \<open>The life cycle runs to its end, and the node sees it.\<close>

lemma life_run_full:
  assumes "life_run (fn_life s) l" and inv: "full_inv D s" and "lc_ctxDone (fn_life s)"
  shows "\<exists>s'. full_run D R s s' \<and> fn_life s' = l \<and> fn_node s' = (fn_node s)\<lparr>n_meshDone := lc_done l\<rparr> \<and> full_inv D s'"
  using assms(1)
proof (induction rule: rtranclp_induct)
  case base
  have "(fn_node s)\<lparr>n_meshDone := n_meshDone (fn_node s)\<rparr> = fn_node s" by simp
  then show ?case using inv by (intro exI [of _ s]) (simp add: full_inv_def)
next
  case (step l l')
  then obtain t where t: "full_run D R s t" "fn_life t = l" "fn_node t = (fn_node s)\<lparr>n_meshDone := lc_done l\<rparr>"
      "full_inv D t" by blast
  let ?t = "t\<lparr>fn_node := life_seen l' (fn_node t), fn_life := l'\<rparr>"
  have f: "full_step D R t ?t" using full_step.life_side [of t l' D R] step.hyps(2) t(2) by simp
  have "mg_ctxDone (n_mgr (fn_node t))" using t(3) assms(3) inv by (simp add: full_inv_def)
  then have "life_seen l' (fn_node t) = (fn_node s)\<lparr>n_meshDone := lc_done l'\<rparr>"
    using t(3) by (simp add: life_seen_def)
  then show ?case
    using rtranclp.rtrancl_into_rtrancl [OF t(1) f] full_step_sides(3) [OF f t(4)] by (intro exI [of _ ?t]) simp
qed

text \<open>Then the node runs on alone.\<close>

lemma node_run_full:
  assumes "node_run D R (fn_node s) n" and inv: "full_inv D s" and "n_meshDone (fn_node s)"
  shows "full_run D R s (s\<lparr>fn_node := n\<rparr>) \<and> n_meshDone n"
  using assms(1)
proof (induction rule: rtranclp_induct)
  case base
  have "s\<lparr>fn_node := fn_node s\<rparr> = s" by simp
  then show ?case using assms(3) by (metis rtranclp.rtrancl_refl)
next
  case (step n n')
  let ?s = "s\<lparr>fn_node := n\<rparr>"
  have inv': "full_inv D ?s" using full_run_sides [OF _ inv] step.IH by blast
  have "lc_ctxDone (fn_life s)" "mg_ctxDone (n_mgr n)"
    using inv' step.IH life_inv_done [of "fn_life s"] by (simp_all add: full_inv_def)
  moreover from this have "mg_ctxDone (n_mgr n')"
    using node_step_opts(4) [OF step.hyps(2)] inv' by (simp add: full_inv_def node_inv_def)
  ultimately have "(fn_life s)\<lparr>lc_ctxDone := mg_ctxDone (n_mgr n')\<rparr> = fn_life s"
    by (intro life_ctx_same) simp
  moreover have "n_meshDone n'" using step.hyps(2) step.IH by (auto elim!: node_stepE split: if_splits)
  ultimately have "full_step D R ?s (s\<lparr>fn_node := n'\<rparr>) \<and> n_meshDone n'"
    using full_step.node_side [of D R ?s n'] step.hyps(2) step.IH by simp
  then show ?case using step.IH by (meson rtranclp.rtrancl_into_rtrancl)
qed

lemma full_down:
  assumes inv: "full_inv D s" and "n_ctxDone (fn_node s)"
  shows "\<exists>s'. full_run D R s s' \<and> rt_waitClosed (n_rt (fn_node s')) \<and> n_loop (fn_node s') = ClipEnded
    \<and> \<not> n_logLoop (fn_node s')"
proof -
  have li: "life_inv (fn_life s)" "lc_ctxDone (fn_life s)"
    using inv assms(2) by (simp_all add: full_inv_def node_inv_def ended_inv_def)
  then obtain l where l: "life_run (fn_life s) l" "lc_done l" using life_down by blast
  obtain t where t: "full_run D R s t" "fn_life t = l" "fn_node t = (fn_node s)\<lparr>n_meshDone := lc_done l\<rparr>" "full_inv D t"
    using life_run_full [OF l(1) inv li(2)] by blast
  have "node_inv D (fn_node t)" "n_ctxDone (fn_node t)" "n_meshDone (fn_node t)"
    using t(3,4) l(2) assms(2) by (simp_all add: full_inv_def)
  then obtain n where n: "node_run D R (fn_node t) n" "n_loop n = ClipEnded" "\<not> n_logLoop n" "rt_waitClosed (n_rt n)"
    using node_down [where R = R] by blast
  have "full_run D R t (t\<lparr>fn_node := n\<rparr>)" using node_run_full [OF n(1) t(4)] \<open>n_meshDone (fn_node t)\<close> by blast
  then show ?thesis using rtranclp_trans [OF t(1)] n by (intro exI [of _ "t\<lparr>fn_node := n\<rparr>"]) simp
qed

section \<open>The end of a node\<close>

text \<open>C7: A node leaves nothing behind, and can always end. In every reachable state of a node with the life
cycle of its mesh manager, each side is in a state it reaches on its own. Once the context is done, the
goroutines can run on until both loops of the runtime have ended and \<open>Wait\<close> returns. And when
\<open>Wait\<close> returns, the context is done and \<open>shutdown\<close> has run to its end: the HTTP server, the
advertising, browsing and pruning loops and all dial loops have ended, and no service is
registered any more.\<close>

theorem full_node_stops:
  assumes "NewManager raw hostname opts handler_nil = Inr m" and "o_ReconnectMaxBackoff opts < 2 ^ 62"
    and "full_run D R (started_full eventBuffer now os m) s"
  shows "node_run D R (started_node eventBuffer now os m) (fn_node s) \<and> life_run started_lifecycle (fn_life s)
    \<and> (n_ctxDone (fn_node s) \<longrightarrow> (\<exists>s'. full_run D R s s' \<and> rt_waitClosed (n_rt (fn_node s'))
         \<and> n_loop (fn_node s') = ClipEnded \<and> \<not> n_logLoop (fn_node s')))
    \<and> (rt_waitClosed (n_rt (fn_node s)) \<longrightarrow> n_ctxDone (fn_node s) \<and> lc_done (fn_life s)
         \<and> \<not> lc_serving (fn_life s) \<and> lc_adv (fn_life s) = AdvEnded \<and> lc_browse (fn_life s) = BrowseEnded
         \<and> \<not> lc_pruning (fn_life s) \<and> lc_dials (fn_life s) = 0 \<and> lc_registered (fn_life s) = {})"
proof -
  have sides: "node_run D R (started_node eventBuffer now os m) (fn_node s)" "life_run started_lifecycle (fn_life s)"
    "full_inv D s"
    using full_run_sides [OF assms(3) started_full_inv [OF assms(1,2)]] by (simp_all add: started_full_def)
  have inv: "node_inv D (fn_node s)" "life_inv (fn_life s)" "lc_done (fn_life s) = n_meshDone (fn_node s)"
    using sides(3) by (simp_all add: full_inv_def)
  have "rt_waitClosed (n_rt (fn_node s)) \<Longrightarrow> n_ctxDone (fn_node s) \<and> lc_done (fn_life s)"
    using inv(1,3) by (simp add: node_inv_def ended_inv_def)
  then show ?thesis using sides full_down [OF sides(3)] life_inv_ended [OF inv(2)] by blast
qed

text \<open>The sample node, with nothing done yet but its context cancelled.\<close>

abbreviation sample_full :: "(clipFormat \<times> bytes) list full_node" where
  "sample_full \<equiv> started_full 0 0 [] sample_start"

theorem full_node_stops_witness:
  "\<exists>s. full_run sample_node_deps any_frame sample_full s \<and> rt_waitClosed (n_rt (fn_node s)) \<and> lc_registered (fn_life s) = {}"
proof -
  let ?n = "(fn_node sample_full)\<lparr>n_ctxDone := True, n_mesh := (n_mesh (fn_node sample_full))
      \<lparr>ms_mgr := cancel_ctx (n_mgr (fn_node sample_full))\<rparr>\<rparr>"
  let ?s = "sample_full\<lparr>fn_node := ?n, fn_life := (fn_life sample_full)\<lparr>lc_ctxDone := mg_ctxDone (n_mgr ?n)\<rparr>\<rparr>"
  have s: "full_step sample_node_deps any_frame sample_full ?s"
    by (rule full_step.node_side [OF node_step.cancelled]) simp
  have ctx: "n_ctxDone (fn_node ?s)" by simp
  obtain t where t: "full_run sample_node_deps any_frame ?s t" "rt_waitClosed (n_rt (fn_node t))"
    using full_node_stops [OF sample_start_new sample_backoff r_into_rtranclp [where r = "full_step sample_node_deps any_frame", OF s]] ctx by blast
  have run: "full_run sample_node_deps any_frame sample_full t"
    using converse_rtranclp_into_rtranclp [where r = "full_step sample_node_deps any_frame", OF s t(1)] .
  show ?thesis using full_node_stops [OF sample_start_new sample_backoff run] run t(2) by blast
qed

section \<open>A mesh that fails alone\<close>

lemma life_run_done:
  assumes "life_run l l'" and "life_inv l" and "lc_done l"
  shows "life_inv l' \<and> lc_done l'"
  using assms(1)
proof (induction rule: rtranclp_induct)
  case (step l l')
  then show ?case using life_step_monotone [OF step.hyps(2)] life_step_inv [OF step.hyps(2)] by blast
qed (simp add: assms(2,3))

text \<open>C40: A mesh that fails alone is not noticed. From every reachable state in which the node's context is
not done and the HTTP server runs, the server can fail: \<open>Serve\<close> returns and \<open>serveHTTP\<close> cancels the
mesh manager's own context. Then a run leads to the end of the mesh manager's \<open>shutdown\<close>, with the
node's context still not done. And in every state after that, as long as nobody cancels the node's
context, the mesh is gone: no server, no dial loop, no advertising, browsing or pruning loop, no
registered service, and every connection in its table is cancelled; but the runtime goes on: \<open>Wait\<close>
does not return, the peer log loop has not ended, the clipboard loop ends only if \<open>Events\<close> is closed,
and the status still says that the daemon is running.\<close>

theorem mesh_failure_unnoticed:
  assumes "NewManager raw hostname opts handler_nil = Inr m" and "o_ReconnectMaxBackoff opts < 2 ^ 62"
    and "full_run D R (started_full eventBuffer now os m) s"
    and "\<not> n_ctxDone (fn_node s)" and "lc_serving (fn_life s)"
  shows "\<exists>s1 s2. full_step D R s s1
    \<and> fn_life s1 = wg_done ((fn_life s)\<lparr>lc_serving := False, lc_ctxDone := True\<rparr>)
    \<and> full_run D R s1 s2 \<and> lc_shut (fn_life s2) = ShutEnded \<and> \<not> n_ctxDone (fn_node s2)
    \<and> (\<forall>t. full_run D R s2 t \<longrightarrow> \<not> n_ctxDone (fn_node t) \<longrightarrow>
         lc_done (fn_life t) \<and> \<not> lc_serving (fn_life t) \<and> lc_dials (fn_life t) = 0
         \<and> lc_adv (fn_life t) = AdvEnded \<and> lc_browse (fn_life t) = BrowseEnded \<and> \<not> lc_pruning (fn_life t)
         \<and> lc_registered (fn_life t) = {}
         \<and> (\<forall>cid c. fmlookup (mg_conns (n_mgr (fn_node t))) cid = Some c \<longrightarrow> mc_cancelled c)
         \<and> \<not> rt_waitClosed (n_rt (fn_node t)) \<and> n_logLoop (fn_node t)
         \<and> (n_loop (fn_node t) = ClipEnded \<longrightarrow> cl_closed (n_clip (fn_node t)))
         \<and> st_Running (Runtime_Status name nodeID (Peers order (n_mgr (fn_node t))) (n_rt (fn_node t))))"
proof -
  let ?l = "wg_done ((fn_life s)\<lparr>lc_serving := False, lc_ctxDone := True\<rparr>)"
  let ?s1 = "s\<lparr>fn_node := life_seen ?l (fn_node s), fn_life := ?l\<rparr>"
  have inv: "full_inv D s"
    using full_run_sides [OF assms(3) started_full_inv [OF assms(1,2)]] by blast
  have s1: "full_step D R s ?s1"
    by (rule full_step.life_side [OF life_step.serve_failed [OF assms(5)]])
  have inv1: "full_inv D ?s1" by (rule full_step_sides(3) [OF s1 inv])
  have ctx1: "\<not> n_ctxDone (fn_node ?s1)" using assms(4) by (simp add: life_seen_def Let_def)
  have "life_inv (fn_life ?s1)" using inv1 unfolding full_inv_def by blast
  then obtain l where l: "life_run ?l l" "lc_done l"
    using life_down [of ?l] by auto
  obtain s2 where s2: "full_run D R ?s1 s2" "fn_life s2 = l" "full_inv D s2"
      "fn_node s2 = (fn_node ?s1)\<lparr>n_meshDone := lc_done l\<rparr>"
    using life_run_full [of ?s1 l, OF _ inv1] l(1) by auto
  have li: "life_inv l" using s2(2,3) by (simp add: full_inv_def)
  have after: "full_inv D t \<and> life_inv (fn_life t) \<and> lc_done (fn_life t)" if "full_run D R s2 t" for t
    using full_run_sides [OF that s2(3)] life_run_done [of l "fn_life t"] li l(2) s2(2) by blast
  have gone: "mc_cancelled c" if "full_run D R s2 t" "fmlookup (mg_conns (n_mgr (fn_node t))) cid = Some c" for t cid c
  proof -
    have "mg_ctxDone (n_mgr (fn_node t))" "mesh_inv (n_mgr (fn_node t))"
      using after [OF that(1)] life_inv_done [of "fn_life t"]
      by (auto simp: full_inv_def node_inv_def system_inv_def)
    then show ?thesis using mesh_invD(5) that(2) by blast
  qed
  have on: "\<not> rt_waitClosed (n_rt (fn_node t)) \<and> n_logLoop (fn_node t)
      \<and> (n_loop (fn_node t) = ClipEnded \<longrightarrow> cl_closed (n_clip (fn_node t)))"
    if "full_run D R s2 t" "\<not> n_ctxDone (fn_node t)" for t
    using after [OF that(1)] that(2) by (auto simp: full_inv_def node_inv_def ended_inv_def)
  have "lc_shut (fn_life s2) = ShutEnded" "\<not> n_ctxDone (fn_node s2)"
    using li l(2) s2(2,4) ctx1 by (simp_all add: life_inv_def phase_inv_def)
  then show ?thesis
    using s1 s2(1) after gone on life_inv_ended
    by (intro exI [of _ ?s1] exI [of _ s2]) (auto simp: Runtime_Status_def)
qed

text \<open>The sample node, whose server fails at once.\<close>

theorem mesh_failure_unnoticed_witness:
  "\<exists>s. full_run sample_node_deps any_frame sample_full s \<and> lc_done (fn_life s) \<and> lc_registered (fn_life s) = {}
    \<and> \<not> n_ctxDone (fn_node s) \<and> \<not> rt_waitClosed (n_rt (fn_node s))"
proof -
  have "full_run sample_node_deps any_frame sample_full sample_full" by simp
  moreover have "\<not> n_ctxDone (fn_node sample_full)" "lc_serving (fn_life sample_full)"
    by (simp_all add: started_full_def started_node_def started_lifecycle_def Let_def)
  ultimately obtain s1 s2 where s: "full_step sample_node_deps any_frame sample_full s1"
      "full_run sample_node_deps any_frame s1 s2" "\<not> n_ctxDone (fn_node s2)"
      "\<forall>t. full_run sample_node_deps any_frame s2 t \<longrightarrow> \<not> n_ctxDone (fn_node t) \<longrightarrow>
         lc_done (fn_life t) \<and> lc_registered (fn_life t) = {} \<and> \<not> rt_waitClosed (n_rt (fn_node t))"
    using mesh_failure_unnoticed [OF sample_start_new sample_backoff] by metis
  then show ?thesis
    using converse_rtranclp_into_rtranclp [where r = "full_step sample_node_deps any_frame", OF s(1,2)] by blast
qed

end
