(* ===== verification/Endpoint.thy ===== *)
theory Endpoint
  imports Control
begin

text \<open>
  The control endpoint of \<open>internal/app/ipc_unix.go\<close>: \<open>listenControl\<close>, the \<open>closeFn\<close> it returns with
  the \<open>Close\<close> of \<open>control.go\<close> that calls it, and \<open>dialControl\<close>, on the part of the system they share:
  the files, and the listeners that are open. Several daemons may use the same path. The calls
  of \<open>os\<close> and \<open>net\<close> are modelled as far as the code uses them; each may also fail for reasons of
  its own (\<open>faults\<close>). The default endpoint, and the wrappers of \<open>ipc_windows.go\<close>. A client's context is not done while it dials. Closing
  the listener and the removal of the path by \<open>closeFn\<close> are one step, so no other process comes
  between the two.
\<close>

section \<open>Files and listeners\<close>

text \<open>At a path there is the socket of a listener, dead or alive, or something else.\<close>

datatype ipc_file = Socket nat | OtherFile

record ipc_world =
  iw_files :: "(string, ipc_file) fmap"
  iw_open :: "nat set"
  iw_next :: nat

datatype ipc_op = MkdirAll | RemoveStale | ListenUnix | ChmodEndpoint | RemoveOnClose

datatype ipc_error = NotExist | AddrInUse | ConnRefused | OsError string

definition os_remove :: "string option \<Rightarrow> string \<Rightarrow> ipc_world \<Rightarrow> ipc_world \<times> ipc_error option" where
  "os_remove fault path w =
     (case fault of
        Some e \<Rightarrow> (w, Some (OsError e))
      | None \<Rightarrow>
          (case fmlookup (iw_files w) path of
             None \<Rightarrow> (w, Some NotExist)
           | Some f \<Rightarrow> (w\<lparr>iw_files := fmdrop path (iw_files w)\<rparr>, None)))"

text \<open>\<open>net.Listen\<close> binds a new socket file, so nothing may be at the path.\<close>

definition net_listen :: "string option \<Rightarrow> string \<Rightarrow> ipc_world \<Rightarrow> ipc_world \<times> (ipc_error + nat)" where
  "net_listen fault path w =
     (case fault of
        Some e \<Rightarrow> (w, Inl (OsError e))
      | None \<Rightarrow>
          if fmlookup (iw_files w) path \<noteq> None then (w, Inl AddrInUse)
          else (w\<lparr>iw_files := fmupd path (Socket (iw_next w)) (iw_files w),
                  iw_open := insert (iw_next w) (iw_open w), iw_next := iw_next w + 1\<rparr>, Inr (iw_next w)))"

text \<open>Closing a Unix listener also unlinks its path, whatever is there now.\<close>

definition listener_close :: "string \<Rightarrow> nat \<Rightarrow> ipc_world \<Rightarrow> ipc_world" where
  "listener_close path n w =
     w\<lparr>iw_files := fmdrop path (iw_files w), iw_open := iw_open w - {n}\<rparr>"

section \<open>The endpoint\<close>

definition listenControl_unix ::
    "(ipc_op \<Rightarrow> string option) \<Rightarrow> string \<Rightarrow> ipc_world \<Rightarrow> ipc_world \<times> (ipc_error + nat)" where
  "listenControl_unix faults endpoint w =
     (case faults MkdirAll of
        Some e \<Rightarrow> (w, Inl (OsError e))
      | None \<Rightarrow>
          let w = fst (os_remove (faults RemoveStale) endpoint w) in
          case net_listen (faults ListenUnix) endpoint w of
            (w, Inl e) \<Rightarrow> (w, Inl e)
          | (w, Inr n) \<Rightarrow>
              (case faults ChmodEndpoint of
                 Some e \<Rightarrow> (listener_close endpoint n w, Inl (OsError e))
               | None \<Rightarrow> (w, Inr n)))"

text \<open>The server's listener is \<open>n\<close>; \<open>closeFn\<close> is the removal of the path.\<close>

definition ipc_error_text :: "string \<Rightarrow> ipc_error \<Rightarrow> string" where
  "ipc_error_text path e =
     (case e of
        NotExist \<Rightarrow> ''remove '' @ path @ '': no such file or directory''
      | AddrInUse \<Rightarrow> ''listen unix '' @ path @ '': bind: address already in use''
      | ConnRefused \<Rightarrow> ''dial unix '' @ path @ '': connect: connection refused''
      | OsError e \<Rightarrow> e)"

definition closeControl ::
    "(ipc_op \<Rightarrow> string option) \<Rightarrow> string \<Rightarrow> nat \<Rightarrow> ipc_world \<times> ControlServer
     \<Rightarrow> (ipc_world \<times> ControlServer) \<times> string option" where
  "closeControl faults endpoint n ws =
     (case ws of
        (w, s) \<Rightarrow>
          if cs_closeDone s then (ws, None)
          else
            let w = listener_close endpoint n w;
                (w', fn_err) = (if cs_closeFn s then os_remove (faults RemoveOnClose) endpoint w else (w, None));
                (s, err) = Close None (map_option (ipc_error_text endpoint) fn_err) s
            in ((w', s), err))"

text \<open>\<open>NewControlServer\<close> on its listener.\<close>

definition openControl ::
    "(ipc_op \<Rightarrow> string option) \<Rightarrow> string \<Rightarrow> ipc_world \<Rightarrow> ipc_world \<times> (ipc_error + nat \<times> ControlServer)" where
  "openControl faults endpoint w =
     (case listenControl_unix faults endpoint w of
        (w, Inl e) \<Rightarrow> (w, Inl e)
      | (w, Inr n) \<Rightarrow> (w, map_sum OsError (\<lambda>s. (n, s)) (NewControlServer None)))"

definition dialControl :: "string \<Rightarrow> ipc_world \<Rightarrow> ipc_error + nat" where
  "dialControl endpoint w =
     (case fmlookup (iw_files w) endpoint of
        None \<Rightarrow> Inl NotExist
      | Some (Socket n) \<Rightarrow> if n \<in> iw_open w then Inr n else Inl ConnRefused
      | Some OtherFile \<Rightarrow> Inl ConnRefused)"

section \<open>The default endpoint\<close>

text \<open>\<open>filepath.Clean\<close>, on the elements between the slashes; those kept so far are in \<open>kept\<close>, last first.\<close>

fun path_elements :: "string \<Rightarrow> string list" where
  "path_elements [] = [[]]"
| "path_elements (c # cs) =
     (if c = CHR ''/'' then [] # path_elements cs
      else (case path_elements cs of [] \<Rightarrow> [[c]] | x # xs \<Rightarrow> (c # x) # xs))"

fun clean_elements :: "bool \<Rightarrow> string list \<Rightarrow> string list \<Rightarrow> string list" where
  "clean_elements rooted kept [] = rev kept"
| "clean_elements rooted kept (x # xs) =
     (if x = '''' \<or> x = ''.'' then clean_elements rooted kept xs
      else if x = ''..'' then
        (case kept of
           [] \<Rightarrow> clean_elements rooted (if rooted then [] else [''..'']) xs
         | y # ys \<Rightarrow> clean_elements rooted (if y = ''..'' then x # kept else ys) xs)
      else clean_elements rooted (x # kept) xs)"

fun join_elements :: "string list \<Rightarrow> string" where
  "join_elements [] = ''''"
| "join_elements [x] = x"
| "join_elements (x # xs) = x @ ''/'' @ join_elements xs"

definition path_clean :: "string \<Rightarrow> string" where
  "path_clean path =
     (let rooted = (path \<noteq> '''' \<and> hd path = CHR ''/'');
          rest = join_elements (clean_elements rooted [] (path_elements path))
      in if rooted then CHR ''/'' # rest else if rest = '''' then ''.'' else rest)"

text \<open>\<open>os.TempDir\<close> is \<open>$TMPDIR\<close> or \<open>/tmp\<close>, so it is not empty and \<open>Join\<close> takes both of its arguments.\<close>

definition DefaultControlEndpoint_unix :: "(string \<Rightarrow> string) \<Rightarrow> string" where
  "DefaultControlEndpoint_unix getenv =
     (let dir = getenv ''TMPDIR''; dir = (if dir = '''' then ''/tmp'' else dir)
      in path_clean (dir @ ''/'' @ ''clippy.sock''))"

section \<open>The named pipes of Windows\<close>

text \<open>\<open>ListenPipe\<close> and \<open>DialPipeContext\<close> of winio are parameters; here \<open>closeFn\<close> does nothing.\<close>

definition listenControl_windows :: "(string \<Rightarrow> 'e + 'l) \<Rightarrow> string \<Rightarrow> 'e + 'l \<times> (unit \<Rightarrow> 'e option)" where
  "listenControl_windows listen_pipe endpoint =
     (case listen_pipe endpoint of
        Inl e \<Rightarrow> Inl e
      | Inr listener \<Rightarrow> Inr (listener, \<lambda>_. None))"

definition dialControl_windows :: "(string \<Rightarrow> 'e + 'conn) \<Rightarrow> string \<Rightarrow> 'e + 'conn" where
  "dialControl_windows dial_pipe endpoint = dial_pipe endpoint"

section \<open>Facts\<close>

text \<open>The default endpoint is the file \<open>clippy.sock\<close>, in whatever directory.\<close>

lemma path_elements_not_Nil [simp]: "path_elements s \<noteq> []"
  by (cases s) (auto split: list.split)

lemma path_elements_append: "path_elements (s @ CHR ''/'' # t) = path_elements s @ path_elements t"
  by (induction s) (auto split: list.split)

lemma clean_elements_snoc:
  "x \<notin> {'''', ''.'', ''..''} \<Longrightarrow> \<exists>xs'. clean_elements rooted kept (xs @ [x]) = xs' @ [x]"
  by (induction rooted kept xs rule: clean_elements.induct) (auto split: list.split)

lemma join_elements_snoc: "\<exists>s. join_elements (xs @ [x]) = s @ x"
proof (induction xs rule: join_elements.induct)
  case (3 x y xs)
  then show ?case by auto
qed auto

lemma default_endpoint_suffix: "\<exists>dir. DefaultControlEndpoint_unix getenv = dir @ ''clippy.sock''"
proof -
  let ?dir = "if getenv ''TMPDIR'' = '''' then ''/tmp'' else getenv ''TMPDIR''"
  have last: "\<exists>s. join_elements (clean_elements rooted [] (path_elements (?dir @ ''/clippy.sock''))) = s @ ''clippy.sock''"
    for rooted
  proof -
    have "path_elements (?dir @ ''/clippy.sock'') = path_elements ?dir @ [''clippy.sock'']"
      using path_elements_append [of ?dir "''clippy.sock''"] by simp
    moreover obtain xs where "clean_elements rooted [] (path_elements ?dir @ [''clippy.sock'']) = xs @ [''clippy.sock'']"
      using clean_elements_snoc [of "''clippy.sock''" rooted "[]" "path_elements ?dir"] by auto
    ultimately show ?thesis using join_elements_snoc [of xs "''clippy.sock''"] by simp
  qed
  obtain r1 r2 where "join_elements (clean_elements True [] (path_elements (?dir @ ''/clippy.sock''))) = r1 @ ''clippy.sock''"
      "join_elements (clean_elements False [] (path_elements (?dir @ ''/clippy.sock''))) = r2 @ ''clippy.sock''"
    using last by metis
  then show ?thesis
    unfolding DefaultControlEndpoint_unix_def path_clean_def Let_def
    by (cases "?dir @ ''/'' @ ''clippy.sock'' \<noteq> '''' \<and> hd (?dir @ ''/'' @ ''clippy.sock'') = CHR ''/''")
      simp_all
qed

lemma default_endpoint_tmp: "getenv ''TMPDIR'' = '''' \<Longrightarrow> DefaultControlEndpoint_unix getenv = ''/tmp/clippy.sock''"
  by (simp add: DefaultControlEndpoint_unix_def path_clean_def)

text \<open>Removing a file leaves the listeners and the other files.\<close>

text \<open>Listeners have fresh numbers.\<close>

definition ipc_inv :: "ipc_world \<Rightarrow> bool" where
  "ipc_inv w \<longleftrightarrow> (\<forall>n \<in> iw_open w. n < iw_next w)"

lemma os_remove_sel [simp]:
  "iw_open (fst (os_remove fault path w)) = iw_open w" "iw_next (fst (os_remove fault path w)) = iw_next w"
  "p \<noteq> path \<Longrightarrow> fmlookup (iw_files (fst (os_remove fault path w))) p = fmlookup (iw_files w) p"
  by (simp_all add: os_remove_def split: option.split)

lemma net_listen_Inr:
  assumes "net_listen fault path w = (w', Inr n)"
  shows "n = iw_next w" "fmlookup (iw_files w') path = Some (Socket n)" "iw_open w' = insert n (iw_open w)"
    "iw_next w' = n + 1" "p \<noteq> path \<Longrightarrow> fmlookup (iw_files w') p = fmlookup (iw_files w) p"
  using assms by (auto simp: net_listen_def split: option.splits if_splits)

lemma listenControl_Inr:
  assumes "listenControl_unix faults endpoint w = (w', Inr n)"
  shows "n = iw_next w" "fmlookup (iw_files w') endpoint = Some (Socket n)" "iw_open w' = insert n (iw_open w)"
    "iw_next w' = n + 1" "p \<noteq> endpoint \<Longrightarrow> fmlookup (iw_files w') p = fmlookup (iw_files w) p"
proof -
  have l: "net_listen (faults ListenUnix) endpoint (fst (os_remove (faults RemoveStale) endpoint w)) = (w', Inr n)"
    using assms by (auto simp: listenControl_unix_def Let_def split: option.splits prod.splits sum.splits)
  show "n = iw_next w" "fmlookup (iw_files w') endpoint = Some (Socket n)" "iw_open w' = insert n (iw_open w)"
    "iw_next w' = n + 1" "p \<noteq> endpoint \<Longrightarrow> fmlookup (iw_files w') p = fmlookup (iw_files w) p"
    using net_listen_Inr [OF l] by simp_all
qed

lemma listenControl_dial: "listenControl_unix faults endpoint w = (w', Inr n) \<Longrightarrow> dialControl endpoint w' = Inr n"
  using listenControl_Inr(2,3) [of faults endpoint w w' n] by (simp add: dialControl_def)

lemma listenControl_inv: "listenControl_unix faults endpoint w = (w', Inr n) \<Longrightarrow> ipc_inv w \<Longrightarrow> ipc_inv w' \<and> n \<notin> iw_open w"
  using listenControl_Inr [of faults endpoint w w' n] by (auto simp: ipc_inv_def)

text \<open>The server of an endpoint closes its listener, then runs \<open>closeFn\<close>; both once.\<close>

lemma openControl_Inr:
  assumes "openControl faults endpoint w = (w', Inr (n, srv))"
  shows "listenControl_unix faults endpoint w = (w', Inr n)" "cs_closeFn srv" "\<not> cs_closeDone srv"
  using assms by (auto simp: openControl_def NewControlServer_def split: prod.splits sum.splits)

lemma closeControl_result:
  assumes "closeControl faults endpoint n (w, srv) = ((w', srv'), e)" "\<not> cs_closeDone srv" "cs_closeFn srv"
  shows "w' = listener_close endpoint n w" "cs_closeDone srv'"
    "e = Some (ipc_error_text endpoint (case faults RemoveOnClose of Some e \<Rightarrow> OsError e | None \<Rightarrow> NotExist))"
  using assms by (auto simp: closeControl_def Close_def os_remove_def listener_close_def Let_def split: option.splits)

text \<open>Without faults it always succeeds, whatever is at the path.\<close>

lemma openControl_succeeds:
  assumes "faults MkdirAll = None" "faults RemoveStale = None" "faults ListenUnix = None" "faults ChmodEndpoint = None"
  shows "\<exists>w' srv. openControl faults endpoint w = (w', Inr (iw_next w, srv))"
  using assms
  by (auto simp: openControl_def NewControlServer_def listenControl_unix_def os_remove_def net_listen_def Let_def
      split: option.split)

section \<open>One endpoint, two daemons\<close>

text \<open>C39: The control endpoint, and what is wrong with it. A daemon that listens replaces whatever is at
the path, a dead socket, a file of the user's, or the socket of a daemon that is alive, and from
then on clients reach it. When a second daemon listens at the path, the first is still open but
no client reaches it any more; and when the first then closes, it takes away the second's
socket: the second is still open and no client can reach it. Files at other paths are not
touched. And \<open>Close\<close> returns an error however well it went, since the path that \<open>closeFn\<close> removes
is gone with the listener; a second call does nothing and returns none.\<close>

theorem endpoint_taken_over:
  assumes "ipc_inv w" and "openControl faults endpoint w = (w1, Inr (n1, srv1))"
    and "openControl faults endpoint w1 = (w2, Inr (n2, srv2))"
    and "closeControl faults endpoint n1 (w2, srv1) = ((w3, srv3), e)"
  shows "dialControl endpoint w1 = Inr n1 \<and> dialControl endpoint w2 = Inr n2
    \<and> n1 \<noteq> n2 \<and> {n1, n2} \<subseteq> iw_open w2
    \<and> dialControl endpoint w3 = Inl NotExist \<and> n2 \<in> iw_open w3 \<and> n1 \<notin> iw_open w3
    \<and> e \<noteq> None \<and> closeControl faults endpoint n1 (w3, srv3) = ((w3, srv3), None)
    \<and> (\<forall>path. path \<noteq> endpoint \<longrightarrow> fmlookup (iw_files w3) path = fmlookup (iw_files w) path)"
proof -
  note o1 = openControl_Inr [OF assms(2)] and o2 = openControl_Inr [OF assms(3)]
  note l1 = listenControl_Inr [OF o1(1)] and l2 = listenControl_Inr [OF o2(1)]
  have inv1: "ipc_inv w1" using listenControl_inv [OF o1(1) assms(1)] by blast
  have new: "n1 \<in> iw_open w1" "n2 \<notin> iw_open w1" "iw_open w2 = insert n2 (iw_open w1)"
    using l1(3) l2(3) listenControl_inv [OF o2(1) inv1] by auto
  note w3 = closeControl_result [OF assms(4) o1(3,2)]
  have "fmlookup (iw_files w3) path = fmlookup (iw_files w) path" if "path \<noteq> endpoint" for path
    using that l1(5) [OF that] l2(5) [OF that] by (simp add: w3(1) listener_close_def)
  moreover have "closeControl faults endpoint n1 (w3, srv3) = ((w3, srv3), None)"
    by (simp add: closeControl_def w3(2))
  ultimately show ?thesis
    using new listenControl_dial [OF o1(1)] listenControl_dial [OF o2(1)] w3
    by (auto simp: listener_close_def dialControl_def)
qed

text \<open>A file of the user's lies at the path; two daemons are started there.\<close>

definition sample_world :: ipc_world where
  "sample_world = \<lparr>iw_files = fmupd ''/tmp/notes'' OtherFile fmempty, iw_open = {}, iw_next = 0\<rparr>"

theorem endpoint_taken_over_witness:
  "\<exists>w. iw_open w = {1} \<and> dialControl ''/tmp/notes'' w = Inl NotExist"
proof -
  let ?open = "openControl (\<lambda>_. None) ''/tmp/notes''" and ?close = "closeControl (\<lambda>_. None) ''/tmp/notes''"
  obtain w1 srv1 where w1: "?open sample_world = (w1, Inr (0, srv1))"
    using openControl_succeeds [of "\<lambda>_. None" "''/tmp/notes''" sample_world] by (auto simp: sample_world_def)
  note l1 = listenControl_Inr [OF openControl_Inr(1) [OF w1]]
  obtain w2 srv2 where w2: "?open w1 = (w2, Inr (1, srv2))"
    using openControl_succeeds [of "\<lambda>_. None" "''/tmp/notes''" w1] l1(4) by auto
  note l2 = listenControl_Inr [OF openControl_Inr(1) [OF w2]]
  obtain w3 srv3 e where w3: "?close 0 (w2, srv1) = ((w3, srv3), e)"
    by (metis surj_pair)
  have "ipc_inv sample_world" by (simp add: ipc_inv_def sample_world_def)
  from endpoint_taken_over [OF this w1 w2 w3]
  have "dialControl ''/tmp/notes'' w3 = Inl NotExist" by blast
  moreover have "iw_open w3 = {1}"
    using closeControl_result(1) [OF w3 openControl_Inr(3,2) [OF w1]] l1(3) l2(3)
    by (auto simp: listener_close_def sample_world_def)
  ultimately show ?thesis by blast
qed

end
