(* ===== verification/Heartbeat.thy ===== *)
theory Heartbeat
  imports MeshInv
begin

text \<open>
  The deadlines of \<open>internal/netmesh/connection.go\<close>: the read pump sets a read deadline of
  \<open>PongTimeout\<close> when it starts and again at every pong, never at a message, and handles messages
  itself, one after the other; the write pump sends a ping at every tick of \<open>HeartbeatInterval\<close>.
\<close>

section \<open>The read pump in time\<close>

text \<open>
  What the socket delivers: pongs, which the pong handler takes inside \<open>ReadMessage\<close>, and
  binary messages with the time \<open>HandleFrame\<close> takes for them. Each comes with its time of arrival
  and whether the buffered reader has it already, so that it is read without the socket.
\<close>

datatype ws_input = Pong | Message bytes duration

type_synonym timed_input = "time \<times> bool \<times> ws_input"

text \<open>
  The loop of \<open>readPump\<close> from the moment \<open>now\<close>, when nothing arrives but the inputs: the frames it
  hands to the handler, and the time at which a read fails. A read from the socket fails at the
  deadline, also if the deadline has passed while the pump was in the handler; so does the read
  after the last input, since nothing comes any more. A connection on which more arrives is
  looked at through longer and longer lists of inputs.
\<close>

fun timed_read :: "duration \<Rightarrow> time \<Rightarrow> time \<Rightarrow> timed_input list \<Rightarrow> bytes list \<times> time" where
  "timed_read pongTimeout deadline now [] = ([], max now deadline)"
| "timed_read pongTimeout deadline now ((arrival, buffered, input) # rest) =
     (let at = max now arrival in
      if \<not> buffered \<and> deadline \<le> at then ([], max now deadline)
      else case input of
             Pong \<Rightarrow> timed_read pongTimeout (at + pongTimeout) at rest
           | Message frame busy \<Rightarrow>
               (case timed_read pongTimeout deadline (at + busy) rest of
                  (frames, end) \<Rightarrow> (frame # frames, end)))"

definition readPump_timed :: "Options \<Rightarrow> time \<Rightarrow> timed_input list \<Rightarrow> bytes list \<times> time" where
  "readPump_timed opts start inputs =
     timed_read (o_PongTimeout opts) (start + o_PongTimeout opts) start inputs"

text \<open>The write pump's pings, when nothing holds it up: one at each tick.\<close>

definition ping_time :: "Options \<Rightarrow> time \<Rightarrow> nat \<Rightarrow> time" where
  "ping_time opts start k = start + int k * o_HeartbeatInterval opts"

section \<open>A peer that answers\<close>

text \<open>
  The inputs of a peer that answers: the \<open>k\<close>-th pong arrives after the \<open>k\<close>-th ping was sent and at
  most \<open>delay\<close> later, the messages before it arrive before that time is over, and handling the
  messages between two pongs takes at most \<open>work\<close> in total. \<open>busy\<close> is the work since the last pong.
\<close>

fun answers :: "Options \<Rightarrow> time \<Rightarrow> duration \<Rightarrow> duration \<Rightarrow> nat \<Rightarrow> duration \<Rightarrow> timed_input list \<Rightarrow> bool" where
  "answers opts start delay work k busy [] \<longleftrightarrow> True"
| "answers opts start delay work k busy ((arrival, buffered, Pong) # rest) \<longleftrightarrow>
     ping_time opts start k \<le> arrival \<and> arrival \<le> ping_time opts start k + delay
     \<and> answers opts start delay work (Suc k) 0 rest"
| "answers opts start delay work k busy ((arrival, buffered, Message frame d) # rest) \<longleftrightarrow>
     arrival \<le> ping_time opts start k + delay \<and> 0 \<le> d \<and> busy + d \<le> work
     \<and> answers opts start delay work k (busy + d) rest"

fun messages :: "timed_input list \<Rightarrow> bytes list" where
  "messages [] = []"
| "messages ((arrival, buffered, Pong) # rest) = messages rest"
| "messages ((arrival, buffered, Message frame d) # rest) = frame # messages rest"

fun pongs :: "timed_input list \<Rightarrow> nat" where
  "pongs [] = 0"
| "pongs ((arrival, buffered, Pong) # rest) = Suc (pongs rest)"
| "pongs ((arrival, buffered, Message frame d) # rest) = pongs rest"

lemma ping_time_Suc: "ping_time opts start (Suc k) = ping_time opts start k + o_HeartbeatInterval opts"
  by (simp add: ping_time_def algebra_simps)

lemma answered_read:
  assumes "o_HeartbeatInterval opts + delay + work < o_PongTimeout opts" and "work \<le> o_HeartbeatInterval opts" "0 \<le> work"
  shows "answers opts start delay work (Suc k) busy inputs \<Longrightarrow> 0 \<le> busy \<Longrightarrow> busy \<le> work \<Longrightarrow>
    ping_time opts start k + o_PongTimeout opts \<le> deadline \<Longrightarrow>
    now \<le> ping_time opts start (Suc k) + delay + busy \<Longrightarrow>
    fst (timed_read (o_PongTimeout opts) deadline now inputs) = messages inputs
    \<and> ping_time opts start (Suc k + pongs inputs) + delay < snd (timed_read (o_PongTimeout opts) deadline now inputs)"
proof (induction inputs arbitrary: k busy deadline now rule: messages.induct)
  case 1
  then show ?case using assms(1,3) by (simp add: ping_time_Suc less_max_iff_disj)
next
  case (2 arrival buffered rest)
  let ?at = "max now arrival"
  have at: "ping_time opts start (Suc k) \<le> ?at" "?at \<le> ping_time opts start (Suc k) + delay + work"
    using 2 by auto
  then have "\<not> deadline \<le> ?at" using 2(5) assms(1) ping_time_Suc [of opts start k] by linarith
  moreover have "fst (timed_read (o_PongTimeout opts) (?at + o_PongTimeout opts) ?at rest) = messages rest
    \<and> ping_time opts start (Suc (Suc k) + pongs rest) + delay
        < snd (timed_read (o_PongTimeout opts) (?at + o_PongTimeout opts) ?at rest)"
    by (rule 2(1) [where k = "Suc k" and busy = 0])
      (use 2(2-4) at assms(2,3) in \<open>simp_all add: ping_time_Suc\<close>)
  ultimately show ?case by (simp add: Let_def del: le_max_iff_disj)
next
  case (3 arrival buffered frame d rest)
  let ?at = "max now arrival"
  have at: "?at \<le> ping_time opts start (Suc k) + delay + busy" using 3 by auto
  then have "\<not> deadline \<le> ?at" using 3(4,5) assms(1) ping_time_Suc [of opts start k] by linarith
  moreover have "fst (timed_read (o_PongTimeout opts) deadline (?at + d) rest) = messages rest
    \<and> ping_time opts start (Suc k + pongs rest) + delay < snd (timed_read (o_PongTimeout opts) deadline (?at + d) rest)"
    by (rule 3(1) [where k = k and busy = "busy + d"]) (use 3(2-5) at in simp_all)
  ultimately show ?case by (simp add: Let_def case_prod_unfold del: le_max_iff_disj)
qed

text \<open>Nothing but pongs arrives, and the first one too late to be read.\<close>

lemma late_pong_read:
  assumes "answers opts start delay work 1 0 inputs" and "o_PongTimeout opts \<le> o_HeartbeatInterval opts"
    and "0 < o_PongTimeout opts" and "inputs = [] \<or> inputs = (arrival, False, Pong) # rest"
  shows "readPump_timed opts start inputs = ([], start + o_PongTimeout opts)"
  using assms by (auto simp: readPump_timed_def ping_time_def Let_def)

text \<open>\<open>NewManager\<close> takes every positive heartbeat interval, next to any pong timeout.\<close>

lemma withDefaults_heartbeat:
  assumes "0 < h"
  shows "withDefaults raw hostname (opts\<lparr>o_HeartbeatInterval := h\<rparr>)
    = map_sum (\<lambda>e. e) (\<lambda>r. r\<lparr>o_HeartbeatInterval := h\<rparr>) (withDefaults raw hostname opts)"
proof -
  have h: "or_default_int h defaultHeartbeatInterval = h" using assms by (simp add: or_default_int_def)
  have "map_sum f g (if b then x else y) = (if b then map_sum f g x else map_sum f g y)"
    "map_sum f g (case z of Inl e \<Rightarrow> u e | Inr v \<Rightarrow> w v) = (case z of Inl e \<Rightarrow> map_sum f g (u e) | Inr v \<Rightarrow> map_sum f g (w v))"
    for f g b x y u w and z :: "string + string"
    by (auto split: sum.split)
  note push = this
  show ?thesis
    by (cases opts) (simp add: withDefaults_def h Let_def push cong: if_cong sum.case_cong)
qed

lemma NewManager_any_heartbeat:
  assumes "NewManager raw hostname opts handler_nil = Inr m" and "0 < h"
  shows "\<exists>m'. NewManager raw hostname (opts\<lparr>o_HeartbeatInterval := h\<rparr>) handler_nil = Inr m'
    \<and> mg_opts m' = (mg_opts m)\<lparr>o_HeartbeatInterval := h\<rparr>"
proof -
  have "\<not> handler_nil" using assms(1) by (auto simp: NewManager_def)
  then show ?thesis
    using NewManager_Inr(1) [OF assms(1)] by (simp add: NewManager_def withDefaults_heartbeat [OF assms(2)])
qed

section \<open>Which heartbeats keep a connection\<close>

text \<open>C31: Heartbeats keep a connection whose peer answers, if they are fast enough. Let the heartbeat interval,
the delay of the peer's pongs and the work of the handler between two pongs together be below the pong timeout,
and the work at most the heartbeat interval. Then, however many messages and pongs have come, every
message was handled, once and in order, and the read deadline is still ahead when the next pong
is due, so no read fails: with the default options, whenever delay and work together are below 20
and the work is at most 10 seconds. But every manager's options are also accepted with any heartbeat interval
\<open>h\<close> that is not below the pong timeout; and then a connection on which nothing arrives but
pongs fails at its first read deadline, before the first pong can arrive, or when none ever does.\<close>

theorem heartbeats_keep_alive:
  assumes new: "NewManager raw hostname opts handler_nil = Inr m"
  shows "(o_HeartbeatInterval (mg_opts m) + delay + work < o_PongTimeout (mg_opts m)
        \<and> 0 \<le> delay \<and> 0 \<le> work \<and> work \<le> o_HeartbeatInterval (mg_opts m)
        \<and> answers (mg_opts m) start delay work 1 0 inputs \<longrightarrow>
      fst (readPump_timed (mg_opts m) start inputs) = messages inputs
      \<and> ping_time (mg_opts m) start (Suc (pongs inputs)) + delay < snd (readPump_timed (mg_opts m) start inputs))
    \<and> (o_PongTimeout (mg_opts m) \<le> h \<longrightarrow>
      (\<exists>m'. NewManager raw hostname (opts\<lparr>o_HeartbeatInterval := h\<rparr>) handler_nil = Inr m'
        \<and> o_HeartbeatInterval (mg_opts m') = h \<and> o_PongTimeout (mg_opts m') = o_PongTimeout (mg_opts m)
        \<and> (answers (mg_opts m') start delay work 1 0 inputs
            \<and> (inputs = [] \<or> (\<exists>arrival rest. inputs = (arrival, False, Pong) # rest)) \<longrightarrow>
          readPump_timed (mg_opts m') start inputs = ([], start + o_PongTimeout (mg_opts m)))))"
proof (intro conjI impI)
  assume fast: "o_HeartbeatInterval (mg_opts m) + delay + work < o_PongTimeout (mg_opts m)
    \<and> 0 \<le> delay \<and> 0 \<le> work \<and> work \<le> o_HeartbeatInterval (mg_opts m)
    \<and> answers (mg_opts m) start delay work 1 0 inputs"
  have "fst (readPump_timed (mg_opts m) start inputs) = messages inputs
      \<and> ping_time (mg_opts m) start (Suc 0 + pongs inputs) + delay < snd (readPump_timed (mg_opts m) start inputs)"
    unfolding readPump_timed_def
    by (rule answered_read [of _ delay work _ 0 0]) (use fast in \<open>simp_all add: ping_time_def\<close>)
  then show "fst (readPump_timed (mg_opts m) start inputs) = messages inputs"
    "ping_time (mg_opts m) start (Suc (pongs inputs)) + delay < snd (readPump_timed (mg_opts m) start inputs)"
    by simp_all
next
  assume h: "o_PongTimeout (mg_opts m) \<le> h"
  have pos: "0 < o_PongTimeout (mg_opts m)"
    using withDefaults_Inr(8) [OF NewManager_Inr(1) [OF new]] .
  then obtain m' where m': "NewManager raw hostname (opts\<lparr>o_HeartbeatInterval := h\<rparr>) handler_nil = Inr m'"
      "mg_opts m' = (mg_opts m)\<lparr>o_HeartbeatInterval := h\<rparr>"
    using NewManager_any_heartbeat [OF new, of h] h by auto
  show "\<exists>m'. NewManager raw hostname (opts\<lparr>o_HeartbeatInterval := h\<rparr>) handler_nil = Inr m'
      \<and> o_HeartbeatInterval (mg_opts m') = h \<and> o_PongTimeout (mg_opts m') = o_PongTimeout (mg_opts m)
      \<and> (answers (mg_opts m') start delay work 1 0 inputs
          \<and> (inputs = [] \<or> (\<exists>arrival rest. inputs = (arrival, False, Pong) # rest)) \<longrightarrow>
        readPump_timed (mg_opts m') start inputs = ([], start + o_PongTimeout (mg_opts m)))"
    using late_pong_read [of "mg_opts m'" start delay work inputs] m' h pos
    by (intro exI [of _ m']) auto
qed

text \<open>Both cases, with the default options and with a heartbeat every minute.\<close>

definition beat_options :: Options where
  "beat_options =
     \<lparr>o_NodeID = ''m'', o_Name = ''here'', o_ServiceName = '''', o_Domain = '''',
      o_WebSocketPath = '''', o_ListenAddr = '''', o_Port = 0, o_HeartbeatInterval = 0,
      o_PongTimeout = 0, o_PeerStaleAfter = 0, o_BrowseCycle = 0, o_ReconnectMinBackoff = 0,
      o_ReconnectMaxBackoff = 0, o_MaxFrameBytes = 0, o_SendQueueSize = 0\<rparr>"

lemma beat_manager:
  "\<exists>m. NewManager (Inl ''no entropy'') (Inl ''no name'') beat_options False = Inr m
     \<and> o_HeartbeatInterval (mg_opts m) = 10 * second \<and> o_PongTimeout (mg_opts m) = 30 * second"
  by (simp add: NewManager_def withDefaults_def beat_options_def or_default_int_def Let_def
      defaultHeartbeatInterval_def defaultPongTimeout_def defaultReconnectMinBackoff_def defaultReconnectMaxBackoff_def)

theorem heartbeats_keep_alive_witness:
  "(\<exists>m. NewManager (Inl ''no entropy'') (Inl ''no name'') beat_options False = Inr m
      \<and> fst (readPump_timed (mg_opts m) 0 [(10500000000, False, Pong), (12000000000, False, Message ''frame'' 2000000000),
            (20000000000, False, Pong)]) = [''frame''])
   \<and> (\<exists>m. NewManager (Inl ''no entropy'') (Inl ''no name'') (beat_options\<lparr>o_HeartbeatInterval := 60 * second\<rparr>) False = Inr m
      \<and> readPump_timed (mg_opts m) 0 [] = ([], 30 * second))"
proof -
  obtain m where m: "NewManager (Inl ''no entropy'') (Inl ''no name'') beat_options False = Inr m"
      "o_HeartbeatInterval (mg_opts m) = 10 * second" "o_PongTimeout (mg_opts m) = 30 * second"
    using beat_manager by auto
  have "answers (mg_opts m) 0 second (2 * second) 1 0 [(10500000000, False, Pong),
      (12000000000, False, Message ''frame'' 2000000000), (20000000000, False, Pong)]"
    by (simp_all add: ping_time_def m)
  then show ?thesis
    using heartbeats_keep_alive [OF m(1), of second "2 * second" 0 "[(10500000000, False, Pong),
      (12000000000, False, Message ''frame'' 2000000000), (20000000000, False, Pong)]" "60 * second", THEN conjunct1]
      heartbeats_keep_alive [OF m(1), of second 0 0 "[]" "60 * second", THEN conjunct2] m by auto
qed

end
