(* ===== verification/RuntimeProperties.thy ===== *)
theory RuntimeProperties
  imports Samples Control
begin

text \<open>
  The properties of \<open>internal/app\<close>: the runtime's handling of received frames, its log of the
  peers, the control protocol and the configuration.
\<close>

section \<open>Received frames\<close>

text \<open>C25: The read loop of a connection survives every frame: with the runtime's handler it reads on
until the connection itself reports an error, and by then every binary message before that
error has been handled once, in order; other messages are skipped.\<close>

theorem read_loop_survives:
  assumes "\<forall>(src, x) \<in> set rs. \<forall>e. x \<noteq> ReadErr e"
  shows "readPump (handleFrame uc up ar) (rs @ (src', ReadErr e') # rest) r =
    (receive_frames uc up ar (binary_frames rs) r, rest)"
  using runtime_frames.readPump_handles_all [OF assms]
  by (simp add: receive_frames_def)

theorem read_loop_survives_witness:
  "readPump (handleFrame frame_decode sample_unmarshal (\<lambda>p c. (c, None)))
     ([(zero_Peer, BinaryMessage ''garbage''), (zero_Peer, OtherMessage ''text''), (zero_Peer, BinaryMessage ''first'')]
       @ (zero_Peer, ReadErr ''closed'') # []) (newRuntime ()) =
   (receive_frames frame_decode sample_unmarshal (\<lambda>p c. (c, None))
     [(zero_Peer, ''garbage''), (zero_Peer, ''first'')] (newRuntime ()), [])"
  by (subst read_loop_survives) simp_all

text \<open>Whatever bytes arrive from the network, the runtime's reassembler and echo ledger stay
well formed, and each frame either leaves the clipboard alone or applies a payload that passes
\<open>ValidatePayload\<close>.\<close>

lemma frames_cannot_corrupt:
  "let r = receive_frames uc up (apply_to_clipboard jd pe w ctx now) frames (newRuntime (newPendingLedger ttl, os))
   in reassembler_inv (rt_reassembler r) \<and> ledger_inv (fst (rt_clipboard r))
     \<and> (rt_clipboard (snd (handleFrame uc up (apply_to_clipboard jd pe w ctx now) src frame r)) = rt_clipboard r
        \<or> (\<exists>p. ValidatePayload (Some p) = None
             \<and> rt_clipboard (snd (handleFrame uc up (apply_to_clipboard jd pe w ctx now) src frame r))
                 = fst (apply_to_clipboard jd pe w ctx now (Some p) (rt_clipboard r))))"
proof -
  let ?r = "receive_frames uc up (apply_to_clipboard jd pe w ctx now) frames (newRuntime (newPendingLedger ttl, os))"
  have "clip.runtime_inv (newRuntime (newPendingLedger ttl, os))"
    by (simp add: clip.runtime_inv_def newRuntime_def reassembler_inv_New ledger_inv_new)
  then have inv: "clip.runtime_inv ?r" by (rule clip.receive_inv)
  then show ?thesis
    using clip.handle_clipboard [of ?r uc up jd pe w ctx now src frame]
    by (auto simp: Let_def clip.runtime_inv_def ValidatePayload_valid)
qed

section \<open>The log of the peers\<close>

text \<open>What a reader of the log knows of the peers.\<close>

fun replay :: "runtime_error log_entry \<Rightarrow> (string, bool) fmap \<Rightarrow> (string, bool) fmap" where
  "replay (PeerDiscovered p n h t c) m = fmupd p c m"
| "replay (PeerStateChanged p c) m = fmupd p c m"
| "replay (PeerExpired p) m = fmdrop p m"
| "replay _ m = m"

lemma current_peers_lookup:
  "distinct (map peer_ID peers) \<Longrightarrow>
     fmlookup (fold (\<lambda>peer m. fmupd (peer_ID peer) (peer_Connected peer) m) peers m0) q =
       (case find (\<lambda>peer. peer_ID peer = q) peers of Some peer \<Rightarrow> Some (peer_Connected peer) | None \<Rightarrow> fmlookup m0 q)"
proof (induction peers arbitrary: m0)
  case (Cons peer peers)
  have "find (\<lambda>x. peer_ID x = peer_ID peer) peers = None"
  proof -
    have "peer_ID peer \<notin> peer_ID ` set peers" using Cons.prems by simp
    then have "\<nexists>x. x \<in> set peers \<and> peer_ID x = peer_ID peer" by (metis image_eqI)
    then show ?thesis by (simp add: find_None_iff)
  qed
  then show ?case using Cons by (auto split: option.split)
qed simp

lemma replay_peer_lines:
  assumes "distinct (map peer_ID peers)" and "\<And>peer. peer \<in> set peers \<Longrightarrow>
      fmlookup m (peer_ID peer) = fmlookup seen (peer_ID peer)"
  shows "fold replay (concat (map (log_peer seen) peers)) m =
    fold (\<lambda>peer m. fmupd (peer_ID peer) (peer_Connected peer) m) peers m"
  using assms
proof (induction peers arbitrary: m)
  case (Cons peer peers)
  have step: "fold replay (log_peer seen peer) m = fmupd (peer_ID peer) (peer_Connected peer) m"
    using Cons.prems(2) [of peer]
    by (auto simp: log_peer_def fmupd_lookup_same split: option.split)
  have "fold replay (concat (map (log_peer seen) peers)) (fmupd (peer_ID peer) (peer_Connected peer) m) =
      fold (\<lambda>peer m. fmupd (peer_ID peer) (peer_Connected peer) m) peers (fmupd (peer_ID peer) (peer_Connected peer) m)"
    using Cons.prems by (intro Cons.IH) auto
  then show ?case by (simp add: step)
qed simp

lemma replay_expired_lines:
  "fmlookup (fold replay (concat (map (log_expired current) order)) m) q =
     (if q \<in> set order \<and> fmlookup current q = None then None else fmlookup m q)"
  by (induction order arbitrary: m) (auto simp: log_expired_def)

text \<open>The log tells the truth about the peers: replaying the lines that \<open>logPeerChanges\<close> adds turns
the reader's view of the old peer table into the new one, and a second call with an unchanged
peer table adds no line.\<close>

lemma peer_log_replays:
  assumes "distinct (map peer_ID peers)" and "set order = fset (fmdom (rt_peerSeen r))"
  shows "\<exists>lines. rt_log (logPeerChanges order peers r) = rt_log r @ lines
    \<and> fold replay lines (rt_peerSeen r) = rt_peerSeen (logPeerChanges order peers r)
    \<and> (\<forall>p. fmlookup (rt_peerSeen (logPeerChanges order peers r)) p =
          map_option peer_Connected (find (\<lambda>peer. peer_ID peer = p) peers))
    \<and> (\<forall>order'. set order' = fset (fmdom (rt_peerSeen (logPeerChanges order peers r))) \<longrightarrow>
          rt_log (logPeerChanges order' peers (logPeerChanges order peers r)) = rt_log (logPeerChanges order peers r))"
proof -
  let ?cur = "current_peers peers" and ?seen = "rt_peerSeen r"
  let ?lines = "concat (map (log_peer ?seen) peers) @ concat (map (log_expired ?cur) order)"
  have cur: "fmlookup ?cur p = map_option peer_Connected (find (\<lambda>peer. peer_ID peer = p) peers)" for p
    using current_peers_lookup [OF assms(1), of fmempty p] by (simp add: current_peers_def split: option.split)
  have dom: "p \<in> set order \<longleftrightarrow> fmlookup ?seen p \<noteq> None" for p
    unfolding assms(2) by (metis fmdomI fmdom_notI fmdom_notD not_None_eq)
  have "fold replay ?lines ?seen = ?cur"
  proof (rule fmap_ext)
    fix q
    have "fmlookup (fold replay ?lines ?seen) q =
        (if q \<in> set order \<and> fmlookup ?cur q = None then None
         else case find (\<lambda>peer. peer_ID peer = q) peers of Some peer \<Rightarrow> Some (peer_Connected peer)
              | None \<Rightarrow> fmlookup ?seen q)"
      using current_peers_lookup [OF assms(1), of ?seen q]
      by (simp add: replay_expired_lines replay_peer_lines [OF assms(1)])
    then show "fmlookup (fold replay ?lines ?seen) q = fmlookup ?cur q"
      using dom [of q] by (auto simp: cur split: option.split)
  qed
  moreover have "log_peer ?cur peer = []" if "peer \<in> set peers" for peer
  proof -
    have "find (\<lambda>x. peer_ID x = peer_ID peer) peers = Some peer"
      using assms(1) that by (induction peers) auto
    then show ?thesis by (simp add: log_peer_def cur)
  qed
  moreover have "log_expired ?cur p = []" if "set order' = fset (fmdom ?cur)" "p \<in> set order'" for order' p
    using that by (auto simp: log_expired_def dest: fmdom_notI)
  ultimately show ?thesis
    by (intro exI [of _ ?lines]) (auto simp: logPeerChanges_def Let_def cur)
qed

section \<open>The control protocol\<close>

text \<open>A client's request reaches the daemon and its answer the client, for coders that read back
what they wrote: \<open>status\<close> returns the daemon's status and changes nothing, \<open>stop\<close> returns the
status of before and stops the daemon, and any other command returns the error \<open>unknown
command\<close> and changes nothing.\<close>

lemma control_round_trip:
  assumes "\<And>command. decode (encode command) = Inr command" and "\<And>resp. read_resp (write_resp resp) = Inr resp"
  shows "RequestControl (Some None) (Some None)
        (Some (read_resp (write_resp (fst (handleConn decode status stop (encode command) h))))) =
      Some (if command = ''status'' \<or> command = ''stop'' then Inr (Some (status h)) else Inl (OtherError ''unknown command''))
    \<and> snd (handleConn decode status stop (encode command) h) = (if command = ''stop'' then stop h else h)"
  using assms by (simp add: handleConn_def RequestControl_def status_response_def error_response_def)

section \<open>Configuration\<close>

text \<open>The configuration is not checked against what peers accept: a WebSocket path without a leading
slash passes \<open>New\<close>, and the node then advertises itself under it, but every receiver of that
record rejects it, so the node is never dialled.\<close>

lemma unreachable_path_accepted:
  assumes "New_runtime None clip raw (Inr host) cfg = Inr (r, m)"
    and "\<not> has_prefix ''/'' (trim_space (cf_WebSocketPath cfg))" and "cf_WebSocketPath cfg \<noteq> ''''"
  shows "\<exists>e. parseTXT (discoveryText (mg_nodeID m) (mg_name m) (o_WebSocketPath (mg_opts m))) = Inl e"
proof -
  note new = NewManager_Inr(1) [OF New_runtime_Inr(3) [OF assms(1)]]
  have "o_WebSocketPath (mg_opts m) = cf_WebSocketPath cfg"
    using withDefaults_names(3) [OF new] assms(3)
    by (simp add: mesh_options_def Config_WithDefaults_sel or_default_string_def)
  then show ?thesis
    using assms(2) by (simp add: parseTXT_discoveryText)
qed

definition slashless :: Config where
  "slashless = \<lparr>cf_Name = ''box'', cf_ListenAddr = '''', cf_Port = 0, cf_ServiceName = '''', cf_Domain = '''',
     cf_WebSocketPath = ''ws'', cf_ControlEndpoint = ''''\<rparr>"

end
