(* ===== verification/Spec2Isabelle.thy ===== *)
theory Spec2Isabelle
  imports WireProperties NetworkProperties DaemonProperties NodeLife Endpoint Heartbeat RuntimeProperties CliProperties
begin

text \<open>
  A model of \<^bold>\<open>clippy\<close>, a clipboard synchroniser for the local network written in Go, and the
  theorems that make it correct. Every node watches its native clipboard, finds its peers by
  mDNS, keeps one WebSocket connection to each of them, broadcasts every local change to all
  peers and writes what it receives into its own clipboard.

  \<^bold>\<open>The program and its model.\<close> Paths are below \<open>src/\<close>; definitions have the names of the Go functions,
  record fields the names of the Go fields behind a prefix, and each definition is a
  translation of the function it is named after, branch by branch.

  \<^item> \<open>internal/clipwire/payload.go\<close>, \<open>hash.go\<close>, \<open>clipwire.pb.go\<close> (\<^theory_text>\<open>Payload\<close>, \<^theory_text>\<open>Sha256\<close>): the two
    protobuf messages as records with their nil-safe getters, \<open>NewPayload\<close>, \<open>ValidatePayload\<close>.
    SHA-256 is written out and tested on a vector of the standard; nothing is assumed about
    collisions.
  \<^item> \<open>internal/clipwire/chunking.go\<close> (\<^theory_text>\<open>Chunking\<close>, \<^theory_text>\<open>Reassembler\<close>): \<open>ChunkPayload\<close> with Go's 64-bit
    \<open>int\<close>, its slicing and its panics, and a reference definition (\<open>pieces\<close>); the reassembler's
    table, \<open>Add\<close>, its invariant and what it holds of a transfer after any sequence of chunks.
  \<^item> \<open>internal/osclip/pending.go\<close> (\<^theory_text>\<open>Pending\<close>): the ledger of remembered writes, as an
    implementation of the interface \<open>echo_ledger\<close>, a counter of credits per key.
  \<^item> \<open>internal/osclip/manager.go\<close> (\<^theory_text>\<open>OsClip\<close>, \<^theory_text>\<open>OsClipSystem\<close>): applying remote payloads, what becomes
    of a local change, and the watchers, the processor and concurrent \<open>ApplyRemote\<close> calls as
    the step relation \<open>clip_step\<close>.
  \<^item> \<open>internal/netmesh/discovery.go\<close> (\<^theory_text>\<open>Discovery\<close>): TXT records, addresses and service entries, with
    the parts of \<open>net\<close> and \<open>strings\<close> they use. \<open>internal/netmesh/connection.go\<close> (\<^theory_text>\<open>Connection\<close>): one
    peer's state and one connection's.
  \<^item> \<open>internal/netmesh/manager.go\<close> (\<^theory_text>\<open>Mesh\<close>, \<^theory_text>\<open>MeshInv\<close>, \<^theory_text>\<open>MeshSystem\<close>): the manager's tables and one
    definition per operation; their invariant \<open>mesh_inv\<close>, one lemma per operation; and the step
    relation \<open>mesh_step\<close> over critical sections, with the calls that are still to be made after
    a lock has been released as part of the state, and one dial loop per peer.
  \<^item> \<open>advertiseLoop\<close>, \<open>browseLoop\<close>, \<open>pruneLoop\<close>, \<open>serveHTTP\<close> and \<open>shutdown\<close> (\<^theory_text>\<open>Lifecycle\<close>): when the
    manager's goroutines start and end, the wait group that counts them, and the registered
    services, as the step relation \<open>life_step\<close>. The read deadlines and the pings (\<^theory_text>\<open>Heartbeat\<close>): the
    read pump as a function of what arrives when.
  \<^item> \<open>internal/app/runtime.go\<close> (\<^theory_text>\<open>Runtime\<close>, \<^theory_text>\<open>Delivery\<close>), \<open>control.go\<close>, \<open>config.go\<close>,
    \<open>ipc_windows.go\<close> (\<^theory_text>\<open>Control\<close>): the runtime between clipboard and mesh, over the interfaces
    \<open>clipboard_sink\<close> and \<open>frame_transport\<close>; the control protocol and its server. \<open>ipc_unix.go\<close>
    (\<^theory_text>\<open>Endpoint\<close>): the socket path daemons and clients share, its default and its listeners.
  \<^item> \<open>Start\<close>, \<open>runClipboardLoop\<close>, \<open>runPeerLogLoop\<close> and \<open>Wait\<close> of \<open>runtime.go\<close> (\<^theory_text>\<open>NodeSystem\<close>, \<^theory_text>\<open>NodeRuns\<close>): a
    whole node as the step relation \<open>node_step\<close>, in which \<open>clip_step\<close>, \<open>mesh_step\<close> and the runtime's
    own goroutines interleave; with the life cycle of its mesh manager at its side, \<open>full_step\<close>
    (\<^theory_text>\<open>NodeLife\<close>).
  \<^item> Several nodes (\<^theory_text>\<open>Network\<close>, \<^theory_text>\<open>NetworkRuns\<close>): the step relation \<open>net_step\<close>, in which every node takes
    its own steps and the frames its write pumps write reach the read pumps of other nodes, in
    order on each connection, or are lost.
  \<^item> \<open>cmd/clippy/main.go\<close> (\<^theory_text>\<open>Flags\<close>, \<^theory_text>\<open>Cli\<close>): the command line, with Go's \<open>strconv\<close> and \<open>flag\<close> as far
    as it uses them, the commands, the wait for the daemon, and an abstract view of the end of
    \<open>serveDaemon\<close>, \<open>daemon_step\<close>. \<open>serveDaemon\<close> (\<^theory_text>\<open>Daemon\<close>): the whole daemon as the step relation
    \<open>serve_step\<close>, its main function and control server around a node.

  \<^bold>\<open>State and time.\<close> Go's maps are finite maps; the order in which \<open>range\<close> visits one is an argument
  (\<open>order\<close>), and the theorems hold for every order. Pointers to connections are numbers into
  the connection table. A mutex-protected section is one function or one step. Times are
  nanoseconds as integers; a \<open>select\<close> with several ready cases takes one by an argument
  (\<open>pick\<close>), or as a rule of a step relation. Errors are values of the error datatypes.

  \<^bold>\<open>Parameters and hypotheses.\<close> Code that is not in the repository is an argument of the definitions
  that use it: \<open>proto.Marshal\<close> and \<open>Unmarshal\<close> (hypotheses \<open>payload_codec\<close>, \<open>chunk_codec\<close>: what was
  written is read back; \<open>chunk_overhead\<close>: a chunk's frame adds at most 64 bytes to its identifier and data), the native
  clipboard, \<open>url.Parse\<close>, the image codecs, JSON coders, the dialler and the random source. The
  theory \<^theory_text>\<open>Samples\<close> has concrete instances of them, on which the hypotheses hold.

  \<^bold>\<open>What the theorems show.\<close> \<^theory_text>\<open>WireProperties\<close>: the payload contract, chunking against its
  reference, reassembly from any order and any mixture of chunks, and how a forged chunk blocks it. \<^theory_text>\<open>ClipProperties\<close>: echo
  suppression, what a failed write leaves behind, coalescing, local payloads, and the safety of the clipboard goroutines.
  \<^theory_text>\<open>MeshProperties\<close>: the single operations of the mesh, and that two nodes keep the same
  connection; \<^theory_text>\<open>MeshSystemProperties\<close>: what holds in
  every reachable state of the manager, above all that no connection is leaked, no peer has two, and
  no wake-up is lost, and that whole calls are runs of its steps. \<^theory_text>\<open>Lifecycle\<close>: a cancelled
  manager can always run on to the end of \<open>shutdown\<close>, and then nothing of it is left; \<^theory_text>\<open>NodeLife\<close>:
  so can a whole node, and \<open>Wait\<close> does not return earlier; and a node does not notice that its mesh
  manager has shut down after a failure.
  \<^theory_text>\<open>Heartbeat\<close>: which intervals and delays keep a connection, and which end it. \<^theory_text>\<open>RuntimeProperties\<close>: received
  frames, the peer log, the configuration. \<^theory_text>\<open>NodeProperties\<close>: in every run of a node both managers
  are in reachable states of their own, only local payloads are sent, all and in order, and the
  sequential functions are runs of the steps. \<^theory_text>\<open>NetworkProperties\<close>: whatever arrives on any
  node of a network was copied, with the same content digest, on the node it is attributed to;
  and what is copied on one node can always reach the clipboard of a connected one.
  \<^theory_text>\<open>DaemonProperties\<close>: the daemon refines its abstract view,
  a stop request brings all of it down unless it is blocked, it leaves nothing running, and it can
  block. \<^theory_text>\<open>CliProperties\<close>: the daemon's configuration, the commands against a running daemon, and
  the wait. \<^theory_text>\<open>Endpoint\<close>: what two daemons at one socket path do to each other. This theory: a payload travels from one clipboard
  to the other, through all of these parts.

  \<^bold>\<open>Bounds and termination.\<close> All recursions are structural or have a measure, except the wait for the
  daemon, a partial function: on every clock that moves it is shown to return unless one of its
  polls does not, since a request has no deadline. The retry delay
  is an exact 64-bit product; the theorems about reachable states ask that the largest retry
  delay be below 2 ^ 62 ns, since the doubling overflows beyond it. Chunk sizes are bounded by
  2 ^ 62 for the same reason (\<open>chunking_overflow\<close> shows what happens beyond).

  \<^bold>\<open>Not modelled.\<close> What zeroconf and \<open>net/http\<close> do inside their calls: they succeed, fail and
  deliver entries and requests as they like. \<open>Lifecycle\<close> and \<open>mesh_step\<close> are two views of the same
  goroutines, one of their lives and one of their tables; \<open>full_step\<close> couples them by the context and by
  \<open>m.done\<close>, but not pump by pump. In the step relations a deadline is a read or write that fails, which ends a pump at any time. The
  processes of the daemon and of its clients end with their main functions; what their
  goroutines would still do then is not looked at. The process launchers are operating-system calls. The
  registration code of \<open>clipwire.pb.go\<close> is generated.
\<close>

section \<open>From one clipboard to another\<close>

text \<open>C1: A payload that \<open>broadcastPayload\<close> sends without an error is in the send queue of every
active connection as a run of frames, in order and behind what was queued before; and a runtime
that receives these frames, in this order, and that has no transfer of the same content in
flight, applies exactly this payload to its clipboard, once.\<close>

theorem payload_travels:
  assumes codec: "payload_codec marshal up" "chunk_codec mc uc"
    and inv: "mesh_inv m" and env: "\<And>i. enumerates (fst (snd (env i))) m"
    and sent: "broadcastPayload marshal mc mesh_broadcast env (Some p) m = (m', None)"
    and conn: "active_conn m peer = Some cid" "fmlookup (mg_conns m) cid = Some c"
    and recv: "reassembler_inv (rt_reassembler r)"
      "fmlookup (ra_inflight (rt_reassembler r)) (cp_Sha256 p) = None"
  shows "\<exists>frames. fmlookup (mg_conns m') cid = Some (c\<lparr>mc_sendQ := mc_sendQ c @ frames\<rparr>)
    \<and> rt_clipboard (receive_frames uc up ar (map (Pair src) frames) r) = fst (ar (Some p) (rt_clipboard r))"
proof -
  obtain chunks where chunks: "ChunkPayload marshal (Some p) DefaultChunkSize = Inr chunks"
      "broadcast_chunks mc mesh_broadcast env 0 chunks m = (m', None)"
    using sent by (auto simp: broadcastPayload_def split: sum.splits)
  obtain frames where frames: "map mc chunks = map Inr frames"
      "fmlookup (mg_conns m') cid = Some (c\<lparr>mc_sendQ := mc_sendQ c @ frames\<rparr>)"
    using broadcast_chunks_ok [OF inv env chunks(2) conn] by blast
  have "ChunkPayload marshal (Some p) (int 1048576) = Inr chunks"
    using chunks(1) by (simp add: DefaultChunkSize_def)
  then have "rt_clipboard (receive_frames uc up ar (map (Pair src) frames) r) = fst (ar (Some p) (rt_clipboard r))"
    by (intro receive_in_order [where n = 1048576, OF codec _ _ _ recv frames(1)]) simp_all
  then show ?thesis using frames(2) by blast
qed

abbreviation sample_env :: "nat \<Rightarrow> broadcast_env" where
  "sample_env \<equiv> \<lambda>_. (\<lambda>_. 0, [''a'', ''z''], None)"

lemma sample_broadcast:
  "snd (broadcastPayload sample_marshal frame_encode mesh_broadcast sample_env (Some sample_payload) sample_mesh) = None"
proof -
  have "send_result (\<lambda>_. 0) None ''whole'' sample_mesh p = None" for p
    by (auto simp: send_result_def active_conn_def sample_mesh_def sample_peer_def sample_conn_def
        enqueue_def enqueue_ready_def split: option.split if_splits)
  moreover have "int (length ''whole'') \<le> o_MaxFrameBytes (mg_opts sample_mesh)"
    by (simp add: sample_mesh_def sample_options_def defaultMaxFrameBytes_def)
  ultimately have "snd (mesh_broadcast ((\<lambda>_. 0), [''a'', ''z''], None) ''whole'' sample_mesh) = None"
    using Broadcast_result(1) [OF sample_mesh_inv _ _ \<open>int (length ''whole'') \<le> _\<close>, of "[''a'', ''z'']" "\<lambda>_. 0" None]
      sample_mesh_order by (simp add: mesh_broadcast_def enumerates_def)
  then show ?thesis
    by (cases "mesh_broadcast ((\<lambda>_. 0), [''a'', ''z''], None) ''whole'' sample_mesh")
      (simp add: broadcastPayload_def whole_chunks frame_encode_def)
qed

theorem payload_travels_witness:
  "\<exists>frames. rt_clipboard (receive_frames frame_decode sample_unmarshal collect_payloads
     (map (Pair zero_Peer) frames) (newRuntime [])) = [sample_payload]"
proof -
  obtain m' where "broadcastPayload sample_marshal frame_encode mesh_broadcast sample_env (Some sample_payload)
      sample_mesh = (m', None)"
    using sample_broadcast by (metis prod.collapse)
  then show ?thesis
    using payload_travels [OF sample_payload_codec frame_codec sample_mesh_inv _ _ sample_mesh_active,
        of sample_env sample_payload m' "newRuntime []" collect_payloads zero_Peer] sample_mesh_order
    by (auto simp: newRuntime_def reassembler_inv_def NewReassembler_def collect_payloads_def)
qed

text \<open>C24: The frame of a chunk always fits: a manager whose frame limit is at least the default never
refuses a frame of \<open>broadcastPayload\<close> for its size, so the only errors are an invalid payload,
the serialiser's, and those of full or closed queues.\<close>

theorem chunk_frames_never_oversized:
  assumes codec: "payload_codec marshal up" and over: "chunk_overhead mc"
    and limit: "defaultMaxFrameBytes \<le> o_MaxFrameBytes (mg_opts m)"
  shows "snd (broadcastPayload marshal mc mesh_broadcast env payload m) \<noteq> Some (ErrMesh ErrInvalidFrame)"
proof (cases "ChunkPayload marshal payload DefaultChunkSize")
  case (Inl e)
  then show ?thesis by (simp add: broadcastPayload_def)
next
  case (Inr chunks)
  have "int (length f) \<le> o_MaxFrameBytes (mg_opts m)" if "ch \<in> set chunks" "mc ch = Inr f" for ch f
    using chunk_frames_fit [OF codec over Inr that] limit by simp
  then show ?thesis
    using transport.chunks_fit [of chunks mc m env 0] Inr by (simp add: broadcastPayload_def)
qed

theorem chunk_frames_never_oversized_witness:
  "snd (broadcastPayload sample_marshal frame_encode mesh_broadcast sample_env (Some sample_payload) sample_mesh)
    \<noteq> Some (ErrMesh ErrInvalidFrame)"
  by (rule chunk_frames_never_oversized [OF sample_payload_codec frame_overhead])
    (simp add: sample_mesh_def sample_options_def)

end
